(* ===== verification/Prelude.thy ===== *)
theory Prelude
  imports Main "HOL-Library.Word" "HOL-Library.Char_ord" "HOL-Library.List_Lexorder"
    "HOL-Library.Sublist" "HOL-Library.Multiset" "HOL-Library.Code_Target_Nat"
begin

text \<open>
  Shared vocabulary of the development.

  \<^item> Type synonyms for the machine integers and the containers of the Rust sources. A Rust
    \<^verbatim>\<open>String\<close> is the list of its UTF-8 bytes (\<^typ>\<open>string\<close>), so \<open>\<le>\<close> on strings is
    Rust's byte-wise \<^verbatim>\<open>str\<close> order. A \<^verbatim>\<open>BTreeMap\<close> is the association list its
    iterator yields, keys strictly increasing.
  \<^item> The string operations of the standard library the sources call: prefixes, suffixes,
    splitting, trimming, decimal printing and parsing.
  \<^item> Three interfaces as locales: \<open>codec\<close> (an encoder with a decoder), \<open>total_preorder\<close>
    (a comparison that Rust's stable sorts accept) and \<open>inv_system\<close> (a step relation with an
    inductive invariant). The components interpret them on their own definitions.
\<close>

named_theorems str_simps \<open>evaluation rules for the string operations\<close>
named_theorems model_defs \<open>definitions unfolded by the component proofs\<close>

type_synonym u8 = "8 word"
type_synonym u32 = "32 word"
type_synonym u64 = "64 word"
type_synonym 'v btree_map = "(string \<times> 'v) list"

lemma find_append: "find P (xs @ ys) = (case find P xs of None \<Rightarrow> find P ys | Some x \<Rightarrow> Some x)"
  by (induction xs) auto

lemma find_SomeD: "find P xs = Some x \<Longrightarrow> x \<in> set xs \<and> P x"
  by (auto simp: find_Some_iff)

section \<open>Prefixes, suffixes and substrings\<close>

abbreviation starts_with :: "string \<Rightarrow> string \<Rightarrow> bool" where
  "starts_with s p \<equiv> prefix p s"

abbreviation ends_with :: "string \<Rightarrow> string \<Rightarrow> bool" where
  "ends_with s p \<equiv> suffix p s"

definition strip_prefix :: "string \<Rightarrow> string \<Rightarrow> string option" where
  "strip_prefix p s = (if prefix p s then Some (drop (length p) s) else None)"

definition strip_suffix :: "string \<Rightarrow> string \<Rightarrow> string option" where
  "strip_suffix p s = (if suffix p s then Some (take (length s - length p) s) else None)"

fun str_contains :: "string \<Rightarrow> string \<Rightarrow> bool" where
  "str_contains [] p = (p = [])"
| "str_contains (x # xs) p = (prefix p (x # xs) \<or> str_contains xs p)"

lemma strip_prefix_Some_iff: "strip_prefix p s = Some r \<longleftrightarrow> s = p @ r"
  by (auto simp: strip_prefix_def prefix_def)

lemma strip_prefix_append [simp]: "strip_prefix p (p @ r) = Some r"
  by (simp add: strip_prefix_def)

lemma strip_suffix_Some_iff: "strip_suffix p s = Some r \<longleftrightarrow> s = r @ p"
  by (auto simp: strip_suffix_def suffix_def)

lemma strip_suffix_append [simp]: "strip_suffix p (r @ p) = Some r"
  by (simp add: strip_suffix_def suffix_def)

lemma str_contains_iff: "str_contains s p \<longleftrightarrow> (\<exists>a b. s = a @ p @ b)"
proof (induction s)
  case (Cons x xs)
  have "(\<exists>a b. x # xs = a @ p @ b) \<longleftrightarrow> prefix p (x # xs) \<or> (\<exists>a b. xs = a @ p @ b)"
    by (auto simp: prefix_def Cons_eq_append_conv)
  with Cons show ?case by simp
qed auto

lemma str_contains_char: "str_contains s [c] \<longleftrightarrow> c \<in> set s"
  by (induction s) auto

section \<open>Trimming\<close>

definition trim_start_char :: "char \<Rightarrow> string \<Rightarrow> string" where
  "trim_start_char c s = dropWhile (\<lambda>x. x = c) s"

definition trim_end_char :: "char \<Rightarrow> string \<Rightarrow> string" where
  "trim_end_char c s = rev (dropWhile (\<lambda>x. x = c) (rev s))"

definition trim_char :: "char \<Rightarrow> string \<Rightarrow> string" where
  "trim_char c s = trim_end_char c (trim_start_char c s)"

text \<open>
  Rust's \<^verbatim>\<open>str::trim\<close> removes the characters with the Unicode property White_Space; these
  are their UTF-8 encodings.
\<close>

definition ws_seqs :: "nat list list" where
  "ws_seqs = [[9],[10],[11],[12],[13],[32],[194,133],[194,160],[225,154,128]]
     @ map (\<lambda>i. [226,128,128 + i]) [0..<11]
     @ [[226,128,168],[226,128,169],[226,128,175],[226,129,159],[227,128,128]]"

definition ws_strings :: "string list" where
  "ws_strings = map (map char_of) ws_seqs"

function strip_front :: "string list \<Rightarrow> string \<Rightarrow> string" where
  "strip_front ws s =
     (case find (\<lambda>w. w \<noteq> [] \<and> prefix w s) ws of
        Some w \<Rightarrow> strip_front ws (drop (length w) s)
      | None \<Rightarrow> s)"
  by pat_completeness auto
termination
proof (relation "measure (\<lambda>(ws, s). length s)")
  fix ws :: "string list" and s :: string and w
  assume "find (\<lambda>w. w \<noteq> [] \<and> prefix w s) ws = Some w"
  then have "w \<noteq> []" and "prefix w s"
    by (auto simp: find_Some_iff)
  then show "((ws, drop (length w) s), ws, s) \<in> measure (\<lambda>(ws, s). length s)"
    by (cases s) (auto simp: prefix_def)
qed simp

declare strip_front.simps [simp del]

definition trim_start :: "string \<Rightarrow> string" where
  "trim_start s = strip_front ws_strings s"

definition trim_end :: "string \<Rightarrow> string" where
  "trim_end s = rev (strip_front (map rev ws_strings) (rev s))"

definition trim :: "string \<Rightarrow> string" where
  "trim s = rev (strip_front (map rev ws_strings) (rev (strip_front ws_strings s)))"

text \<open>A string is \<open>trimmed\<close> when no white space starts or ends it; \<^const>\<open>trim\<close> keeps it.\<close>

definition trimmed :: "string \<Rightarrow> bool" where
  "trimmed s \<longleftrightarrow> list_all (\<lambda>w. \<not> prefix w s \<and> \<not> suffix w s) ws_strings"

lemma trim_trimmed: "trimmed s \<Longrightarrow> trim s = s"
proof -
  assume t: "trimmed s"
  have "find (\<lambda>w. w \<noteq> [] \<and> prefix w s) ws_strings = None"
    using t by (auto simp: trimmed_def find_None_iff list_all_iff)
  then have a: "strip_front ws_strings s = s"
    by (simp add: strip_front.simps[of ws_strings s])
  have "find (\<lambda>w. w \<noteq> [] \<and> prefix w (rev s)) (map rev ws_strings) = None"
    using t by (auto simp: trimmed_def find_None_iff list_all_iff suffix_to_prefix)
  then have "strip_front (map rev ws_strings) (rev s) = rev s"
    by (simp add: strip_front.simps[of "map rev ws_strings" "rev s"])
  with a show ?thesis by (simp add: trim_def)
qed

lemma trim_start_char_idem: "s = [] \<or> hd s \<noteq> c \<Longrightarrow> trim_start_char c s = s"
  by (cases s) (auto simp: trim_start_char_def)

lemma trim_end_char_snoc: "x \<noteq> c \<Longrightarrow> trim_end_char c (s @ [x]) = s @ [x]"
  by (simp add: trim_end_char_def)

lemma trim_end_char_last: "trim_end_char c s = [] \<or> last (trim_end_char c s) \<noteq> c"
proof (cases "dropWhile (\<lambda>x. x = c) (rev s)")
  case (Cons a list)
  then have "a \<noteq> c" by (metis (mono_tags, lifting) hd_dropWhile list.distinct(1) list.sel(1))
  with Cons show ?thesis by (simp add: trim_end_char_def)
qed (simp add: trim_end_char_def)

section \<open>Splitting\<close>

fun split_on :: "char \<Rightarrow> string \<Rightarrow> string list" where
  "split_on c [] = [[]]"
| "split_on c (x # xs) =
     (if x = c then [] # split_on c xs
      else case split_on c xs of [] \<Rightarrow> [[x]] | y # ys \<Rightarrow> (x # y) # ys)"

fun join_with :: "string \<Rightarrow> string list \<Rightarrow> string" where
  "join_with d [] = []"
| "join_with d [x] = x"
| "join_with d (x # y # ys) = x @ d @ join_with d (y # ys)"

fun split_once :: "char \<Rightarrow> string \<Rightarrow> (string \<times> string) option" where
  "split_once c [] = None"
| "split_once c (x # xs) =
     (if x = c then Some ([], xs) else map_option (\<lambda>(a, b). (x # a, b)) (split_once c xs))"

fun splitn :: "nat \<Rightarrow> char \<Rightarrow> string \<Rightarrow> string list" where
  "splitn 0 c s = []"
| "splitn (Suc 0) c s = [s]"
| "splitn (Suc (Suc n)) c s =
     (case split_once c s of None \<Rightarrow> [s] | Some (a, b) \<Rightarrow> a # splitn (Suc n) c b)"

definition rsplitn :: "nat \<Rightarrow> char \<Rightarrow> string \<Rightarrow> string list" where
  "rsplitn n c s = map rev (splitn n c (rev s))"

lemma split_on_not_Nil [simp]: "split_on c s \<noteq> []"
  by (cases s) (auto split: list.splits)

lemma split_on_append_sep:
  "c \<notin> set a \<Longrightarrow> split_on c (a @ c # b) = a # split_on c b"
  by (induction a) auto

lemma split_on_no_sep: "c \<notin> set s \<Longrightarrow> split_on c s = [s]"
  by (induction s) auto

lemma join_split_on: "join_with [c] (split_on c s) = s"
proof (induction s)
  case (Cons x xs)
  obtain y ys where s: "split_on c xs = y # ys"
    by (cases "split_on c xs") auto
  with Cons have "join_with [c] (y # ys) = xs" by simp
  with s show ?case by (cases ys) auto
qed simp

lemma split_once_Some:
  "split_once c s = Some (a, b) \<longleftrightarrow> s = a @ c # b \<and> c \<notin> set a"
proof (induction s arbitrary: a)
  case step: (Cons x xs)
  show ?case
  proof (cases a)
    case Nil
    then show ?thesis by auto
  next
    case (Cons y ys)
    then show ?thesis using step.IH[of ys] by auto
  qed
qed simp

lemma split_once_None: "split_once c s = None \<longleftrightarrow> c \<notin> set s"
  by (induction s) auto

lemma split_once_append: "c \<notin> set a \<Longrightarrow> split_once c (a @ c # b) = Some (a, b)"
  by (simp add: split_once_Some)

text \<open>\<^verbatim>\<open>str::replace\<close>: non-overlapping occurrences, from the left.\<close>

function str_replace :: "string \<Rightarrow> string \<Rightarrow> string \<Rightarrow> string" where
  "str_replace pat rep [] = []"
| "str_replace pat rep (c # cs) =
     (if pat \<noteq> [] \<and> prefix pat (c # cs) then rep @ str_replace pat rep (drop (length pat) (c # cs))
      else c # str_replace pat rep cs)"
  by pat_completeness auto
termination
  by (relation "measure (\<lambda>(_, _, s). length s)") (auto simp: less_Suc_eq_le neq_Nil_conv)

lemma of_char_less: "(of_char c :: nat) < 256"
  by simp

section \<open>Decimal numbers\<close>

definition is_digit :: "char \<Rightarrow> bool" where
  "is_digit c \<longleftrightarrow> 48 \<le> (of_char c :: nat) \<and> (of_char c :: nat) \<le> 57"

definition digit_val :: "char \<Rightarrow> nat" where
  "digit_val c = of_char c - 48"

definition digits_val :: "string \<Rightarrow> nat" where
  "digits_val ds = foldl (\<lambda>n c. 10 * n + digit_val c) 0 ds"

text \<open>
  \<^verbatim>\<open>str::parse\<close> at an unsigned type of \<open>w\<close> bits: an optional plus sign, at least one
  ASCII digit and nothing else, and a value that fits.
\<close>

definition parse_uint :: "nat \<Rightarrow> string \<Rightarrow> nat option" where
  "parse_uint w s =
     (let ds = (case s of c # cs \<Rightarrow> if c = CHR ''+'' then cs else s | [] \<Rightarrow> [])
      in if ds \<noteq> [] \<and> list_all is_digit ds \<and> digits_val ds < 2 ^ w
         then Some (digits_val ds) else None)"

fun nat_to_string :: "nat \<Rightarrow> string" where
  "nat_to_string n =
     (if n < 10 then [char_of (48 + n)]
      else nat_to_string (n div 10) @ [char_of (48 + n mod 10)])"

declare nat_to_string.simps [simp del]

definition parse_u64 :: "string \<Rightarrow> u64 option" where
  "parse_u64 s = map_option of_nat (parse_uint 64 s)"

definition parse_u32 :: "string \<Rightarrow> u32 option" where
  "parse_u32 s = map_option of_nat (parse_uint 32 s)"

definition word_to_string :: "'a::len word \<Rightarrow> string" where
  "word_to_string w = nat_to_string (unat w)"

lemma digit_of_nat: "d < 10 \<Longrightarrow> is_digit (char_of (48 + d)) \<and> digit_val (char_of (48 + d)) = d"
  by (simp add: is_digit_def digit_val_def)

lemma digits_val_snoc: "digits_val (ds @ [c]) = 10 * digits_val ds + digit_val c"
  by (simp add: digits_val_def)

lemma nat_to_string_digits: "list_all is_digit (nat_to_string n)"
proof (induction n rule: nat_to_string.induct)
  case (1 n)
  then show ?case
    by (subst nat_to_string.simps) (auto simp: digit_of_nat[of "n mod 10"] digit_of_nat[of n])
qed

lemma nat_to_string_val: "digits_val (nat_to_string n) = n"
proof (induction n rule: nat_to_string.induct)
  case (1 n)
  show ?case
  proof (cases "n < 10")
    case True
    then show ?thesis by (subst nat_to_string.simps) (simp add: digits_val_def digit_of_nat)
  next
    case False
    with 1 show ?thesis
      by (subst nat_to_string.simps) (simp add: digits_val_snoc digit_of_nat)
  qed
qed

lemma nat_to_string_not_Nil [simp]: "nat_to_string n \<noteq> []"
  by (subst nat_to_string.simps) simp

lemma digit_neq: "is_digit c \<Longrightarrow> \<not> is_digit d \<Longrightarrow> c \<noteq> d"
  by auto

lemma not_digit_plus: "\<not> is_digit (CHR ''+'')"
  by (simp add: is_digit_def)

lemma parse_nat_to_string: "n < 2 ^ w \<Longrightarrow> parse_uint w (nat_to_string n) = Some n"
proof -
  assume n: "n < 2 ^ w"
  obtain c cs where s: "nat_to_string n = c # cs"
    by (cases "nat_to_string n") auto
  have d: "list_all is_digit (c # cs)" and v: "digits_val (c # cs) = n"
    using nat_to_string_digits[of n] nat_to_string_val[of n] s by simp_all
  then have "c \<noteq> CHR ''+''" using not_digit_plus by auto
  with n s d v show ?thesis by (simp add: parse_uint_def)
qed

lemma parse_word_to_string:
  "parse_u64 (word_to_string (w :: u64)) = Some w"
  "parse_u32 (word_to_string (v :: u32)) = Some v"
  using unsigned_less[of w, where ?'a = nat] unsigned_less[of v, where ?'a = nat]
  by (simp_all add: parse_u64_def parse_u32_def word_to_string_def parse_nat_to_string)

lemma not_digit_in_nat_to_string: "\<not> is_digit c \<Longrightarrow> c \<notin> set (nat_to_string n)"
  using nat_to_string_digits[of n] by (auto simp: list_all_iff)

text \<open>No white space starts or ends a string of digits.\<close>

lemma ws_not_digit: "list_all (\<lambda>w. w \<noteq> [] \<and> \<not> is_digit (hd w) \<and> \<not> is_digit (last w)) ws_strings"
  by code_simp

lemma digits_trimmed: "list_all is_digit s \<Longrightarrow> trimmed s"
proof -
  assume s: "list_all is_digit s"
  have "\<not> prefix w s \<and> \<not> suffix w s" if "w \<in> set ws_strings" for w
  proof -
    have w: "w \<noteq> []" "\<not> is_digit (hd w)" "\<not> is_digit (last w)"
      using ws_not_digit that by (auto simp: list_all_iff)
    then have "hd w \<notin> set s" "last w \<notin> set s" using s by (auto simp: list_all_iff)
    with w(1) show ?thesis by (auto simp: prefix_def suffix_def)
  qed
  then show ?thesis by (simp add: trimmed_def list_all_iff)
qed

lemma trim_nat_to_string [simp]: "trim (nat_to_string n) = nat_to_string n"
  by (intro trim_trimmed digits_trimmed nat_to_string_digits)

lemma trim_word_to_string [simp]: "trim (word_to_string w) = word_to_string w"
  by (simp add: word_to_string_def)

section \<open>Saturating arithmetic\<close>

definition sat_add :: "'a::len word \<Rightarrow> 'a word \<Rightarrow> 'a word" where
  "sat_add a b = (if unat a + unat b < 2 ^ LENGTH('a) then a + b else - 1)"

definition sat_mul :: "'a::len word \<Rightarrow> 'a word \<Rightarrow> 'a word" where
  "sat_mul a b = (if unat a * unat b < 2 ^ LENGTH('a) then a * b else - 1)"

lemma unat_minus_one_eq: "unat (- 1 :: 'a::len word) = 2 ^ LENGTH('a) - 1"
  by (simp add: unsigned_minus_1_eq_mask mask_eq_exp_minus_1)

lemma unat_sat_add:
  fixes a b :: "'a::len word"
  shows "unat (sat_add a b) = min (unat a + unat b) (2 ^ LENGTH('a) - 1)"
proof (cases "unat a + unat b < 2 ^ LENGTH('a)")
  case True
  then show ?thesis by (simp add: sat_add_def unat_word_ariths)
qed (simp add: sat_add_def unat_minus_one_eq)

lemma unat_sat_mul:
  fixes a b :: "'a::len word"
  shows "unat (sat_mul a b) = min (unat a * unat b) (2 ^ LENGTH('a) - 1)"
proof (cases "unat a * unat b < 2 ^ LENGTH('a)")
  case True
  then show ?thesis by (simp add: sat_mul_def unat_word_ariths)
qed (simp add: sat_mul_def unat_minus_one_eq)

section \<open>Loops that rewrite a list while they accumulate\<close>

primrec map_accum :: "('s \<Rightarrow> 'a \<Rightarrow> 's \<times> 'b) \<Rightarrow> 's \<Rightarrow> 'a list \<Rightarrow> 's \<times> 'b list" where
  "map_accum f s [] = (s, [])"
| "map_accum f s (x # xs) =
     (let (s1, y) = f s x; (s2, ys) = map_accum f s1 xs in (s2, y # ys))"

lemma length_map_accum [simp]: "length (snd (map_accum f s xs)) = length xs"
  by (induction xs arbitrary: s) (auto simp: case_prod_beta)

text \<open>When the rewritten element does not depend on the accumulator, the list part is a map.\<close>

lemma map_accum_snd:
  assumes "\<And>s x. snd (f s x) = g x"
  shows "snd (map_accum f s xs) = map g xs"
proof (induction xs arbitrary: s)
  case (Cons x xs)
  obtain s1 y where f: "f s x = (s1, y)" by (cases "f s x")
  with assms[of s x] have "y = g x" by simp
  with f Cons[of s1] show ?case by (simp add: case_prod_beta)
qed simp

section \<open>Loops that stop at the first error\<close>

fun traverse :: "('a \<Rightarrow> 'e + 'b) \<Rightarrow> 'a list \<Rightarrow> 'e + 'b list" where
  "traverse f [] = Inr []"
| "traverse f (x # xs) =
     (case f x of Inl e \<Rightarrow> Inl e
      | Inr y \<Rightarrow> (case traverse f xs of Inl e \<Rightarrow> Inl e | Inr ys \<Rightarrow> Inr (y # ys)))"

lemma traverse_Inr: "traverse f xs = Inr ys \<Longrightarrow> list_all2 (\<lambda>x y. f x = Inr y) xs ys"
  by (induction xs arbitrary: ys) (auto split: sum.splits)

lemma traverse_set:
  assumes "traverse f xs = Inr ys"
  shows "y \<in> set ys \<longleftrightarrow> (\<exists>x \<in> set xs. f x = Inr y)" and "x \<in> set xs \<Longrightarrow> \<exists>y \<in> set ys. f x = Inr y"
  using traverse_Inr[OF assms] by (fastforce simp: list_all2_conv_all_nth in_set_conv_nth)+

section \<open>Interfaces\<close>

subsection \<open>Encoders with a decoder\<close>

locale codec =
  fixes valid :: "'a \<Rightarrow> bool" and enc :: "'a \<Rightarrow> 'b" and dec :: "'b \<Rightarrow> 'a option"
  assumes dec_enc: "valid x \<Longrightarrow> dec (enc x) = Some x"
begin

lemma enc_inj: "valid x \<Longrightarrow> valid y \<Longrightarrow> enc x = enc y \<Longrightarrow> x = y"
  using dec_enc by (metis option.inject)

lemma enc_eq_iff: "valid x \<Longrightarrow> valid y \<Longrightarrow> enc x = enc y \<longleftrightarrow> x = y"
  using enc_inj by blast

end

subsection \<open>Comparisons and the stable sort\<close>

text \<open>
  \<^verbatim>\<open>slice::sort_by\<close> and \<^verbatim>\<open>sort_by_key\<close> are stable. The comparison is given here by its
  non-strict order \<open>le a b\<close>, that is \<^verbatim>\<open>cmp(a, b) != Greater\<close>.
\<close>

primrec insort_by :: "('a \<Rightarrow> 'a \<Rightarrow> bool) \<Rightarrow> 'a \<Rightarrow> 'a list \<Rightarrow> 'a list" where
  "insort_by le x [] = [x]"
| "insort_by le x (y # ys) = (if le x y then x # y # ys else y # insort_by le x ys)"

definition sort_by :: "('a \<Rightarrow> 'a \<Rightarrow> bool) \<Rightarrow> 'a list \<Rightarrow> 'a list" where
  "sort_by le xs = foldr (insort_by le) xs []"

lemma mset_insort_by: "mset (insort_by le x ys) = add_mset x (mset ys)"
  by (induction ys) auto

lemma mset_sort_by [simp]: "mset (sort_by le xs) = mset xs"
  by (induction xs) (auto simp: sort_by_def mset_insort_by)

lemma set_insort_by [simp]: "set (insort_by le x ys) = insert x (set ys)"
  by (metis mset_insort_by set_mset_add_mset_insert set_mset_mset)

lemma set_sort_by [simp]: "set (sort_by le xs) = set xs"
  by (metis mset_sort_by set_mset_mset)

lemma length_sort_by [simp]: "length (sort_by le xs) = length xs"
  by (metis mset_sort_by size_mset)

lemma distinct_sort_by [simp]: "distinct (sort_by le xs) = distinct xs"
  using mset_eq_imp_distinct_iff[OF mset_sort_by] .

locale total_preorder =
  fixes le :: "'a \<Rightarrow> 'a \<Rightarrow> bool"
  assumes total: "le x y \<or> le y x"
    and trans_le: "le x y \<Longrightarrow> le y z \<Longrightarrow> le x z"
begin

lemma refl_le: "le x x"
  using total by blast

lemma sorted_insort_by: "sorted_wrt le ys \<Longrightarrow> sorted_wrt le (insort_by le x ys)"
proof (induction ys)
  case (Cons y ys)
  show ?case
  proof (cases "le x y")
    case True
    with Cons.prems show ?thesis using trans_le by auto
  next
    case False
    with total have "le y x" by blast
    with False Cons show ?thesis by auto
  qed
qed simp

lemma sorted_sort_by: "sorted_wrt le (sort_by le xs)"
  by (induction xs) (auto simp: sort_by_def sorted_insort_by)

text \<open>Stability: elements of one equivalence class keep their relative order.\<close>

lemma filter_insort_by:
  assumes "\<And>a b. P a \<Longrightarrow> P b \<Longrightarrow> le a b" and "sorted_wrt le ys"
  shows "filter P (insort_by le x ys) = (if P x then x # filter P ys else filter P ys)"
  using assms(2)
proof (induction ys)
  case (Cons y ys)
  show ?case
  proof (cases "le x y")
    case False
    then have "\<not> (P x \<and> P y)" using assms(1) by blast
    with False Cons show ?thesis by auto
  qed auto
qed simp

lemma stable_sort_by:
  assumes "\<And>a b. P a \<Longrightarrow> P b \<Longrightarrow> le a b"
  shows "filter P (sort_by le xs) = filter P xs"
proof (induction xs)
  case (Cons x xs)
  then show ?case
    using filter_insort_by[of P, OF assms sorted_sort_by[of xs], of x] by (simp add: sort_by_def)
qed (simp add: sort_by_def)

lemma sort_by_split:
  assumes "sort_by le xs = as @ bs" and "a \<in> set as" and "b \<in> set bs"
  shows "le a b"
  using sorted_sort_by[of xs] assms by (auto simp: sorted_wrt_append)

end

text \<open>Sorting by a key into a linear order.\<close>

definition sort_by_key :: "('a \<Rightarrow> 'k::linorder) \<Rightarrow> 'a list \<Rightarrow> 'a list" where
  "sort_by_key k xs = sort_by (\<lambda>a b. k a \<le> k b) xs"

lemma total_preorder_key: "total_preorder (\<lambda>a b. (k a :: 'k::linorder) \<le> k b)"
  by unfold_locales auto

lemma set_sort_by_key [simp]: "set (sort_by_key k xs) = set xs"
  by (simp add: sort_by_key_def)

lemma mset_sort_by_key [simp]: "mset (sort_by_key k xs) = mset xs"
  by (simp add: sort_by_key_def)

lemma length_sort_by_key [simp]: "length (sort_by_key k xs) = length xs"
  by (simp add: sort_by_key_def)

lemma distinct_sort_by_key [simp]: "distinct (sort_by_key k xs) = distinct xs"
  by (simp add: sort_by_key_def)

lemma sorted_sort_by_key: "sorted_wrt (\<lambda>a b. k a \<le> k b) (sort_by_key k xs)"
  unfolding sort_by_key_def by (rule total_preorder.sorted_sort_by[OF total_preorder_key])

lemma stable_sort_by_key:
  "filter (\<lambda>a. k a = v) (sort_by_key k xs) = filter (\<lambda>a. k a = v) xs"
  unfolding sort_by_key_def
  by (rule total_preorder.stable_sort_by[OF total_preorder_key]) simp

subsection \<open>Step relations with an invariant\<close>

inductive reach :: "('s \<Rightarrow> bool) \<Rightarrow> ('s \<Rightarrow> 's \<Rightarrow> bool) \<Rightarrow> 's \<Rightarrow> bool"
  for init :: "'s \<Rightarrow> bool" and step :: "'s \<Rightarrow> 's \<Rightarrow> bool" where
  reach_init: "init s \<Longrightarrow> reach init step s"
| reach_step: "reach init step s \<Longrightarrow> step s t \<Longrightarrow> reach init step t"

locale inv_system =
  fixes init :: "'s \<Rightarrow> bool" and step :: "'s \<Rightarrow> 's \<Rightarrow> bool" and inv :: "'s \<Rightarrow> bool"
  assumes init_inv: "init s \<Longrightarrow> inv s"
    and step_inv: "inv s \<Longrightarrow> step s t \<Longrightarrow> inv t"
begin

lemma reach_inv: "reach init step s \<Longrightarrow> inv s"
  by (induction rule: reach.induct) (auto intro: init_inv step_inv)

end

end
