(* ===== verification/Path_Encoding.thy ===== *)
theory Path_Encoding
  imports Prelude
begin

text \<open>
  Model of \<^verbatim>\<open>src/path_encoding.rs\<close>: percent-encoding of path components, their
  sanitisation, and the two-tier validation of disk paths read from a manifest.

  The encoder walks Unicode scalar values, so its strings are lists of code points
  (\<open>ustring\<close>). Rust's \<^verbatim>\<open>char::is_alphanumeric\<close> is exact on ASCII; on the other code points
  it is the Unicode table \<open>uni\<close>, a parameter of the definitions. File-system paths are byte
  strings; an absolute \<^verbatim>\<open>Path\<close> is the list of its components, and
  \<^verbatim>\<open>std::fs::canonicalize\<close> is the parameter \<open>canonicalize\<close>.
\<close>

type_synonym ustring = "nat list"

section \<open>Definitions\<close>

definition ascii_alnum :: "nat \<Rightarrow> bool" where
  "ascii_alnum c \<longleftrightarrow> (48 \<le> c \<and> c \<le> 57) \<or> (65 \<le> c \<and> c \<le> 90) \<or> (97 \<le> c \<and> c \<le> 122)"

definition is_alphanumeric :: "(nat \<Rightarrow> bool) \<Rightarrow> nat \<Rightarrow> bool" where
  "is_alphanumeric uni c = (if c < 128 then ascii_alnum c else uni c)"

definition utf8 :: "nat \<Rightarrow> nat list" where
  "utf8 c =
     (if c < 128 then [c]
      else if c < 2048 then [192 + c div 64, 128 + c mod 64]
      else if c < 65536 then [224 + c div 4096, 128 + c div 64 mod 64, 128 + c mod 64]
      else [240 + c div 262144, 128 + c div 4096 mod 64, 128 + c div 64 mod 64, 128 + c mod 64])"

definition hex_digit :: "nat \<Rightarrow> nat" where
  "hex_digit n = (if n < 10 then 48 + n else 55 + n)"

definition percent_byte :: "nat \<Rightarrow> ustring" where
  "percent_byte b = [37, hex_digit (b div 16), hex_digit (b mod 16)]"

definition path_safe :: "(nat \<Rightarrow> bool) \<Rightarrow> nat \<Rightarrow> bool" where
  "path_safe uni c \<longleftrightarrow> is_alphanumeric uni c \<or> c = 45 \<or> c = 95 \<or> c = 46"

primrec encode_path_component :: "(nat \<Rightarrow> bool) \<Rightarrow> ustring \<Rightarrow> ustring" where
  "encode_path_component uni [] = []"
| "encode_path_component uni (c # cs) =
     (if path_safe uni c then [c] else concat (map percent_byte (utf8 c)))
     @ encode_path_component uni cs"

definition sanitize_path_component :: "(nat \<Rightarrow> bool) \<Rightarrow> ustring \<Rightarrow> ustring" where
  "sanitize_path_component uni s =
     (if s = [] \<or> s = [46] \<or> s = [46, 46] then []
      else encode_path_component uni (dropWhile (\<lambda>c. c = 47) s))"

definition path_components :: "string \<Rightarrow> string list" where
  "path_components s = filter (\<lambda>c. c \<noteq> [] \<and> c \<noteq> ''.'') (split_on CHR ''/'' s)"

definition FORBIDDEN_PREFIXES :: "string list" where
  "FORBIDDEN_PREFIXES =
     [''/etc'', ''/root'', ''/sys'', ''/proc'', ''/dev'', ''/boot'', ''/bin'', ''/sbin'',
      ''/usr'', ''/lib'', ''/lib64'', ''/run'']"

definition check_forbidden ::
    "(string list \<Rightarrow> string list option) \<Rightarrow> string list \<Rightarrow> bool" where
  "check_forbidden canonicalize path =
     list_ex (\<lambda>pre. let prefix_path = path_components pre in
        path = prefix_path \<or> prefix prefix_path path \<or>
        (case canonicalize prefix_path of
           Some canonical_prefix \<Rightarrow> path = canonical_prefix \<or> prefix canonical_prefix path
         | None \<Rightarrow> False)) FORBIDDEN_PREFIXES"

definition validate_disk_path :: "(string list \<Rightarrow> string list option) \<Rightarrow> string \<Rightarrow> bool" where
  "validate_disk_path canonicalize path =
     (if \<not> starts_with path ''/'' then False
      else let normalized = trim_end_char CHR ''/'' path in
        if normalized = [] then False
        else if list_ex (\<lambda>component. component = ''..'') (split_on CHR ''/'' normalized) then False
        else let p = path_components normalized in
          if check_forbidden canonicalize p then False
          else case canonicalize p of
            Some canonical \<Rightarrow> \<not> check_forbidden canonicalize canonical
          | None \<Rightarrow> True)"

section \<open>The encoding can be undone\<close>

text \<open>A reference decoder: percent-decode to bytes, then decode the bytes as UTF-8.\<close>

definition hex_val :: "nat \<Rightarrow> nat option" where
  "hex_val h = (if 48 \<le> h \<and> h \<le> 57 then Some (h - 48)
                else if 65 \<le> h \<and> h \<le> 70 then Some (h - 55) else None)"

fun percent_decode :: "ustring \<Rightarrow> nat list option" where
  "percent_decode [] = Some []"
| "percent_decode (c # cs) =
     (if c = 37 then
        (case cs of
           h # l # rest \<Rightarrow>
             (case (hex_val h, hex_val l) of
                (Some a, Some b) \<Rightarrow> map_option ((#) (16 * a + b)) (percent_decode rest)
              | _ \<Rightarrow> None)
         | _ \<Rightarrow> None)
      else map_option ((@) (utf8 c)) (percent_decode cs))"

fun utf8_decode :: "nat list \<Rightarrow> ustring option" where
  "utf8_decode [] = Some []"
| "utf8_decode (b # bs) =
     (if b < 128 then map_option ((#) b) (utf8_decode bs)
      else if b < 224 then
        (case bs of b1 # r \<Rightarrow> map_option ((#) ((b - 192) * 64 + (b1 - 128))) (utf8_decode r)
         | _ \<Rightarrow> None)
      else if b < 240 then
        (case bs of b1 # b2 # r \<Rightarrow>
           map_option ((#) ((b - 224) * 4096 + (b1 - 128) * 64 + (b2 - 128))) (utf8_decode r)
         | _ \<Rightarrow> None)
      else
        (case bs of b1 # b2 # b3 # r \<Rightarrow>
           map_option ((#) ((b - 240) * 262144 + (b1 - 128) * 4096 + (b2 - 128) * 64 + (b3 - 128)))
             (utf8_decode r)
         | _ \<Rightarrow> None))"

definition decode_path_component :: "ustring \<Rightarrow> ustring option" where
  "decode_path_component t = Option.bind (percent_decode t) utf8_decode"

definition scalars :: "ustring \<Rightarrow> bool" where
  "scalars s \<longleftrightarrow> list_all (\<lambda>c. c \<le> 1114111) s"

lemma hex_val_digit: "n < 16 \<Longrightarrow> hex_val (hex_digit n) = Some n"
  by (simp add: hex_val_def hex_digit_def)

lemma percent_decode_byte:
  "b < 256 \<Longrightarrow> percent_decode (percent_byte b @ t) = map_option ((#) b) (percent_decode t)"
  by (simp add: percent_byte_def hex_val_digit)

lemma utf8_bytes: "c \<le> 1114111 \<Longrightarrow> b \<in> set (utf8 c) \<Longrightarrow> b < 256"
  by (auto simp: utf8_def split: if_splits)

lemma percent_decode_bytes:
  "list_all (\<lambda>b. b < 256) bs \<Longrightarrow>
   percent_decode (concat (map percent_byte bs) @ t) = map_option ((@) bs) (percent_decode t)"
proof (induction bs)
  case Nil
  show ?case by (cases "percent_decode t") auto
next
  case (Cons b bs)
  then show ?case by (cases "percent_decode t") (auto simp: percent_decode_byte)
qed

lemma path_safe_not_percent: "path_safe uni c \<Longrightarrow> c \<noteq> 37"
  by (auto simp: path_safe_def is_alphanumeric_def ascii_alnum_def)

lemma percent_decode_encode:
  "scalars s \<Longrightarrow> percent_decode (encode_path_component uni s) = Some (concat (map utf8 s))"
proof (induction s)
  case (Cons c cs)
  then have c: "c \<le> 1114111" and "scalars cs" by (simp_all add: scalars_def)
  with Cons have ih: "percent_decode (encode_path_component uni cs) = Some (concat (map utf8 cs))"
    by simp
  show ?case
  proof (cases "path_safe uni c")
    case True
    then show ?thesis using ih path_safe_not_percent by simp
  next
    case False
    have "list_all (\<lambda>b. b < 256) (utf8 c)" using utf8_bytes[OF c] by (simp add: list_all_iff)
    with False ih show ?thesis by (simp add: percent_decode_bytes)
  qed
qed simp

lemma base64_digits:
  fixes c :: nat
  shows "c div 4096 * 4096 + (c div 64 mod 64) * 64 + c mod 64 = c"
    and "c div 262144 * 262144 + (c div 4096 mod 64) * 4096 + (c div 64 mod 64) * 64 + c mod 64 = c"
proof -
  have a: "c div 4096 = c div 64 div 64" and b: "c div 262144 = c div 4096 div 64"
    by (simp_all add: div_mult2_eq[symmetric])
  have 1: "c div 64 * 64 + c mod 64 = c" "c div 64 div 64 * 64 + c div 64 mod 64 = c div 64"
    "c div 4096 div 64 * 64 + c div 4096 mod 64 = c div 4096"
    by (rule div_mult_mod_eq)+
  show "c div 4096 * 4096 + (c div 64 mod 64) * 64 + c mod 64 = c"
    using 1 a by linarith
  then show "c div 262144 * 262144 + (c div 4096 mod 64) * 4096 + (c div 64 mod 64) * 64 + c mod 64 = c"
    using 1 b by linarith
qed

lemma utf8_decode_char:
  assumes "c \<le> 1114111"
  shows "utf8_decode (utf8 c @ bs) = map_option ((#) c) (utf8_decode bs)"
proof -
  consider "c < 128" | "128 \<le> c" "c < 2048" | "2048 \<le> c" "c < 65536" | "65536 \<le> c"
    by linarith
  then show ?thesis
  proof cases
    case 1
    then show ?thesis by (simp add: utf8_def)
  next
    case 2
    moreover from 2 have "c div 64 < 32" "2 \<le> c div 64" by auto
    ultimately show ?thesis by (simp add: utf8_def)
  next
    case 3
    moreover from 3 have "c div 4096 < 16" by auto
    ultimately show ?thesis by (simp add: utf8_def base64_digits)
  next
    case 4
    then show ?thesis by (simp add: utf8_def base64_digits)
  qed
qed

lemma utf8_decode_encode: "scalars s \<Longrightarrow> utf8_decode (concat (map utf8 s)) = Some s"
  by (induction s) (auto simp: scalars_def utf8_decode_char)

interpretation path_codec: codec scalars "encode_path_component uni" decode_path_component
  by unfold_locales (simp add: decode_path_component_def percent_decode_encode utf8_decode_encode)

section \<open>No traversal\<close>

lemma percent_byte_chars: "b < 256 \<Longrightarrow> c \<in> set (percent_byte b) \<Longrightarrow> c = 37 \<or> ascii_alnum c"
  by (auto simp: percent_byte_def hex_digit_def ascii_alnum_def split: if_splits)

lemma encode_chars:
  assumes "scalars s" and "c \<in> set (encode_path_component uni s)"
  shows "path_safe uni c \<or> c = 37"
  using assms
proof (induction s)
  case (Cons d ds)
  have alnum: "path_safe uni x" if "ascii_alnum x" for x
    using that by (auto simp: path_safe_def is_alphanumeric_def ascii_alnum_def)
  from Cons show ?case
    using utf8_bytes[of d] percent_byte_chars alnum
    by (auto simp: scalars_def split: if_splits)
qed simp

lemma utf8_not_Nil: "utf8 c \<noteq> []"
  by (simp add: utf8_def)

text \<open>The encoder's result is free of the escape character only when it changed nothing.\<close>

lemma encode_no_percent:
  "encode_path_component uni s = t \<Longrightarrow> 37 \<notin> set t \<Longrightarrow> s = t"
proof (induction s arbitrary: t)
  case (Cons c cs)
  show ?case
  proof (cases "path_safe uni c")
    case True
    with Cons show ?thesis by auto
  next
    case False
    with utf8_not_Nil[of c] have "37 \<in> set (concat (map percent_byte (utf8 c)))"
      by (cases "utf8 c") (auto simp: percent_byte_def)
    with False Cons.prems show ?thesis by auto
  qed
qed simp

lemma encode_dots: "encode_path_component uni s = [46, 46] \<longleftrightarrow> s = [46, 46]"
  "encode_path_component uni s = [46] \<longleftrightarrow> s = [46]"
  using encode_no_percent[of uni s] by (auto simp: path_safe_def)

lemma dropWhile_eq_replicate:
  "t \<noteq> [] \<Longrightarrow> hd t \<noteq> x \<Longrightarrow> dropWhile (\<lambda>c. c = x) s = t \<longleftrightarrow> (\<exists>n. s = replicate n x @ t)"
proof
  assume "dropWhile (\<lambda>c. c = x) s = t"
  then have s: "s = takeWhile (\<lambda>c. c = x) s @ t"
    using takeWhile_dropWhile_id[of "\<lambda>c. c = x" s] by simp
  have "\<forall>y\<in>set (takeWhile (\<lambda>c. c = x) s). y = x"
    by (auto dest: set_takeWhileD)
  from replicate_length_same[OF this] s show "\<exists>n. s = replicate n x @ t" by metis
next
  assume t: "t \<noteq> []" "hd t \<noteq> x" and "\<exists>n. s = replicate n x @ t"
  then obtain n where "s = replicate n x @ t" by blast
  moreover have "dropWhile (\<lambda>c. c = x) (replicate n x @ t) = dropWhile (\<lambda>c. c = x) t"
    by (induction n) auto
  ultimately have "dropWhile (\<lambda>c. c = x) s = dropWhile (\<lambda>c. c = x) t" by simp
  with t show "dropWhile (\<lambda>c. c = x) s = t" by (cases t) auto
qed

text \<open>The encoder on a \<^verbatim>\<open>&str\<close>, which is valid UTF-8: on the bytes of a key.\<close>

definition encode_component :: "(nat \<Rightarrow> bool) \<Rightarrow> string \<Rightarrow> string" where
  "encode_component uni s =
     (case utf8_decode (map of_char s) of
        Some u \<Rightarrow> map char_of (concat (map utf8 (encode_path_component uni u)))
      | None \<Rightarrow> [])"

section \<open>Properties\<close>

text \<open>Distinct database or table names never share an encoded path component: on Unicode
  strings the percent-encoding is injective, whatever the Unicode tables say of the non-ASCII
  letters, so no two tables' data directories or object keys collide.\<close>

theorem encode_path_component_injective:
  assumes "scalars s" and "scalars t"
  shows "encode_path_component uni s = encode_path_component uni t \<longleftrightarrow> s = t"
  using path_codec.enc_eq_iff assms .

theorem encode_path_component_injective_witness:
  "scalars [97, 32, 233] \<and> scalars [97, 37, 50, 48, 233]
   \<and> encode_path_component (\<lambda>c. c = 233) [97, 32, 233] = [97, 37, 50, 48, 233]
   \<and> encode_path_component (\<lambda>c. c = 233) [97, 32, 233]
      \<noteq> encode_path_component (\<lambda>c. c = 233) [97, 37, 50, 48, 233]"
proof -
  have v: "scalars [97, 32, 233]" "scalars [97, 37, 50, 48, 233]" by (simp_all add: scalars_def)
  have e: "encode_path_component (\<lambda>c. c = 233) [97, 32, 233] = [97, 37, 50, 48, 233]"
    by (simp add: path_safe_def is_alphanumeric_def ascii_alnum_def utf8_def percent_byte_def
        hex_digit_def)
  show ?thesis
    using encode_path_component_injective[OF v, of "\<lambda>c. c = 233"] v e
    by (simp del: encode_path_component.simps)
qed

text \<open>Sanitisation and traversal: the sanitised component never contains a slash, and the
  only inputs whose sanitised form is the parent directory are those that spell it behind
  leading slashes. The check for dot-dot precedes the stripping of the slashes, so these inputs
  pass.\<close>

theorem sanitize_path_component_traversal:
  assumes "scalars s"
  shows "47 \<notin> set (sanitize_path_component uni s)
    \<and> (sanitize_path_component uni s = [46, 46] \<longleftrightarrow> (\<exists>n. s = replicate (Suc n) 47 @ [46, 46]))"
proof -
  let ?t = "dropWhile (\<lambda>c. c = 47) s"
  have "scalars ?t"
    using assms by (auto simp: scalars_def list_all_iff dest: set_dropWhileD)
  then have "47 \<notin> set (encode_path_component uni ?t)"
    using encode_chars[of ?t 47 uni]
    by (auto simp: path_safe_def is_alphanumeric_def ascii_alnum_def)
  then have slash: "47 \<notin> set (sanitize_path_component uni s)"
    by (simp add: sanitize_path_component_def)
  have "?t = [46, 46] \<longleftrightarrow> (\<exists>n. s = replicate n 47 @ [46, 46])"
    by (rule dropWhile_eq_replicate) auto
  also have "\<dots> \<longleftrightarrow> s = [46, 46] \<or> (\<exists>n. s = replicate (Suc n) 47 @ [46, 46])"
    by (metis append_Nil not0_implies_Suc replicate_0)
  finally show ?thesis
    using slash by (auto simp: sanitize_path_component_def encode_dots)
qed

theorem sanitize_path_component_traversal_witness:
  "scalars [47, 46, 46] \<and> 47 \<notin> set (sanitize_path_component (\<lambda>_. False) [47, 46, 46])
   \<and> sanitize_path_component (\<lambda>_. False) [47, 46, 46] = [46, 46]"
proof -
  have v: "scalars [47, 46, 46]" by (simp add: scalars_def)
  have "\<exists>n. [47, 46, 46] = replicate (Suc n) (47::nat) @ [46, 46]"
    by (rule exI[of _ 0]) simp
  then show ?thesis
    using sanitize_path_component_traversal[OF v, of "\<lambda>_. False"] v by blast
qed

text \<open>An accepted disk path is absolute, is not the root, has no parent-directory component,
  and neither it nor the path it resolves to lies in a system directory, whether the system
  directory is taken literally or resolved.\<close>

theorem validate_disk_path_safe:
  assumes "validate_disk_path canonicalize path"
    and "pre \<in> set FORBIDDEN_PREFIXES"
    and "p = path_components (trim_end_char CHR ''/'' path)"
    and "real = p \<or> canonicalize p = Some real"
    and "forbidden = path_components pre \<or> canonicalize (path_components pre) = Some forbidden"
  shows "starts_with path ''/'' \<and> trim_end_char CHR ''/'' path \<noteq> []
    \<and> ''..'' \<notin> set p \<and> \<not> prefix forbidden real"
proof -
  have ok: "starts_with path ''/''" "trim_end_char CHR ''/'' path \<noteq> []" "''..'' \<notin> set p"
    using assms(1,3)
    by (auto simp: validate_disk_path_def Let_def list_ex_iff path_components_def split: if_splits)
  have "\<not> check_forbidden canonicalize real"
    using assms(1,3,4)
    by (auto simp: validate_disk_path_def Let_def split: if_splits option.splits)
  then have "\<not> prefix forbidden real"
    using assms(2,5) by (force simp: check_forbidden_def list_ex_iff Let_def)
  with ok show ?thesis by simp
qed

theorem validate_disk_path_safe_witness:
  "validate_disk_path (\<lambda>p. if p = [''data'', ''evil''] then Some [''etc''] else None) ''/mnt/disk1/''
   \<and> \<not> validate_disk_path (\<lambda>p. if p = [''data'', ''evil''] then Some [''etc''] else None) ''/data/evil''
   \<and> \<not> prefix (path_components ''/etc'') (path_components (trim_end_char CHR ''/'' ''/mnt/disk1/''))"
proof -
  let ?c = "\<lambda>p. if p = [''data'', ''evil''] then Some [''etc''] else None"
  have v: "validate_disk_path ?c ''/mnt/disk1/''" by code_simp
  have n: "\<not> validate_disk_path ?c ''/data/evil''" by code_simp
  have e: "''/etc'' \<in> set FORBIDDEN_PREFIXES" by (simp add: FORBIDDEN_PREFIXES_def)
  from validate_disk_path_safe[OF v e refl disjI1[OF refl] disjI1[OF refl]] v n
  show ?thesis by blast
qed

end
