(* ===== verification/Table_Filter.thy ===== *)
theory Table_Filter
  imports Prelude
begin

text \<open>
  Model of \<^verbatim>\<open>src/table_filter.rs\<close>: the comma-separated table patterns, the skip lists and
  the system databases. The \<^verbatim>\<open>glob\<close> crate is not part of the repository, so
  \<^verbatim>\<open>Pattern::new\<close> and \<^verbatim>\<open>Pattern::matches\<close> are the parameters \<open>glob_new\<close> and
  \<open>glob_matches\<close> of the definitions.
\<close>

section \<open>Definitions\<close>

definition SYSTEM_DATABASES :: "string list" where
  "SYSTEM_DATABASES = [''system'', ''INFORMATION_SCHEMA'', ''information_schema'']"

record 'p TableFilter =
  patterns :: "'p list"

definition full_name :: "string \<Rightarrow> string \<Rightarrow> string" where
  "full_name db table = db @ ''.'' @ table"

definition TableFilter_new :: "(string \<Rightarrow> 'p option) \<Rightarrow> string \<Rightarrow> 'p TableFilter" where
  "TableFilter_new glob_new pattern =
     \<lparr>patterns = List.map_filter glob_new
        (filter (\<lambda>p. p \<noteq> []) (map trim (split_on CHR '','' pattern)))\<rparr>"

definition is_system_database :: "string \<Rightarrow> bool" where
  "is_system_database db = List.member SYSTEM_DATABASES db"

definition matches_including_system ::
    "('p \<Rightarrow> string \<Rightarrow> bool) \<Rightarrow> 'p TableFilter \<Rightarrow> string \<Rightarrow> string \<Rightarrow> bool" where
  "matches_including_system glob_matches f db table =
     list_ex (\<lambda>p. glob_matches p (full_name db table)) (patterns f)"

definition matches ::
    "('p \<Rightarrow> string \<Rightarrow> bool) \<Rightarrow> 'p TableFilter \<Rightarrow> string \<Rightarrow> string \<Rightarrow> bool" where
  "matches glob_matches f db table =
     (if is_system_database db then False
      else list_ex (\<lambda>p. glob_matches p (full_name db table)) (patterns f))"

fun is_excluded ::
    "(string \<Rightarrow> 'p option) \<Rightarrow> ('p \<Rightarrow> string \<Rightarrow> bool) \<Rightarrow> string \<Rightarrow> string \<Rightarrow> string list \<Rightarrow> bool" where
  "is_excluded glob_new glob_matches db table [] = False"
| "is_excluded glob_new glob_matches db table (pattern_str # skip_patterns) =
     (case glob_new pattern_str of
        Some pattern \<Rightarrow>
          if glob_matches pattern (full_name db table) then True
          else is_excluded glob_new glob_matches db table skip_patterns
      | None \<Rightarrow> is_excluded glob_new glob_matches db table skip_patterns)"

definition is_engine_excluded :: "string \<Rightarrow> string list \<Rightarrow> bool" where
  "is_engine_excluded engine skip_engines = list_ex (\<lambda>e. e = engine) skip_engines"

definition is_disk_excluded ::
    "string \<Rightarrow> string \<Rightarrow> string list \<Rightarrow> string list \<Rightarrow> bool" where
  "is_disk_excluded disk_name disk_type skip_disks skip_disk_types =
     (if list_ex (\<lambda>d. d = disk_name) skip_disks then True
      else if list_ex (\<lambda>t. t = disk_type) skip_disk_types then True
      else False)"

section \<open>Lemmas\<close>

text \<open>The patterns of a filter string: the non-empty trimmed fields that compile.\<close>

definition filter_fields :: "string \<Rightarrow> string set" where
  "filter_fields pattern = {p. p \<noteq> [] \<and> (\<exists>f \<in> set (split_on CHR '','' pattern). p = trim f)}"

lemma set_patterns:
  "set (patterns (TableFilter_new glob_new pattern))
     = {q. \<exists>p \<in> filter_fields pattern. glob_new p = Some q}"
  by (auto simp: TableFilter_new_def filter_fields_def List.map_filter_def) force+

lemma is_excluded_iff:
  "is_excluded glob_new glob_matches db table skip \<longleftrightarrow>
     (\<exists>s \<in> set skip. \<exists>p. glob_new s = Some p \<and> glob_matches p (full_name db table))"
  by (induction skip) (auto split: option.splits)

section \<open>Properties\<close>

text \<open>Table selection: a filter built from a comma-separated pattern list accepts a table
  exactly when its database is not a system database and some non-empty trimmed field that
  compiles as a glob matches \<^verbatim>\<open>db.table\<close>; without the system-database guard the remaining
  condition alone decides. Fields that do not compile are ignored.\<close>

theorem table_filter_matches_iff:
  "(matches glob_matches (TableFilter_new glob_new pattern) db table \<longleftrightarrow>
      db \<notin> {''system'', ''INFORMATION_SCHEMA'', ''information_schema''} \<and>
      (\<exists>p \<in> filter_fields pattern. \<exists>q. glob_new p = Some q \<and> glob_matches q (db @ ''.'' @ table)))
   \<and> (matches_including_system glob_matches (TableFilter_new glob_new pattern) db table \<longleftrightarrow>
      (\<exists>p \<in> filter_fields pattern. \<exists>q. glob_new p = Some q \<and> glob_matches q (db @ ''.'' @ table)))"
  by (auto simp: matches_def matches_including_system_def list_ex_iff set_patterns
      full_name_def is_system_database_def SYSTEM_DATABASES_def)

end
