(* ===== verification/Manifest.thy ===== *)
theory Manifest
  imports Prelude
begin

text \<open>
  Model of \<^verbatim>\<open>src/manifest.rs\<close>: the manifest of a backup as records, \<^verbatim>\<open>BTreeMap\<close>
  fields as key-ordered association lists, \<^verbatim>\<open>u64\<close> fields as 64-bit words and the creation
  time as nanoseconds since the epoch. The JSON encoding (serde) is not modelled. The theory
  also holds the part enumerations every client of the manifest iterates over.
\<close>

section \<open>Data\<close>

record S3ObjectInfo =
  so_path :: string
  so_size :: u64
  so_backup_key :: string

record PartInfo =
  pi_name :: string
  pi_size :: u64
  pi_backup_key :: string
  pi_source :: string
  pi_checksum_crc64 :: u64
  pi_s3_objects :: "S3ObjectInfo list option"
  pi_backup_size :: u64

record MutationInfo =
  mi_mutation_id :: string
  mi_command :: string
  mi_parts_to_do :: "string list"

record TableManifest =
  tm_ddl :: string
  tm_uuid :: "string option"
  tm_engine :: string
  tm_total_bytes :: u64
  tm_parts :: "PartInfo list btree_map"
  tm_pending_mutations :: "MutationInfo list"
  tm_metadata_only :: bool
  tm_dependencies :: "string list"

record DatabaseInfo =
  di_name :: string
  di_ddl :: string

record RbacInfo =
  ri_path :: string

record BackupManifest =
  bm_manifest_version :: u32
  bm_name :: string
  bm_timestamp :: int
  bm_clickhouse_version :: string
  bm_chbackup_version :: string
  bm_data_format :: string
  bm_compressed_size :: u64
  bm_metadata_size :: u64
  bm_disks :: "string btree_map"
  bm_disk_types :: "string btree_map"
  bm_disk_remote_paths :: "string btree_map"
  bm_tables :: "TableManifest btree_map"
  bm_databases :: "DatabaseInfo list"
  bm_functions :: "string list"
  bm_named_collections :: "string list"
  bm_rbac :: "RbacInfo option"
  bm_rbac_size :: u64
  bm_config_size :: u64
  bm_stripped_projections :: "string list"

definition PartInfo_new :: "string \<Rightarrow> u64 \<Rightarrow> u64 \<Rightarrow> PartInfo" where
  "PartInfo_new name sz crc64 =
     \<lparr>pi_name = name, pi_size = sz, pi_backup_key = '''', pi_source = ''uploaded'',
      pi_checksum_crc64 = crc64, pi_s3_objects = None, pi_backup_size = 0\<rparr>"

definition with_s3_objects :: "PartInfo \<Rightarrow> S3ObjectInfo list \<Rightarrow> PartInfo" where
  "with_s3_objects p objects = p\<lparr>pi_s3_objects := Some objects\<rparr>"

section \<open>Iterating over the parts\<close>

text \<open>Every loop over \<^verbatim>\<open>tables / parts / part\<close>: the parts with their table key and disk.\<close>

definition table_parts :: "string \<Rightarrow> TableManifest \<Rightarrow> (string \<times> string \<times> PartInfo) list" where
  "table_parts key tm =
     concat (map (\<lambda>(disk, ps). map (\<lambda>p. (key, disk, p)) ps) (tm_parts tm))"

definition manifest_parts :: "BackupManifest \<Rightarrow> (string \<times> string \<times> PartInfo) list" where
  "manifest_parts m = concat (map (\<lambda>(key, tm). table_parts key tm) (bm_tables m))"

lemma in_table_parts:
  "(k, disk, p) \<in> set (table_parts key tm) \<longleftrightarrow>
     k = key \<and> (\<exists>ps. (disk, ps) \<in> set (tm_parts tm) \<and> p \<in> set ps)"
  by (auto simp: table_parts_def)

lemma in_manifest_parts:
  "(key, disk, p) \<in> set (manifest_parts m) \<longleftrightarrow>
     (\<exists>tm ps. (key, tm) \<in> set (bm_tables m) \<and> (disk, ps) \<in> set (tm_parts tm) \<and> p \<in> set ps)"
proof -
  have "(key, disk, p) \<in> set (manifest_parts m) \<longleftrightarrow>
      (\<exists>(k, tm) \<in> set (bm_tables m). (key, disk, p) \<in> set (table_parts k tm))"
    by (auto simp: manifest_parts_def)
  then show ?thesis by (auto simp: in_table_parts)
qed

text \<open>Well-formedness: the iterator of a \<^verbatim>\<open>BTreeMap\<close> yields strictly increasing keys.\<close>

definition btree_ok :: "'v btree_map \<Rightarrow> bool" where
  "btree_ok m \<longleftrightarrow> sorted_wrt (<) (map fst m)"

definition manifest_ok :: "BackupManifest \<Rightarrow> bool" where
  "manifest_ok m \<longleftrightarrow> btree_ok (bm_tables m) \<and>
     list_all (\<lambda>(_, tm). btree_ok (tm_parts tm)) (bm_tables m)"

lemma btree_ok_distinct: "btree_ok m \<Longrightarrow> distinct (map fst m)"
  unfolding btree_ok_def by (simp add: strict_sorted_iff)

lemma btree_ok_map: "map fst m' = map fst m \<Longrightarrow> btree_ok m' = btree_ok m"
  by (simp add: btree_ok_def)

text \<open>\<^verbatim>\<open>BTreeMap::insert\<close>.\<close>

fun btree_insert :: "string \<Rightarrow> 'v \<Rightarrow> 'v btree_map \<Rightarrow> 'v btree_map" where
  "btree_insert k v [] = [(k, v)]"
| "btree_insert k v ((k', v') # m) =
     (if k < k' then (k, v) # (k', v') # m
      else if k = k' then (k, v) # m
      else (k', v') # btree_insert k v m)"

lemma btree_insert_keys: "fst ` set (btree_insert k v m) = insert k (fst ` set m)"
  by (induction k v m rule: btree_insert.induct) auto

lemma btree_insert_ok: "btree_ok m \<Longrightarrow> btree_ok (btree_insert k v m)"
proof (induction k v m rule: btree_insert.induct)
  case (2 k v k' v' m)
  show ?case
  proof (cases "k < k' \<or> k = k'")
    case True
    with "2.prems" show ?thesis by (auto simp: btree_ok_def)
  next
    case False
    then have "k' < k" by auto
    moreover have "btree_ok (btree_insert k v m)" using 2 False by (simp add: btree_ok_def)
    moreover have "\<forall>x \<in> fst ` set (btree_insert k v m). k' < x"
      using "2.prems" \<open>k' < k\<close> by (auto simp: btree_insert_keys btree_ok_def)
    ultimately show ?thesis using False by (auto simp: btree_ok_def)
  qed
qed (simp add: btree_ok_def)

lemma btree_insert_in:
  "btree_ok m \<Longrightarrow> (k', v') \<in> set (btree_insert k v m) \<longleftrightarrow> (if k' = k then v' = v else (k', v') \<in> set m)"
proof (induction k v m rule: btree_insert.induct)
  case (2 k v k1 v1 m)
  have "k1 \<notin> fst ` set m" and "\<forall>x \<in> fst ` set m. k1 < x" and "btree_ok m"
    using "2.prems" by (auto simp: btree_ok_def)
  then show ?case using 2 by (force split: if_splits)
qed auto

text \<open>The value a part is carried from: \<^verbatim>\<open>source = "carried:<base>"\<close>.\<close>

definition carried_base :: "PartInfo \<Rightarrow> string option" where
  "carried_base p = strip_prefix ''carried:'' (pi_source p)"

text \<open>The object keys a part names: its own archive or metadata directory, and its S3 objects.\<close>

definition part_keys :: "PartInfo \<Rightarrow> string set" where
  "part_keys p =
     {k. k \<noteq> [] \<and> (k = pi_backup_key p \<or>
        (\<exists>objs. pi_s3_objects p = Some objs \<and> k \<in> so_backup_key ` set objs))}"

text \<open>What it means that a part, or a manifest, needs a stored key: it names the key, or names a
  directory (a key that ends in a slash) the key lies under.\<close>

definition part_needs :: "PartInfo \<Rightarrow> string \<Rightarrow> bool" where
  "part_needs p k \<longleftrightarrow> (\<exists>r \<in> part_keys p. k = r \<or> ends_with r ''/'' \<and> starts_with k r)"

definition manifest_needs :: "BackupManifest \<Rightarrow> string \<Rightarrow> bool" where
  "manifest_needs m k \<longleftrightarrow> (\<exists>(t, d, p) \<in> set (manifest_parts m). part_needs p k)"

text \<open>A manifest with no table, and one holding a single uploaded part, for examples.\<close>

definition blank_manifest :: "string \<Rightarrow> BackupManifest" where
  "blank_manifest name =
     \<lparr>bm_manifest_version = 1, bm_name = name, bm_timestamp = 0, bm_clickhouse_version = [],
      bm_chbackup_version = [], bm_data_format = ''lz4'', bm_compressed_size = 0,
      bm_metadata_size = 0, bm_disks = [], bm_disk_types = [], bm_disk_remote_paths = [],
      bm_tables = [], bm_databases = [], bm_functions = [], bm_named_collections = [],
      bm_rbac = None, bm_rbac_size = 0, bm_config_size = 0, bm_stripped_projections = []\<rparr>"

definition table_with_part :: "PartInfo \<Rightarrow> TableManifest" where
  "table_with_part p =
     \<lparr>tm_ddl = [], tm_uuid = None, tm_engine = ''MergeTree'', tm_total_bytes = pi_size p,
      tm_parts = [(''default'', [p])], tm_pending_mutations = [], tm_metadata_only = False,
      tm_dependencies = []\<rparr>"

definition manifest_with_part :: "string \<Rightarrow> PartInfo \<Rightarrow> BackupManifest" where
  "manifest_with_part name p = (blank_manifest name)\<lparr>bm_tables := [(''db.t'', table_with_part p)]\<rparr>"

lemma manifest_parts_with_part: "manifest_parts (manifest_with_part name p) = [(''db.t'', ''default'', p)]"
  by (simp add: manifest_parts_def manifest_with_part_def table_parts_def table_with_part_def)

end
