(* ===== verification/Diff.thy ===== *)
theory Diff
  imports Manifest
begin

text \<open>
  Model of \<^verbatim>\<open>src/backup/diff.rs\<close>: marking the parts of a new backup that an earlier backup
  already holds. The hash map of the base's parts is a function updated part by part in
  iteration order; the nested loops over tables, disks and parts thread the three counters.
\<close>

section \<open>Definitions\<close>

record DiffResult =
  dr_carried :: nat
  dr_uploaded :: nat
  dr_crc_mismatches :: nat

type_synonym part_lookup = "string \<times> string \<times> string \<Rightarrow> PartInfo option"

definition base_lookup :: "BackupManifest \<Rightarrow> part_lookup" where
  "base_lookup base =
     fold (\<lambda>(table_key, disk_name, part) m. m((table_key, disk_name, pi_name part) \<mapsto> part))
       (manifest_parts base) Map.empty"

definition diff_part ::
    "string \<Rightarrow> part_lookup \<Rightarrow> string \<Rightarrow> string \<Rightarrow> DiffResult \<Rightarrow> PartInfo \<Rightarrow> DiffResult \<times> PartInfo" where
  "diff_part base_name lookup table_key disk_name r part =
     (case lookup (table_key, disk_name, pi_name part) of
        Some base_part \<Rightarrow>
          if pi_checksum_crc64 part = pi_checksum_crc64 base_part then
            (r\<lparr>dr_carried := dr_carried r + 1\<rparr>,
             part\<lparr>pi_source := ''carried:'' @ base_name,
                  pi_backup_key := pi_backup_key base_part,
                  pi_s3_objects := pi_s3_objects base_part\<rparr>)
          else
            (r\<lparr>dr_crc_mismatches := dr_crc_mismatches r + 1, dr_uploaded := dr_uploaded r + 1\<rparr>,
             part)
      | None \<Rightarrow> (r\<lparr>dr_uploaded := dr_uploaded r + 1\<rparr>, part))"

definition diff_disk ::
    "string \<Rightarrow> part_lookup \<Rightarrow> string \<Rightarrow> DiffResult \<Rightarrow> string \<times> PartInfo list
     \<Rightarrow> DiffResult \<times> (string \<times> PartInfo list)" where
  "diff_disk base_name lookup table_key r = (\<lambda>(disk_name, parts).
     let (r', parts') = map_accum (diff_part base_name lookup table_key disk_name) r parts
     in (r', (disk_name, parts')))"

definition diff_table ::
    "string \<Rightarrow> part_lookup \<Rightarrow> DiffResult \<Rightarrow> string \<times> TableManifest
     \<Rightarrow> DiffResult \<times> (string \<times> TableManifest)" where
  "diff_table base_name lookup r = (\<lambda>(table_key, table_manifest).
     let (r', disks) = map_accum (diff_disk base_name lookup table_key) r (tm_parts table_manifest)
     in (r', (table_key, table_manifest\<lparr>tm_parts := disks\<rparr>)))"

definition diff_parts :: "BackupManifest \<Rightarrow> BackupManifest \<Rightarrow> BackupManifest \<times> DiffResult" where
  "diff_parts current base =
     (let (r, tables) =
        map_accum (diff_table (bm_name base) (base_lookup base))
          \<lparr>dr_carried = 0, dr_uploaded = 0, dr_crc_mismatches = 0\<rparr> (bm_tables current)
      in (current\<lparr>bm_tables := tables\<rparr>, r))"

section \<open>Reference description\<close>

text \<open>The base part a part is compared with: the last one of that table, disk and name.\<close>

definition base_part :: "BackupManifest \<Rightarrow> string \<Rightarrow> string \<Rightarrow> string \<Rightarrow> PartInfo option" where
  "base_part base table_key disk_name name =
     map_option (snd \<circ> snd)
       (find (\<lambda>(k, d, p). (k, d, pi_name p) = (table_key, disk_name, name)) (rev (manifest_parts base)))"

definition carries :: "BackupManifest \<Rightarrow> string \<times> string \<times> PartInfo \<Rightarrow> bool" where
  "carries base = (\<lambda>(k, d, p).
     case base_part base k d (pi_name p) of
       Some bp \<Rightarrow> pi_checksum_crc64 p = pi_checksum_crc64 bp | None \<Rightarrow> False)"

definition carry_part :: "BackupManifest \<Rightarrow> string \<Rightarrow> string \<Rightarrow> PartInfo \<Rightarrow> PartInfo" where
  "carry_part base k d p =
     (case base_part base k d (pi_name p) of
        Some bp \<Rightarrow>
          if pi_checksum_crc64 p = pi_checksum_crc64 bp
          then p\<lparr>pi_source := ''carried:'' @ bm_name base,
                 pi_backup_key := pi_backup_key bp, pi_s3_objects := pi_s3_objects bp\<rparr>
          else p
      | None \<Rightarrow> p)"

lemma fold_upd_lookup:
  "fold (\<lambda>(k, d, p) m. m((k, d, pi_name p) \<mapsto> p)) xs m key =
     (case find (\<lambda>(k, d, p). (k, d, pi_name p) = key) (rev xs) of
        Some (_, _, p) \<Rightarrow> Some p | None \<Rightarrow> m key)"
  by (induction xs rule: rev_induct) (auto split: prod.splits)

lemma base_lookup_eq: "base_lookup base (k, d, n) = base_part base k d n"
  by (simp add: base_lookup_def base_part_def fold_upd_lookup split: option.splits)

lemma base_part_in:
  "base_part base k d n = Some bp \<Longrightarrow> (k, d, bp) \<in> set (manifest_parts base) \<and> pi_name bp = n"
  by (auto simp: base_part_def find_Some_iff) (metis nth_mem length_rev set_rev)

lemma diff_part_snd:
  "snd (diff_part (bm_name base) (base_lookup base) k d r p) = carry_part base k d p"
  by (simp add: diff_part_def carry_part_def base_lookup_eq split: option.splits)

section \<open>The loops\<close>

lemma fst_map_accum: "fst (map_accum f s xs) = foldl (\<lambda>s x. fst (f s x)) s xs"
  by (induction xs arbitrary: s) (auto simp: case_prod_beta)

definition count_step :: "BackupManifest \<Rightarrow> DiffResult \<Rightarrow> string \<times> string \<times> PartInfo \<Rightarrow> DiffResult" where
  "count_step base r = (\<lambda>(k, d, p). fst (diff_part (bm_name base) (base_lookup base) k d r p))"

lemma diff_disk_snd:
  "snd (diff_disk (bm_name base) (base_lookup base) k r x)
     = (fst x, map (carry_part base k (fst x)) (snd x))"
  using map_accum_snd[of "diff_part (bm_name base) (base_lookup base) k (fst x)", OF diff_part_snd]
  by (simp add: diff_disk_def case_prod_beta)

lemma diff_table_snd:
  "snd (diff_table (bm_name base) (base_lookup base) r x)
     = (fst x, (snd x)\<lparr>tm_parts := map (\<lambda>y. (fst y, map (carry_part base (fst x) (fst y)) (snd y)))
          (tm_parts (snd x))\<rparr>)"
  using map_accum_snd[of "diff_disk (bm_name base) (base_lookup base) (fst x)", OF diff_disk_snd]
  by (simp add: diff_table_def case_prod_beta)

lemma diff_parts_tables:
  "bm_tables (fst (diff_parts cur base)) =
     map (\<lambda>x. (fst x, (snd x)\<lparr>tm_parts := map (\<lambda>y. (fst y, map (carry_part base (fst x) (fst y)) (snd y)))
          (tm_parts (snd x))\<rparr>)) (bm_tables cur)"
  using map_accum_snd[of "diff_table (bm_name base) (base_lookup base)", OF diff_table_snd]
  by (simp add: diff_parts_def case_prod_beta)

lemma manifest_parts_diff:
  "manifest_parts (fst (diff_parts cur base)) =
     map (\<lambda>(k, d, p). (k, d, carry_part base k d p)) (manifest_parts cur)"
  by (simp add: manifest_parts_def diff_parts_tables table_parts_def map_concat o_def case_prod_beta)

text \<open>The counters: one step per part, in iteration order.\<close>

lemma diff_disk_fst:
  "fst (diff_disk (bm_name base) (base_lookup base) k r x)
     = foldl (count_step base) r (map (\<lambda>p. (k, fst x, p)) (snd x))"
  by (simp add: diff_disk_def case_prod_beta fst_map_accum foldl_map count_step_def)

lemma diff_table_fst:
  "fst (diff_table (bm_name base) (base_lookup base) r x)
     = foldl (count_step base) r (table_parts (fst x) (snd x))"
proof -
  have "foldl (\<lambda>s y. fst (diff_disk (bm_name base) (base_lookup base) (fst x) s y)) r xs =
      foldl (count_step base) r (concat (map (\<lambda>(d, ps). map (\<lambda>p. (fst x, d, p)) ps) xs))" for xs
    by (induction xs arbitrary: r) (auto simp: diff_disk_fst)
  then show ?thesis
    by (simp add: diff_table_def table_parts_def case_prod_beta fst_map_accum)
qed

lemma diff_parts_counts:
  "snd (diff_parts cur base) =
     foldl (count_step base) \<lparr>dr_carried = 0, dr_uploaded = 0, dr_crc_mismatches = 0\<rparr>
       (manifest_parts cur)"
proof -
  have "foldl (\<lambda>s y. fst (diff_table (bm_name base) (base_lookup base) s y)) r xs =
      foldl (count_step base) r (concat (map (\<lambda>(k, tm). table_parts k tm) xs))" for r xs
    by (induction xs arbitrary: r) (auto simp: diff_table_fst)
  then show ?thesis
    by (simp add: diff_parts_def manifest_parts_def case_prod_beta fst_map_accum)
qed

lemma count_step_eq:
  "count_step base r x =
     (if carries base x then r\<lparr>dr_carried := dr_carried r + 1\<rparr>
      else if base_part base (fst x) (fst (snd x)) (pi_name (snd (snd x))) = None
      then r\<lparr>dr_uploaded := dr_uploaded r + 1\<rparr>
      else r\<lparr>dr_crc_mismatches := dr_crc_mismatches r + 1, dr_uploaded := dr_uploaded r + 1\<rparr>)"
  by (auto simp: count_step_def carries_def diff_part_def base_lookup_eq case_prod_beta
      split: option.splits)

lemma count_steps:
  "dr_carried (foldl (count_step base) r xs) = dr_carried r + length (filter (carries base) xs)"
  "dr_uploaded (foldl (count_step base) r xs) = dr_uploaded r + length (filter (\<lambda>x. \<not> carries base x) xs)"
  "dr_crc_mismatches (foldl (count_step base) r xs) = dr_crc_mismatches r +
     length (filter (\<lambda>x. \<not> carries base x \<and>
       base_part base (fst x) (fst (snd x)) (pi_name (snd (snd x))) \<noteq> None) xs)"
  by (induction xs arbitrary: r) (auto simp: count_step_eq)

lemma carry_part_carried:
  assumes "carries base (k, d, p)"
  obtains bp where "(k, d, bp) \<in> set (manifest_parts base)" and "pi_name bp = pi_name p"
    and "pi_checksum_crc64 bp = pi_checksum_crc64 p"
    and "carry_part base k d p = p\<lparr>pi_source := ''carried:'' @ bm_name base,
           pi_backup_key := pi_backup_key bp, pi_s3_objects := pi_s3_objects bp\<rparr>"
proof -
  obtain bp where bp: "base_part base k d (pi_name p) = Some bp"
    and crc: "pi_checksum_crc64 p = pi_checksum_crc64 bp"
    using assms by (auto simp: carries_def split: option.splits)
  from base_part_in[OF bp] bp crc show ?thesis
    by (intro that[of bp]) (simp_all add: carry_part_def)
qed

lemma carry_part_not: "\<not> carries base (k, d, p) \<Longrightarrow> carry_part base k d p = p"
  by (auto simp: carries_def carry_part_def split: option.splits)

lemma part_keys_carried:
  assumes "carries base (k, d, p)"
  obtains bp where "(k, d, bp) \<in> set (manifest_parts base)" and "part_keys (carry_part base k d p) = part_keys bp"
proof -
  obtain bp where "(k, d, bp) \<in> set (manifest_parts base)"
    and "carry_part base k d p = p\<lparr>pi_source := ''carried:'' @ bm_name base,
           pi_backup_key := pi_backup_key bp, pi_s3_objects := pi_s3_objects bp\<rparr>"
    using assms by (rule carry_part_carried)
  then show ?thesis by (intro that[of bp]) (simp_all add: part_keys_def)
qed

section \<open>Properties\<close>

text \<open>C15. The incremental diff rewrites exactly the parts the base holds with the same table,
  disk, name and checksum; every other part, and every other field of the manifest, is left
  alone, and the counters partition the parts into carried and uploaded, the checksum
  mismatches being among the uploaded.\<close>

theorem diff_parts_correct:
  "manifest_parts (fst (diff_parts cur base)) =
       map (\<lambda>(k, d, p). (k, d, carry_part base k d p)) (manifest_parts cur)
     \<and> (fst (diff_parts cur base))\<lparr>bm_tables := bm_tables cur\<rparr> = cur
     \<and> map fst (bm_tables (fst (diff_parts cur base))) = map fst (bm_tables cur)
     \<and> dr_carried (snd (diff_parts cur base)) = length (filter (carries base) (manifest_parts cur))
     \<and> dr_carried (snd (diff_parts cur base)) + dr_uploaded (snd (diff_parts cur base))
         = length (manifest_parts cur)
     \<and> dr_crc_mismatches (snd (diff_parts cur base)) \<le> dr_uploaded (snd (diff_parts cur base))"
proof -
  have "length (filter (\<lambda>x. \<not> carries base x \<and>
       base_part base (fst x) (fst (snd x)) (pi_name (snd (snd x))) \<noteq> None) xs)
     \<le> length (filter (\<lambda>x. \<not> carries base x) xs)" for xs
    by (induction xs) auto
  moreover have "(fst (diff_parts cur base))\<lparr>bm_tables := bm_tables cur\<rparr> = cur"
    by (simp add: diff_parts_def case_prod_beta)
  ultimately show ?thesis
    by (simp add: manifest_parts_diff diff_parts_counts count_steps diff_parts_tables o_def
        sum_length_filter_compl)
qed

end
