(* ===== verification/Part_Sort.thy ===== *)
theory Part_Sort
  imports Manifest
begin

text \<open>
  Model of \<^verbatim>\<open>src/restore/sort.rs\<close>: the sort key parsed out of a part name, the comparison
  of parts and the stable sort that fixes the order in which parts are attached.
\<close>

section \<open>Definitions\<close>

datatype ordering = Less | Equal | Greater

record PartSortKey =
  psk_partition :: string
  psk_min_block :: u64
  psk_max_block :: u64

definition from_part_name :: "string \<Rightarrow> PartSortKey option" where
  "from_part_name name =
     (let fallback =
        (case rsplitn 4 CHR ''_'' name of
           [lv, mx, mn, part] \<Rightarrow>
             (case parse_u64 mn of None \<Rightarrow> None
              | Some min_block \<Rightarrow>
                (case parse_u64 mx of None \<Rightarrow> None
                 | Some max_block \<Rightarrow>
                     Some \<lparr>psk_partition = part, psk_min_block = min_block,
                           psk_max_block = max_block\<rparr>))
         | _ \<Rightarrow> None)
      in case rsplitn 5 CHR ''_'' name of
           [dv, lv, mx, mn, part] \<Rightarrow>
             (case (parse_u64 dv, parse_u64 lv, parse_u64 mx, parse_u64 mn) of
                (Some _, Some _, Some max_block, Some min_block) \<Rightarrow>
                  Some \<lparr>psk_partition = part, psk_min_block = min_block,
                        psk_max_block = max_block\<rparr>
              | _ \<Rightarrow> fallback)
         | _ \<Rightarrow> fallback)"

definition ord_cmp :: "'a::linorder \<Rightarrow> 'a \<Rightarrow> ordering" where
  "ord_cmp a b = (if a < b then Less else if a = b then Equal else Greater)"

definition PartSortKey_cmp :: "PartSortKey \<Rightarrow> PartSortKey \<Rightarrow> ordering" where
  "PartSortKey_cmp a b =
     (case ord_cmp (psk_partition a) (psk_partition b) of
        Equal \<Rightarrow> ord_cmp (psk_min_block a) (psk_min_block b)
      | c \<Rightarrow> c)"

definition part_cmp :: "PartInfo \<Rightarrow> PartInfo \<Rightarrow> ordering" where
  "part_cmp a b =
     (case (from_part_name (pi_name a), from_part_name (pi_name b)) of
        (Some ka, Some kb) \<Rightarrow> PartSortKey_cmp ka kb
      | (Some _, None) \<Rightarrow> Less
      | (None, Some _) \<Rightarrow> Greater
      | (None, None) \<Rightarrow> ord_cmp (pi_name a) (pi_name b))"

definition part_le :: "PartInfo \<Rightarrow> PartInfo \<Rightarrow> bool" where
  "part_le a b \<longleftrightarrow> part_cmp a b \<noteq> Greater"

definition sort_parts_by_min_block :: "PartInfo list \<Rightarrow> PartInfo list" where
  "sort_parts_by_min_block parts = sort_by part_le parts"

definition needs_sequential_attach :: "string \<Rightarrow> bool" where
  "needs_sequential_attach engine \<longleftrightarrow>
     str_contains engine ''Replacing'' \<or> str_contains engine ''Collapsing''
     \<or> str_contains engine ''Versioned''"

section \<open>The comparison is a total preorder\<close>

lemma ord_cmp_le: "ord_cmp a b \<noteq> Greater \<longleftrightarrow> a \<le> b"
  by (auto simp: ord_cmp_def)

lemma PartSortKey_cmp_le:
  "PartSortKey_cmp a b \<noteq> Greater \<longleftrightarrow>
     psk_partition a < psk_partition b \<or>
     psk_partition a = psk_partition b \<and> psk_min_block a \<le> psk_min_block b"
  by (auto simp: PartSortKey_cmp_def ord_cmp_def)

lemma part_le_iff:
  "part_le a b \<longleftrightarrow>
     (case (from_part_name (pi_name a), from_part_name (pi_name b)) of
        (Some ka, Some kb) \<Rightarrow> psk_partition ka < psk_partition kb \<or>
           psk_partition ka = psk_partition kb \<and> psk_min_block ka \<le> psk_min_block kb
      | (Some _, None) \<Rightarrow> True
      | (None, Some _) \<Rightarrow> False
      | (None, None) \<Rightarrow> pi_name a \<le> pi_name b)"
  by (auto simp: part_le_def part_cmp_def PartSortKey_cmp_le ord_cmp_le split: option.splits)

interpretation part_order: total_preorder part_le
proof unfold_locales
  show "part_le x y \<or> part_le y x" for x y
    by (auto simp: part_le_iff split: option.splits)
  show "part_le x y \<Longrightarrow> part_le y z \<Longrightarrow> part_le x z" for x y z
    by (auto simp: part_le_iff split: option.splits)
qed

section \<open>Parsing part names\<close>

lemma rsplitn_append:
  "c \<notin> set b \<Longrightarrow> rsplitn (Suc (Suc n)) c (a @ c # b) = b # rsplitn (Suc n) c a"
  using split_once_append[of c "rev b" "rev a"] by (simp add: rsplitn_def)

lemma rsplitn_one [simp]: "rsplitn (Suc 0) c s = [s]"
  by (simp add: rsplitn_def)

lemma rsplitn_no_sep: "c \<notin> set s \<Longrightarrow> rsplitn (Suc n) c s = [s]"
  using split_once_None[of c "rev s"] by (cases n) (auto simp: rsplitn_def)

lemma underscore_not_in_number: "CHR ''_'' \<notin> set (word_to_string w)"
  by (simp add: word_to_string_def not_digit_in_nat_to_string is_digit_def)

text \<open>A partition whose last underscore-separated segment reads as a number is ambiguous.\<close>

definition ambiguous_partition :: "string \<Rightarrow> bool" where
  "ambiguous_partition p \<longleftrightarrow>
     (case rsplitn 2 CHR ''_'' p of [l, _] \<Rightarrow> parse_u64 l \<noteq> None | _ \<Rightarrow> False)"

abbreviation part_name4 :: "string \<Rightarrow> u64 \<Rightarrow> u64 \<Rightarrow> u64 \<Rightarrow> string" where
  "part_name4 p mn mx lv \<equiv>
     p @ ''_'' @ word_to_string mn @ ''_'' @ word_to_string mx @ ''_'' @ word_to_string lv"

abbreviation part_name5 :: "string \<Rightarrow> u64 \<Rightarrow> u64 \<Rightarrow> u64 \<Rightarrow> u64 \<Rightarrow> string" where
  "part_name5 p mn mx lv dv \<equiv> part_name4 p mn mx lv @ ''_'' @ word_to_string dv"

lemma rsplitn_name4:
  "rsplitn 4 CHR ''_'' (part_name4 p mn mx lv)
     = [word_to_string lv, word_to_string mx, word_to_string mn, p]"
proof -
  let ?u = "CHR ''_''"
  have "part_name4 p mn mx lv = ((p @ ?u # word_to_string mn) @ ?u # word_to_string mx) @ ?u # word_to_string lv"
    by simp
  then show ?thesis
    by (simp only: numeral_eq_Suc pred_numeral_simps BitM.simps rsplitn_append underscore_not_in_number
        rsplitn_one not_False_eq_True)
qed

lemma rsplitn5_name4:
  "rsplitn 5 CHR ''_'' (part_name4 p mn mx lv)
     = word_to_string lv # word_to_string mx # word_to_string mn # rsplitn 2 CHR ''_'' p"
proof -
  let ?u = "CHR ''_''"
  have "part_name4 p mn mx lv = ((p @ ?u # word_to_string mn) @ ?u # word_to_string mx) @ ?u # word_to_string lv"
    by simp
  then show ?thesis
    by (simp only: numeral_eq_Suc pred_numeral_simps BitM.simps rsplitn_append underscore_not_in_number
        rsplitn_one not_False_eq_True)
qed

lemma rsplitn5_name5:
  "rsplitn 5 CHR ''_'' (part_name5 p mn mx lv dv)
     = [word_to_string dv, word_to_string lv, word_to_string mx, word_to_string mn, p]"
proof -
  let ?u = "CHR ''_''"
  have "part_name5 p mn mx lv dv = part_name4 p mn mx lv @ ?u # word_to_string dv"
    by simp
  then have "rsplitn (Suc (Suc 3)) ?u (part_name5 p mn mx lv dv)
      = word_to_string dv # rsplitn (Suc 3) ?u (part_name4 p mn mx lv)"
    by (simp only: rsplitn_append underscore_not_in_number not_False_eq_True)
  then show ?thesis using rsplitn_name4[of p mn mx lv] by simp
qed

lemma length_rsplitn2: "length (rsplitn 2 c p) \<le> 2 \<and> rsplitn 2 c p \<noteq> []"
  by (simp add: rsplitn_def numeral_2_eq_2 split: option.splits)

section \<open>Properties\<close>

text \<open>Attach order: the sorted list is a permutation of the parts; parts whose names parse
  come before those that do not; two parts of one partition appear in the order of their first
  block, and parts that compare equal keep their original order.\<close>

theorem sort_parts_by_min_block_correct:
  "mset (sort_parts_by_min_block parts) = mset parts
   \<and> sorted_wrt (\<lambda>a b. from_part_name (pi_name b) \<noteq> None \<longrightarrow> from_part_name (pi_name a) \<noteq> None)
       (sort_parts_by_min_block parts)
   \<and> sorted_wrt (\<lambda>a b. \<forall>ka kb. from_part_name (pi_name a) = Some ka \<and> from_part_name (pi_name b) = Some kb
        \<and> psk_partition ka = psk_partition kb \<longrightarrow> psk_min_block ka \<le> psk_min_block kb)
       (sort_parts_by_min_block parts)
   \<and> filter (\<lambda>a. part_le a p \<and> part_le p a) (sort_parts_by_min_block parts)
       = filter (\<lambda>a. part_le a p \<and> part_le p a) parts"
proof -
  have s: "sorted_wrt part_le (sort_parts_by_min_block parts)"
    unfolding sort_parts_by_min_block_def by (rule part_order.sorted_sort_by)
  have "filter (\<lambda>a. part_le a p \<and> part_le p a) (sort_parts_by_min_block parts)
      = filter (\<lambda>a. part_le a p \<and> part_le p a) parts"
    unfolding sort_parts_by_min_block_def
    by (rule part_order.stable_sort_by) (blast intro: part_order.trans_le)
  moreover have "mset (sort_parts_by_min_block parts) = mset parts"
    by (simp add: sort_parts_by_min_block_def)
  ultimately show ?thesis
    by (intro conjI sorted_wrt_mono_rel[OF _ s]) (auto simp: part_le_iff split: option.splits)
qed

theorem sort_parts_by_min_block_correct_witness:
  "map pi_name (sort_parts_by_min_block
      [PartInfo_new ''all_10_20_1'' 1 1, PartInfo_new ''detached'' 1 1, PartInfo_new ''all_2_9_1'' 1 1])
     = [''all_2_9_1'', ''all_10_20_1'', ''detached'']
   \<and> mset (sort_parts_by_min_block
      [PartInfo_new ''all_10_20_1'' 1 1, PartInfo_new ''detached'' 1 1, PartInfo_new ''all_2_9_1'' 1 1])
     = mset [PartInfo_new ''all_10_20_1'' 1 1, PartInfo_new ''detached'' 1 1, PartInfo_new ''all_2_9_1'' 1 1]"
proof
  show "map pi_name (sort_parts_by_min_block
      [PartInfo_new ''all_10_20_1'' 1 1, PartInfo_new ''detached'' 1 1, PartInfo_new ''all_2_9_1'' 1 1])
     = [''all_2_9_1'', ''all_10_20_1'', ''detached'']"
    by code_simp
qed (simp only: sort_parts_by_min_block_correct)

lemma from_part_name_5:
  "from_part_name (part_name5 p mn mx lv dv) = Some \<lparr>psk_partition = p, psk_min_block = mn, psk_max_block = mx\<rparr>"
  unfolding from_part_name_def rsplitn5_name5 by (simp add: parse_word_to_string)

lemma from_part_name_unambiguous:
  "\<not> ambiguous_partition p \<Longrightarrow>
     from_part_name (part_name4 p mn mx lv) = Some \<lparr>psk_partition = p, psk_min_block = mn, psk_max_block = mx\<rparr>"
  unfolding from_part_name_def rsplitn5_name4 rsplitn_name4 using length_rsplitn2[of "CHR ''_''" p]
  by (auto simp: parse_word_to_string ambiguous_partition_def split: list.splits option.splits)

lemma from_part_name_4:
  "CHR ''_'' \<notin> set p \<Longrightarrow>
     from_part_name (part_name4 p mn mx lv) = Some \<lparr>psk_partition = p, psk_min_block = mn, psk_max_block = mx\<rparr>"
  by (rule from_part_name_unambiguous) (simp add: ambiguous_partition_def numeral_2_eq_2 rsplitn_no_sep)

text \<open>Part names print and parse back: a name with a data version always yields its
  partition and blocks, and a name without one does unless the partition itself ends in an
  underscore and a number.\<close>

theorem from_part_name_roundtrip:
  "from_part_name (part_name5 p mn mx lv dv)
     = Some \<lparr>psk_partition = p, psk_min_block = mn, psk_max_block = mx\<rparr>
   \<and> (\<not> ambiguous_partition p \<longrightarrow>
      from_part_name (part_name4 p mn mx lv)
        = Some \<lparr>psk_partition = p, psk_min_block = mn, psk_max_block = mx\<rparr>)"
  using from_part_name_5 from_part_name_unambiguous by blast

theorem from_part_name_roundtrip_witness:
  "\<not> ambiguous_partition ''202401'' \<and> ambiguous_partition ''region_5''
   \<and> from_part_name (part_name4 ''202401'' 1 50 3)
      = Some \<lparr>psk_partition = ''202401'', psk_min_block = 1, psk_max_block = 50\<rparr>
   \<and> from_part_name (part_name4 ''region_5'' 1 50 3)
      = Some \<lparr>psk_partition = ''region'', psk_min_block = 5, psk_max_block = 1\<rparr>"
proof -
  have n: "\<not> ambiguous_partition ''202401''" and a: "ambiguous_partition ''region_5''"
    by code_simp+
  have w: "from_part_name (part_name4 ''region_5'' 1 50 3)
      = Some \<lparr>psk_partition = ''region'', psk_min_block = 5, psk_max_block = 1\<rparr>"
    by code_simp
  show ?thesis
    using from_part_name_roundtrip[of "''202401''" 1 50 3 0] n a w by blast
qed

end
