(* ===== verification/Listing.thy ===== *)
theory Listing
  imports Manifest "HOL-Library.Option_ord" "HOL-Library.Product_Lexorder"
begin

text \<open>
  Model of the listing half of \<^verbatim>\<open>src/list.rs\<close>: backup summaries built from manifests,
  their order, the time-to-live cache of remote summaries, the shortcuts \<^verbatim>\<open>latest\<close> and
  \<^verbatim>\<open>previous\<close>, the S3 prefix arithmetic and the delimited output formats.

  Time is a number (nanoseconds) read by the caller. Reading a remote manifest involves the S3
  service and serde; its outcome for a backup name is the parameter \<open>fetch\<close>, one of the three
  cases the source distinguishes. \<^verbatim>\<open>DateTime::to_rfc3339\<close> is the parameter \<open>rfc3339\<close>.
\<close>

section \<open>Definitions\<close>

datatype Location = Local | Remote

datatype ListFormat = Default | Json | Yaml | Csv | Tsv

record BackupSummary =
  bs_name :: string
  bs_timestamp :: "int option"
  bs_size :: u64
  bs_compressed_size :: u64
  bs_table_count :: nat
  bs_metadata_size :: u64
  bs_rbac_size :: u64
  bs_config_size :: u64
  bs_object_disk_size :: u64
  bs_required :: string
  bs_is_broken :: bool
  bs_broken_reason :: "string option"

subsection \<open>Summaries\<close>

definition broken_summary :: "string \<Rightarrow> string \<Rightarrow> BackupSummary" where
  "broken_summary name reason =
     \<lparr>bs_name = name, bs_timestamp = None, bs_size = 0, bs_compressed_size = 0,
      bs_table_count = 0, bs_metadata_size = 0, bs_rbac_size = 0, bs_config_size = 0,
      bs_object_disk_size = 0, bs_required = '''', bs_is_broken = True,
      bs_broken_reason = Some reason\<rparr>"

definition compute_object_disk_size :: "BackupManifest \<Rightarrow> u64" where
  "compute_object_disk_size manifest =
     fold (\<lambda>(_, _, part) total.
        case pi_s3_objects part of
          Some s3_objects \<Rightarrow> fold (\<lambda>obj total. sat_add total (so_size obj)) s3_objects total
        | None \<Rightarrow> total) (manifest_parts manifest) 0"

definition extract_required_backup :: "BackupManifest \<Rightarrow> string" where
  "extract_required_backup manifest =
     (case List.map_filter (\<lambda>(_, _, part). carried_base part) (manifest_parts manifest) of
        base_name # _ \<Rightarrow> base_name
      | [] \<Rightarrow> '''')"

definition total_uncompressed_size :: "BackupManifest \<Rightarrow> u64" where
  "total_uncompressed_size manifest = sum_list (map (tm_total_bytes \<circ> snd) (bm_tables manifest))"

definition summary_from_manifest :: "BackupManifest \<Rightarrow> string \<Rightarrow> BackupSummary" where
  "summary_from_manifest manifest backup_name =
     (let effective_name = (if backup_name = [] then bm_name manifest else backup_name)
      in \<lparr>bs_name = effective_name,
          bs_timestamp = Some (bm_timestamp manifest),
          bs_size = total_uncompressed_size manifest,
          bs_compressed_size = bm_compressed_size manifest,
          bs_table_count = length (bm_tables manifest),
          bs_metadata_size = bm_metadata_size manifest,
          bs_rbac_size = bm_rbac_size manifest,
          bs_config_size = bm_config_size manifest,
          bs_object_disk_size = compute_object_disk_size manifest,
          bs_required = extract_required_backup manifest,
          bs_is_broken = False,
          bs_broken_reason = None\<rparr>)"

subsection \<open>S3 prefixes\<close>

definition strip_s3_prefix :: "string \<Rightarrow> string \<Rightarrow> string" where
  "strip_s3_prefix key pre =
     (if pre = [] then key
      else let prefix_with_slash = (if ends_with pre ''/'' then pre else pre @ ''/'')
        in if starts_with key prefix_with_slash then drop (length prefix_with_slash) key else key)"

definition extract_backup_name_from_prefix :: "string \<Rightarrow> string \<Rightarrow> string" where
  "extract_backup_name_from_prefix common_prefix s3_prefix =
     trim_char CHR ''/'' (strip_s3_prefix common_prefix s3_prefix)"

subsection \<open>Listing\<close>

definition summary_le :: "BackupSummary \<Rightarrow> BackupSummary \<Rightarrow> bool" where
  "summary_le a b \<longleftrightarrow>
     bs_timestamp a < bs_timestamp b \<or>
     bs_timestamp a = bs_timestamp b \<and> bs_name a \<le> bs_name b"

datatype manifest_read = Parsed BackupManifest | ParseError string | GetError string

definition read_summary :: "(string \<Rightarrow> manifest_read) \<Rightarrow> string \<Rightarrow> BackupSummary" where
  "read_summary fetch name =
     (case fetch name of
        Parsed manifest \<Rightarrow> summary_from_manifest manifest name
      | ParseError e \<Rightarrow> broken_summary name (''manifest parse error: '' @ e)
      | GetError e \<Rightarrow> broken_summary name (''metadata.json not found: '' @ e))"

definition list_remote ::
    "string \<Rightarrow> (string + string list) \<Rightarrow> (string \<Rightarrow> manifest_read) \<Rightarrow> string + BackupSummary list" where
  "list_remote s3_prefix common_prefixes fetch =
     (case common_prefixes of
        Inl e \<Rightarrow> Inl e
      | Inr pfxs \<Rightarrow>
          Inr (sort_by summary_le
            (map (read_summary fetch)
              (filter (\<lambda>name. name \<noteq> [])
                (map (\<lambda>p. extract_backup_name_from_prefix p s3_prefix) pfxs)))))"

subsection \<open>The cache\<close>

record ManifestCache =
  mc_summaries :: "BackupSummary list option"
  mc_populated_at :: "nat option"
  mc_ttl :: nat

definition ManifestCache_new :: "nat \<Rightarrow> ManifestCache" where
  "ManifestCache_new ttl = \<lparr>mc_summaries = None, mc_populated_at = None, mc_ttl = ttl\<rparr>"

definition ManifestCache_get :: "nat \<Rightarrow> ManifestCache \<Rightarrow> BackupSummary list option" where
  "ManifestCache_get now c =
     (case mc_populated_at c of
        None \<Rightarrow> None
      | Some populated_at \<Rightarrow>
          if now - populated_at \<ge> mc_ttl c then None else mc_summaries c)"

definition ManifestCache_set :: "nat \<Rightarrow> BackupSummary list \<Rightarrow> ManifestCache \<Rightarrow> ManifestCache" where
  "ManifestCache_set now summaries c =
     c\<lparr>mc_populated_at := Some now, mc_summaries := Some summaries\<rparr>"

definition ManifestCache_invalidate :: "ManifestCache \<Rightarrow> ManifestCache" where
  "ManifestCache_invalidate c = c\<lparr>mc_summaries := None, mc_populated_at := None\<rparr>"

definition ManifestCache_set_ttl :: "nat \<Rightarrow> ManifestCache \<Rightarrow> ManifestCache" where
  "ManifestCache_set_ttl ttl c = c\<lparr>mc_ttl := ttl\<rparr>"

text \<open>
  \<^verbatim>\<open>list_remote_cached\<close> reads the clock at the lookup (\<open>now\<close>) and again when it stores the
  fetched list (\<open>later\<close>); \<open>listed\<close> is what \<^verbatim>\<open>list_remote\<close> returns in between.
\<close>

definition list_remote_cached ::
    "nat \<Rightarrow> nat \<Rightarrow> (string + BackupSummary list) \<Rightarrow> ManifestCache
     \<Rightarrow> (string + BackupSummary list) \<times> ManifestCache" where
  "list_remote_cached now later listed cache =
     (case ManifestCache_get now cache of
        Some cached \<Rightarrow> (Inr cached, cache)
      | None \<Rightarrow>
          (case listed of
             Inl e \<Rightarrow> (Inl e, cache)
           | Inr summaries \<Rightarrow> (Inr summaries, ManifestCache_set later summaries cache)))"

subsection \<open>Shortcuts\<close>

datatype shortcut_error = NoBackupsForLatest | NotEnoughForPrevious nat

definition resolve_backup_shortcut ::
    "string \<Rightarrow> BackupSummary list \<Rightarrow> shortcut_error + string" where
  "resolve_backup_shortcut name backups =
     (let valid = sort_by_key bs_timestamp (filter (\<lambda>b. \<not> bs_is_broken b) backups)
      in if name = ''latest'' then
           (if valid = [] then Inl NoBackupsForLatest else Inr (bs_name (last valid)))
         else if name = ''previous'' then
           (if length valid < 2 then Inl (NotEnoughForPrevious (length valid))
            else Inr (bs_name (valid ! (length valid - 2))))
         else Inr name)"

subsection \<open>Delimited output\<close>

fun replace_quote :: "string \<Rightarrow> string" where
  "replace_quote [] = []"
| "replace_quote (c # cs) =
     (if c = CHR 0x22 then [CHR 0x22, CHR 0x22] else [c]) @ replace_quote cs"

definition csv_quote :: "string \<Rightarrow> char \<Rightarrow> string" where
  "csv_quote field delimiter =
     (if List.member field delimiter \<or> List.member field (CHR 0x22)
         \<or> List.member field (CHR 0x0A) \<or> List.member field (CHR 0x0D)
      then [CHR 0x22] @ replace_quote field @ [CHR 0x22]
      else field)"

definition csv_headers :: "string list" where
  "csv_headers =
     [''name'', ''timestamp'', ''size'', ''compressed_size'', ''table_count'', ''metadata_size'',
      ''rbac_size'', ''config_size'', ''object_disk_size'', ''required'', ''is_broken'',
      ''broken_reason'']"

definition bool_to_string :: "bool \<Rightarrow> string" where
  "bool_to_string b = (if b then ''true'' else ''false'')"

definition summary_fields :: "(int \<Rightarrow> string) \<Rightarrow> char \<Rightarrow> BackupSummary \<Rightarrow> string list" where
  "summary_fields rfc3339 delimiter s =
     [csv_quote (bs_name s) delimiter,
      csv_quote (case bs_timestamp s of Some t \<Rightarrow> rfc3339 t | None \<Rightarrow> []) delimiter,
      word_to_string (bs_size s),
      word_to_string (bs_compressed_size s),
      nat_to_string (bs_table_count s),
      word_to_string (bs_metadata_size s),
      word_to_string (bs_rbac_size s),
      word_to_string (bs_config_size s),
      word_to_string (bs_object_disk_size s),
      csv_quote (bs_required s) delimiter,
      bool_to_string (bs_is_broken s),
      csv_quote (case bs_broken_reason s of Some r \<Rightarrow> r | None \<Rightarrow> []) delimiter]"

definition format_delimited ::
    "(int \<Rightarrow> string) \<Rightarrow> BackupSummary list \<Rightarrow> char \<Rightarrow> string" where
  "format_delimited rfc3339 summaries delimiter =
     trim_end (join_with [delimiter] csv_headers @ [CHR 0x0A]
       @ concat (map (\<lambda>s. join_with [delimiter] (summary_fields rfc3339 delimiter s) @ [CHR 0x0A])
           summaries))"

section \<open>Lemmas\<close>

interpretation summary_order: total_preorder summary_le
  by unfold_locales (auto simp: summary_le_def)

lemma unat_sat_fold:
  "unat (fold (\<lambda>obj total. sat_add total (so_size obj)) objs (t :: u64))
     = min (unat t + sum_list (map (unat \<circ> so_size) objs)) (2 ^ 64 - 1)"
proof (induction objs arbitrary: t)
  case Nil
  have "unat t < 2 ^ 64" using unsigned_less[of t, where ?'a = nat] by simp
  then show ?case by simp
next
  case (Cons o os)
  show ?case by (simp add: Cons unat_sat_add min_def)
qed

text \<open>The object sizes of a manifest, without overflow.\<close>

definition object_sizes :: "BackupManifest \<Rightarrow> nat" where
  "object_sizes m = sum_list (map (\<lambda>(_, _, p).
     case pi_s3_objects p of Some objs \<Rightarrow> sum_list (map (unat \<circ> so_size) objs) | None \<Rightarrow> 0)
     (manifest_parts m))"

lemma compute_object_disk_size_sat:
  "unat (compute_object_disk_size m) = min (object_sizes m) (2 ^ 64 - 1)"
proof -
  have "unat (fold (\<lambda>(_, _, part) total.
        case pi_s3_objects part of
          Some s3_objects \<Rightarrow> fold (\<lambda>obj total. sat_add total (so_size obj)) s3_objects total
        | None \<Rightarrow> total) ps (t :: u64))
    = min (unat t + sum_list (map (\<lambda>(_, _, p).
     case pi_s3_objects p of Some objs \<Rightarrow> sum_list (map (unat \<circ> so_size) objs) | None \<Rightarrow> 0) ps)) (2 ^ 64 - 1)"
    for ps :: "(string \<times> string \<times> PartInfo) list" and t
  proof (induction ps arbitrary: t)
    case Nil
    have "unat t < 2 ^ 64" using unsigned_less[of t, where ?'a = nat] by simp
    then show ?case by simp
  next
    case (Cons p ps)
    obtain k d q where "p = (k, d, q)" by (cases p) auto
    with Cons show ?case by (cases "pi_s3_objects q") (auto simp: unat_sat_fold min_def)
  qed
  then show ?thesis by (simp add: compute_object_disk_size_def object_sizes_def)
qed

lemma list_remote_broken:
  assumes "list_remote s3_prefix cps fetch = Inr bs" and "b \<in> set bs"
  shows "bs_name b \<noteq> [] \<and> b = read_summary fetch (bs_name b)
    \<and> (bs_is_broken b \<longleftrightarrow> (\<nexists>m. fetch (bs_name b) = Parsed m))"
proof -
  obtain name where n: "name \<noteq> []" and b: "b = read_summary fetch name"
    using assms by (auto simp: list_remote_def split: sum.splits)
  have "bs_name b = name"
    using n b by (simp add: read_summary_def summary_from_manifest_def broken_summary_def Let_def
        split: manifest_read.splits)
  with n b show ?thesis
    by (auto simp: read_summary_def summary_from_manifest_def broken_summary_def Let_def
        split: manifest_read.splits)
qed

text \<open>Reading a quoted field back, as RFC 4180 does.\<close>

fun unreplace_quote :: "string \<Rightarrow> string" where
  "unreplace_quote (a # b # cs) =
     (if a = CHR 0x22 \<and> b = CHR 0x22 then CHR 0x22 # unreplace_quote cs
      else a # unreplace_quote (b # cs))"
| "unreplace_quote s = s"

definition csv_unquote :: "string \<Rightarrow> string option" where
  "csv_unquote f =
     (case f of
        q # rest \<Rightarrow> if q = CHR 0x22 then Some (unreplace_quote (butlast rest)) else Some f
      | [] \<Rightarrow> Some [])"

lemma unreplace_replace: "unreplace_quote (replace_quote s) = s"
proof (induction s rule: replace_quote.induct)
  case (2 c cs)
  then show ?case
    by (cases cs) (auto split: if_splits)
qed simp

interpretation csv_codec: codec "\<lambda>_. True" "\<lambda>field. csv_quote field delimiter" csv_unquote
proof
  fix x :: string
  show "csv_unquote (csv_quote x delimiter) = Some x"
    by (auto simp: csv_quote_def csv_unquote_def unreplace_replace split: list.splits)
qed

section \<open>The cache against its history\<close>

datatype cache_op = SetSummaries nat "BackupSummary list" | Invalidate | SetTtl nat

fun apply_cache_op :: "cache_op \<Rightarrow> ManifestCache \<Rightarrow> ManifestCache" where
  "apply_cache_op (SetSummaries t xs) c = ManifestCache_set t xs c"
| "apply_cache_op Invalidate c = ManifestCache_invalidate c"
| "apply_cache_op (SetTtl ttl) c = ManifestCache_set_ttl ttl c"

fun last_set :: "cache_op list \<Rightarrow> (nat \<times> BackupSummary list) option \<Rightarrow> (nat \<times> BackupSummary list) option" where
  "last_set [] acc = acc"
| "last_set (SetSummaries t xs # ops) acc = last_set ops (Some (t, xs))"
| "last_set (Invalidate # ops) acc = last_set ops None"
| "last_set (SetTtl ttl # ops) acc = last_set ops acc"

fun last_ttl :: "cache_op list \<Rightarrow> nat \<Rightarrow> nat" where
  "last_ttl [] acc = acc"
| "last_ttl (SetTtl ttl # ops) acc = last_ttl ops ttl"
| "last_ttl (SetSummaries t xs # ops) acc = last_ttl ops acc"
| "last_ttl (Invalidate # ops) acc = last_ttl ops acc"

definition cache_view :: "ManifestCache \<Rightarrow> (nat \<times> BackupSummary list) option" where
  "cache_view c = (case (mc_populated_at c, mc_summaries c) of
     (Some t, Some xs) \<Rightarrow> Some (t, xs) | _ \<Rightarrow> None)"

definition cache_ok :: "ManifestCache \<Rightarrow> bool" where
  "cache_ok c \<longleftrightarrow> (mc_populated_at c = None \<longleftrightarrow> mc_summaries c = None)"

lemma cache_ok_step: "cache_ok c \<Longrightarrow> cache_ok (apply_cache_op op c)"
  by (cases op) (auto simp: cache_ok_def ManifestCache_set_def ManifestCache_invalidate_def
      ManifestCache_set_ttl_def)

lemma cache_view_step:
  "cache_view (apply_cache_op op c) = last_set [op] (cache_view c)
   \<and> mc_ttl (apply_cache_op op c) = last_ttl [op] (mc_ttl c)"
  by (cases op) (simp_all add: cache_view_def ManifestCache_set_def ManifestCache_invalidate_def
      ManifestCache_set_ttl_def)

lemma last_Cons: "last_set (op # ops) acc = last_set ops (last_set [op] acc)"
  "last_ttl (op # ops) t = last_ttl ops (last_ttl [op] t)"
  by (cases op; simp)+

lemma cache_run:
  "cache_ok c \<Longrightarrow> cache_ok (fold apply_cache_op ops c)
     \<and> cache_view (fold apply_cache_op ops c) = last_set ops (cache_view c)
     \<and> mc_ttl (fold apply_cache_op ops c) = last_ttl ops (mc_ttl c)"
proof (induction ops arbitrary: c)
  case (Cons op ops)
  from cache_ok_step[OF Cons.prems] Cons.IH[of "apply_cache_op op c"] show ?case
    using last_Cons(1)[of op ops "cache_view c"] last_Cons(2)[of op ops "mc_ttl c"]
    by (simp add: cache_view_step)
qed simp

lemma ManifestCache_get_view:
  "cache_ok c \<Longrightarrow> ManifestCache_get now c =
     (case cache_view c of Some (t, xs) \<Rightarrow> if now - t < mc_ttl c then Some xs else None | None \<Rightarrow> None)"
  by (auto simp: ManifestCache_get_def cache_view_def cache_ok_def split: option.splits)

section \<open>Trimming the last line\<close>

lemma strip_front_stop:
  "find (\<lambda>w. w \<noteq> [] \<and> prefix w s) ws = None \<Longrightarrow> strip_front ws s = s"
  by (simp add: strip_front.simps[of ws s])

lemma strip_front_step:
  "find (\<lambda>w. w \<noteq> [] \<and> prefix w s) ws = Some w \<Longrightarrow> strip_front ws s = strip_front ws (drop (length w) s)"
  by (simp add: strip_front.simps[of ws s])

lemma ws_rev_eq:
  "map rev ws_strings =
     [[CHR 0x09], [CHR 0x0A], [CHR 0x0B],
      [CHR 0x0C], [CHR 0x0D], [CHR 0x20],
      [CHR 0x85, CHR 0xC2], [CHR 0xA0, CHR 0xC2], [CHR 0x80, CHR 0x9A, CHR 0xE1],
      [CHR 0x80, CHR 0x80, CHR 0xE2], [CHR 0x81, CHR 0x80, CHR 0xE2], [CHR 0x82, CHR 0x80, CHR 0xE2],
      [CHR 0x83, CHR 0x80, CHR 0xE2], [CHR 0x84, CHR 0x80, CHR 0xE2], [CHR 0x85, CHR 0x80, CHR 0xE2],
      [CHR 0x86, CHR 0x80, CHR 0xE2], [CHR 0x87, CHR 0x80, CHR 0xE2], [CHR 0x88, CHR 0x80, CHR 0xE2],
      [CHR 0x89, CHR 0x80, CHR 0xE2], [CHR 0x8A, CHR 0x80, CHR 0xE2], [CHR 0xA8, CHR 0x80, CHR 0xE2],
      [CHR 0xA9, CHR 0x80, CHR 0xE2], [CHR 0xAF, CHR 0x80, CHR 0xE2], [CHR 0x9F, CHR 0x81, CHR 0xE2],
      [CHR 0x80, CHR 0x80, CHR 0xE3]]"
  by code_simp

lemma trim_end_tab_newline:
  "trim_end (x @ [CHR ''e'', CHR 0x09, CHR 0x0A]) = x @ [CHR ''e'']"
proof -
  have "strip_front (map rev ws_strings) (CHR 0x0A # CHR 0x09 # CHR ''e'' # rev x)
      = strip_front (map rev ws_strings) (CHR 0x09 # CHR ''e'' # rev x)"
    by (subst strip_front_step[where w = "[CHR 0x0A]"]) (simp_all add: ws_rev_eq)
  also have "\<dots> = strip_front (map rev ws_strings) (CHR ''e'' # rev x)"
    by (subst strip_front_step[where w = "[CHR 0x09]"]) (simp_all add: ws_rev_eq)
  also have "\<dots> = CHR ''e'' # rev x"
    by (rule strip_front_stop) (simp add: ws_rev_eq)
  finally show ?thesis by (simp add: trim_end_def)
qed

section \<open>Properties\<close>

text \<open>Remote listing: the listed backups are the non-empty names under the prefix, each
  summarised from its manifest and marked broken exactly when that manifest cannot be read or
  parsed, ordered by time and then by name.\<close>

theorem list_remote_correct:
  assumes "list_remote s3_prefix (Inr pfxs) fetch = Inr bs"
  shows "sorted_wrt summary_le bs
    \<and> mset (map bs_name bs) = mset (filter (\<lambda>n. n \<noteq> [])
         (map (\<lambda>p. extract_backup_name_from_prefix p s3_prefix) pfxs))
    \<and> list_all (\<lambda>b. b = read_summary fetch (bs_name b)
         \<and> (bs_is_broken b \<longleftrightarrow> (\<nexists>m. fetch (bs_name b) = Parsed m))) bs"
proof -
  let ?names = "filter (\<lambda>n. n \<noteq> []) (map (\<lambda>p. extract_backup_name_from_prefix p s3_prefix) pfxs)"
  have bs: "bs = sort_by summary_le (map (read_summary fetch) ?names)"
    using assms by (simp add: list_remote_def)
  have name: "n \<noteq> [] \<Longrightarrow> bs_name (read_summary fetch n) = n" for n
    by (simp add: read_summary_def summary_from_manifest_def broken_summary_def Let_def
        split: manifest_read.splits)
  have "mset (map bs_name bs) = image_mset bs_name (mset (map (read_summary fetch) ?names))"
    using bs by (metis mset_map mset_sort_by)
  also have "\<dots> = mset (map (\<lambda>n. bs_name (read_summary fetch n)) ?names)"
    by (simp add: image_mset.compositionality o_def flip: mset_map)
  also have "map (\<lambda>n. bs_name (read_summary fetch n)) ?names = ?names"
    by (rule map_idI) (auto simp: name)
  finally have "mset (map bs_name bs) = mset ?names" .
  moreover have "sorted_wrt summary_le bs"
    unfolding bs by (rule summary_order.sorted_sort_by)
  moreover have "list_all (\<lambda>b. b = read_summary fetch (bs_name b)
         \<and> (bs_is_broken b \<longleftrightarrow> (\<nexists>m. fetch (bs_name b) = Parsed m))) bs"
    using list_remote_broken[OF assms] by (simp add: list_all_iff)
  ultimately show ?thesis by blast
qed

theorem list_remote_correct_witness:
  "list_remote ''chbackup'' (Inr [''chbackup/daily/'', ''chbackup/'']) (\<lambda>_. GetError ''404'')
     = Inr [broken_summary ''daily'' ''metadata.json not found: 404'']
   \<and> sorted_wrt summary_le [broken_summary ''daily'' ''metadata.json not found: 404'']"
proof -
  have e: "list_remote ''chbackup'' (Inr [''chbackup/daily/'', ''chbackup/'']) (\<lambda>_. GetError ''404'')
     = Inr [broken_summary ''daily'' ''metadata.json not found: 404'']"
    by (simp add: list_remote_def extract_backup_name_from_prefix_def strip_s3_prefix_def
        trim_char_def trim_start_char_def trim_end_char_def read_summary_def sort_by_def suffix_def)
  from list_remote_correct[OF e] e show ?thesis by blast
qed

text \<open>C33. The cache answers from its history: whatever sequence of stores, invalidations and
  time-to-live changes it has seen, a lookup returns the list stored last, provided nothing
  invalidated it since and it is younger than the current time-to-live, and nothing otherwise.\<close>

theorem ManifestCache_get_correct:
  "ManifestCache_get now (fold apply_cache_op ops (ManifestCache_new ttl)) =
     (case last_set ops None of
        Some (t, xs) \<Rightarrow> if now - t < last_ttl ops ttl then Some xs else None
      | None \<Rightarrow> None)"
proof -
  have "cache_ok (ManifestCache_new ttl)" and "cache_view (ManifestCache_new ttl) = None"
    by (simp_all add: cache_ok_def ManifestCache_new_def cache_view_def)
  moreover have "mc_ttl (ManifestCache_new ttl) = ttl"
    by (simp add: ManifestCache_new_def)
  ultimately show ?thesis
    using cache_run[of "ManifestCache_new ttl" ops]
    by (auto simp: ManifestCache_get_view split: option.splits)
qed

text \<open>The shortcut \<^verbatim>\<open>latest\<close> names a valid backup no valid backup is newer than; it fails
  exactly when there is no valid backup. The shortcut \<^verbatim>\<open>previous\<close> needs two valid backups.
  Any other name is passed through.\<close>

theorem resolve_backup_shortcut_correct:
  "(\<forall>n. resolve_backup_shortcut ''latest'' bs = Inr n \<longrightarrow>
      (\<exists>b \<in> set bs. \<not> bs_is_broken b \<and> bs_name b = n \<and>
         (\<forall>c \<in> set bs. \<not> bs_is_broken c \<longrightarrow> bs_timestamp c \<le> bs_timestamp b)))
   \<and> ((\<exists>e. resolve_backup_shortcut ''latest'' bs = Inl e) \<longleftrightarrow> list_all bs_is_broken bs)
   \<and> ((\<exists>e. resolve_backup_shortcut ''previous'' bs = Inl e)
        \<longleftrightarrow> length (filter (\<lambda>b. \<not> bs_is_broken b) bs) < 2)
   \<and> (name \<notin> {''latest'', ''previous''} \<longrightarrow> resolve_backup_shortcut name bs = Inr name)"
proof -
  let ?v = "sort_by_key bs_timestamp (filter (\<lambda>b. \<not> bs_is_broken b) bs)"
  have top: "bs_timestamp c \<le> bs_timestamp (last ?v)"
    if "c \<in> set bs" "\<not> bs_is_broken c" for c
  proof -
    from that have c: "c \<in> set ?v" by simp
    then have "?v = butlast ?v @ [last ?v]" by (cases "?v = []") auto
    with sorted_sort_by_key[of bs_timestamp "filter (\<lambda>b. \<not> bs_is_broken b) bs"]
    have "\<forall>x \<in> set (butlast ?v). bs_timestamp x \<le> bs_timestamp (last ?v)"
      by (metis (no_types, lifting) list.set_intros(1) sorted_wrt_append)
    moreover have "c \<in> set (butlast ?v) \<or> c = last ?v"
      using c by (metis \<open>?v = butlast ?v @ [last ?v]\<close> Un_iff empty_iff insert_iff list.set set_append)
    ultimately show ?thesis by auto
  qed
  have last: "?v \<noteq> [] \<Longrightarrow> last ?v \<in> set bs \<and> \<not> bs_is_broken (last ?v)"
    using last_in_set[of ?v] by simp
  have nil: "?v = [] \<longleftrightarrow> list_all bs_is_broken bs"
    by (metis (no_types, lifting) filter_empty_conv length_0_conv length_sort_by_key list_all_iff)
  show ?thesis
    using top last nil
    by (auto simp: resolve_backup_shortcut_def Let_def split: if_splits)
qed

theorem resolve_backup_shortcut_correct_witness:
  "resolve_backup_shortcut ''latest''
      [(broken_summary ''b'' ''x'')\<lparr>bs_is_broken := False, bs_timestamp := Some 5\<rparr>,
       (broken_summary ''a'' ''x'')\<lparr>bs_is_broken := False, bs_timestamp := Some 9\<rparr>,
       broken_summary ''c'' ''y''] = Inr ''a''
   \<and> resolve_backup_shortcut ''weekly'' [broken_summary ''c'' ''y''] = Inr ''weekly''"
proof -
  have "''weekly'' \<notin> {''latest'', ''previous''}" by simp
  with resolve_backup_shortcut_correct[of "[broken_summary ''c'' ''y'']" "''weekly''"]
  have "resolve_backup_shortcut ''weekly'' [broken_summary ''c'' ''y''] = Inr ''weekly''" by blast
  moreover have "resolve_backup_shortcut ''latest''
      [(broken_summary ''b'' ''x'')\<lparr>bs_is_broken := False, bs_timestamp := Some 5\<rparr>,
       (broken_summary ''a'' ''x'')\<lparr>bs_is_broken := False, bs_timestamp := Some 9\<rparr>,
       broken_summary ''c'' ''y''] = Inr ''a''"
    by (simp add: resolve_backup_shortcut_def sort_by_key_def sort_by_def broken_summary_def)
  ultimately show ?thesis by blast
qed

text \<open>In tab-separated output the last row loses its last column: when the last backup is
  not broken, its empty reason leaves a trailing tab that the final trimming of white space
  removes, so the row has eleven columns under a header of twelve.\<close>

theorem format_delimited_tsv_last_row:
  assumes "bs_broken_reason s = None"
  shows "format_delimited rfc3339 (ss @ [s]) (CHR 0x09) =
      join_with [CHR 0x09] csv_headers @ [CHR 0x0A]
      @ concat (map (\<lambda>s. join_with [CHR 0x09] (summary_fields rfc3339 (CHR 0x09) s) @ [CHR 0x0A]) ss)
      @ join_with [CHR 0x09] (butlast (summary_fields rfc3339 (CHR 0x09) s))
    \<and> length csv_headers = 12 \<and> length (butlast (summary_fields rfc3339 (CHR 0x09) s)) = 11"
proof -
  let ?row = "join_with [CHR 0x09] (summary_fields rfc3339 (CHR 0x09) s)"
  let ?cut = "join_with [CHR 0x09] (butlast (summary_fields rfc3339 (CHR 0x09) s))"
  have row: "?row = ?cut @ [CHR 0x09]"
    using assms by (simp add: summary_fields_def csv_quote_def)
  have "\<exists>x. bool_to_string b = x @ [CHR ''e'']" for b
    by (cases b) (auto simp: bool_to_string_def)
  then obtain y where y: "bool_to_string (bs_is_broken s) = y @ [CHR ''e'']" by blast
  have cut: "\<exists>x. ?cut = x @ [CHR ''e'']"
    using y by (simp add: summary_fields_def)
  then obtain x where x: "?cut = x @ [CHR ''e'']" by blast
  define pre where "pre = join_with [CHR 0x09] csv_headers @ [CHR 0x0A]
      @ concat (map (\<lambda>s. join_with [CHR 0x09] (summary_fields rfc3339 (CHR 0x09) s) @ [CHR 0x0A]) ss)"
  have "format_delimited rfc3339 (ss @ [s]) (CHR 0x09) = trim_end ((pre @ x) @ [CHR ''e'', CHR 0x09, CHR 0x0A])"
    unfolding format_delimited_def pre_def by (simp add: row x)
  also have "\<dots> = pre @ ?cut"
    unfolding trim_end_tab_newline x by simp
  finally show ?thesis
    by (simp add: pre_def csv_headers_def summary_fields_def)
qed

theorem format_delimited_tsv_last_row_witness:
  "length (split_on CHR 0x09 (last (split_on CHR 0x0A (format_delimited (\<lambda>_. ''t'')
     ([] @ [(broken_summary ''b'' ''x'')\<lparr>bs_is_broken := False, bs_broken_reason := None\<rparr>]) CHR 0x09)))) = 11"
proof -
  let ?s = "(broken_summary ''b'' ''x'')\<lparr>bs_is_broken := False, bs_broken_reason := None\<rparr>"
  have n: "bs_broken_reason ?s = None" by simp
  show ?thesis
    unfolding conjunct1[OF format_delimited_tsv_last_row[OF n, of "\<lambda>_. ''t''" "[]"]]
    by code_simp
qed

end
