(* ===== verification/Retention.thy ===== *)
theory Retention
  imports Listing
begin

text \<open>
  Model of the destructive half of \<^verbatim>\<open>src/list.rs\<close>: retention, garbage collection of S3 keys
  and the cleaning of broken remote backups.

  The object store is a state of some type \<open>'w\<close>; the calls the source makes on it are
  parameters: \<open>fetch_manifest\<close> (read and parse a manifest), \<open>list_prefix\<close>, \<open>delete_keys\<close>, and
  for the callers \<open>list_objects\<close> and \<open>delete_objects\<close>. \<^verbatim>\<open>HashSet\<close> is \<^typ>\<open>string set\<close>. What
  the theorems need of the store is the predicate \<open>deletes_only\<close>, \<open>deletes_given\<close> and \<open>lists_prefix\<close> below.
\<close>

section \<open>Definitions\<close>

subsection \<open>Keys a manifest references\<close>

definition part_key_list :: "PartInfo \<Rightarrow> string list" where
  "part_key_list part =
     (if pi_backup_key part \<noteq> [] then [pi_backup_key part] else [])
     @ (case pi_s3_objects part of
          Some s3_objects \<Rightarrow> filter (\<lambda>k. k \<noteq> []) (map so_backup_key s3_objects)
        | None \<Rightarrow> [])"

definition collect_key_prefixes_from_manifest :: "BackupManifest \<Rightarrow> string set" where
  "collect_key_prefixes_from_manifest manifest =
     set (concat (map (\<lambda>(_, _, part). part_key_list part) (manifest_parts manifest)))"

definition is_key_protected :: "string \<Rightarrow> string set \<Rightarrow> bool" where
  "is_key_protected relative_key protected \<longleftrightarrow>
     relative_key \<in> protected \<or>
     (\<exists>entry \<in> protected. ends_with entry ''/'' \<and> starts_with relative_key entry)"

definition collect_incremental_bases :: "BackupManifest \<Rightarrow> string set" where
  "collect_incremental_bases manifest =
     set (List.map_filter (\<lambda>(_, _, part). carried_base part) (manifest_parts manifest))"

subsection \<open>Planning\<close>

record RetentionPlan =
  rp_to_delete :: "string list"
  rp_surviving :: "string list"

definition plan_retention_deletions :: "BackupSummary list \<Rightarrow> nat \<Rightarrow> RetentionPlan" where
  "plan_retention_deletions summaries keep =
     (let valid = sort_by_key bs_timestamp (filter (\<lambda>b. \<not> bs_is_broken b) summaries);
          to_delete = length valid - keep
      in \<lparr>rp_to_delete = map bs_name (take to_delete valid),
          rp_surviving = map bs_name (drop to_delete valid)\<rparr>)"

subsection \<open>The retention pass\<close>

record RetentionOutcome =
  ro_deleted :: "string list"
  ro_skipped :: "string list"

fun collect_survivors ::
    "(string \<Rightarrow> string + BackupManifest) \<Rightarrow> string list \<Rightarrow> string set \<times> string set
     \<Rightarrow> string + (string set \<times> string set)" where
  "collect_survivors fetch [] (protected, bases) = Inr (protected, bases)"
| "collect_survivors fetch (name # names) (protected, bases) =
     (case fetch name of
        Inl e \<Rightarrow> Inl (''retention aborted before deleting anything: cannot read the manifest of surviving backup '' @ name @ '': '' @ e)
      | Inr manifest \<Rightarrow>
          collect_survivors fetch names
            (protected \<union> collect_key_prefixes_from_manifest manifest,
             bases \<union> collect_incremental_bases manifest))"

definition retention_candidate ::
    "('w \<Rightarrow> string \<Rightarrow> string + string list) \<Rightarrow> (string list \<Rightarrow> 'w \<Rightarrow> (string + unit) \<times> 'w)
     \<Rightarrow> string set \<Rightarrow> string set \<Rightarrow> string \<Rightarrow> RetentionOutcome \<times> 'w \<Rightarrow> RetentionOutcome \<times> 'w" where
  "retention_candidate list_prefix delete_keys protected bases name = (\<lambda>(outcome, w).
     if name \<in> bases then (outcome\<lparr>ro_skipped := ro_skipped outcome @ [name]\<rparr>, w)
     else case list_prefix w (name @ ''/'') of
       Inl e \<Rightarrow> (outcome, w)
     | Inr keys \<Rightarrow>
         if keys = [] then (outcome, w)
         else
           let manifest_key = name @ ''/metadata.json'';
               others = filter (\<lambda>key. key \<noteq> manifest_key) keys;
               data_keys = filter (\<lambda>key. \<not> is_key_protected key protected) others;
               protected_count = length (filter (\<lambda>key. is_key_protected key protected) others)
           in if protected_count > 0
              then (outcome\<lparr>ro_skipped := ro_skipped outcome @ [name]\<rparr>, w)
              else case delete_keys data_keys w of
                (Inl e, w1) \<Rightarrow> (outcome, w1)
              | (Inr _, w1) \<Rightarrow>
                  (case delete_keys [manifest_key] w1 of
                     (Inl e, w2) \<Rightarrow> (outcome, w2)
                   | (Inr _, w2) \<Rightarrow> (outcome\<lparr>ro_deleted := ro_deleted outcome @ [name]\<rparr>, w2)))"

definition retention_remote_inner ::
    "RetentionPlan \<Rightarrow> ('w \<Rightarrow> string \<Rightarrow> string + BackupManifest) \<Rightarrow> ('w \<Rightarrow> string \<Rightarrow> string + string list)
     \<Rightarrow> (string list \<Rightarrow> 'w \<Rightarrow> (string + unit) \<times> 'w) \<Rightarrow> 'w \<Rightarrow> (string + RetentionOutcome) \<times> 'w" where
  "retention_remote_inner plan fetch_manifest list_prefix delete_keys w =
     (case collect_survivors (fetch_manifest w) (rp_surviving plan) ({}, {}) of
        Inl e \<Rightarrow> (Inl e, w)
      | Inr (protected, incremental_bases) \<Rightarrow>
          (let (outcome, w') =
             fold (retention_candidate list_prefix delete_keys protected incremental_bases)
               (rp_to_delete plan) (\<lparr>ro_deleted = [], ro_skipped = []\<rparr>, w)
           in (Inr outcome, w')))"

record S3Object =
  s3_key :: string
  s3_size :: int
  s3_last_modified :: "int option"

definition list_relative ::
    "string \<Rightarrow> ('w \<Rightarrow> string \<Rightarrow> string + S3Object list) \<Rightarrow> 'w \<Rightarrow> string \<Rightarrow> string + string list" where
  "list_relative s3_prefix list_objects w pre =
     (case list_objects w pre of
        Inl e \<Rightarrow> Inl e
      | Inr objects \<Rightarrow> Inr (map (\<lambda>obj. strip_s3_prefix (s3_key obj) s3_prefix) objects))"

text \<open>A batch delete that fails on some keys only is logged and counts as a success.\<close>

definition delete_ignoring_partial ::
    "(string list \<Rightarrow> 'w \<Rightarrow> (string + nat) \<times> 'w) \<Rightarrow> string list \<Rightarrow> 'w \<Rightarrow> (string + unit) \<times> 'w" where
  "delete_ignoring_partial delete_objects keys w =
     (case delete_objects keys w of
        (Inl e, w') \<Rightarrow> (Inl e, w')
      | (Inr failed, w') \<Rightarrow> (Inr (), w'))"

definition retention_remote ::
    "string \<Rightarrow> ('w \<Rightarrow> string + BackupSummary list) \<Rightarrow> ('w \<Rightarrow> string \<Rightarrow> string + BackupManifest)
     \<Rightarrow> ('w \<Rightarrow> string \<Rightarrow> string + S3Object list) \<Rightarrow> (string list \<Rightarrow> 'w \<Rightarrow> (string + nat) \<times> 'w)
     \<Rightarrow> int \<Rightarrow> 'w \<Rightarrow> (string + nat) \<times> 'w" where
  "retention_remote s3_prefix listing fetch_manifest list_objects delete_objects keep w =
     (if keep \<le> 0 then (Inr 0, w)
      else case listing w of
        Inl e \<Rightarrow> (Inl e, w)
      | Inr backups \<Rightarrow>
          let plan = plan_retention_deletions backups (nat keep) in
          if rp_to_delete plan = [] then (Inr 0, w)
          else case retention_remote_inner plan fetch_manifest (list_relative s3_prefix list_objects)
                      (delete_ignoring_partial delete_objects) w of
            (Inl e, w') \<Rightarrow> (Inl e, w')
          | (Inr outcome, w') \<Rightarrow> (Inr (length (ro_deleted outcome)), w'))"

subsection \<open>Local retention and explicit deletion\<close>

fun delete_each ::
    "(string \<Rightarrow> 'w \<Rightarrow> (string + unit) \<times> 'w) \<Rightarrow> string list \<Rightarrow> 'w \<Rightarrow> nat \<times> 'w" where
  "delete_each delete_local [] w = (0, w)"
| "delete_each delete_local (name # names) w =
     (let (r, w1) = delete_local name w; (n, w2) = delete_each delete_local names w1
      in (case r of Inr _ \<Rightarrow> n + 1 | Inl _ \<Rightarrow> n, w2))"

definition retention_local ::
    "('w \<Rightarrow> string + BackupSummary list) \<Rightarrow> (string \<Rightarrow> 'w \<Rightarrow> (string + unit) \<times> 'w) \<Rightarrow> int \<Rightarrow> 'w
     \<Rightarrow> (string + nat) \<times> 'w" where
  "retention_local list_local delete_local keep w =
     (if keep \<le> 0 then (Inr 0, w)
      else case list_local w of
        Inl e \<Rightarrow> (Inl e, w)
      | Inr backups \<Rightarrow>
          let valid = filter (\<lambda>b. \<not> bs_is_broken b) backups in
          if length valid \<le> nat keep then (Inr 0, w)
          else let (deleted, w') = delete_each delete_local
                 (map bs_name (take (length valid - nat keep) (sort_by_key bs_timestamp valid))) w
               in (Inr deleted, w'))"

datatype delete_error = BackupNotFound string | StoreError string

definition delete_remote ::
    "string \<Rightarrow> ('w \<Rightarrow> string \<Rightarrow> string + S3Object list) \<Rightarrow> (string list \<Rightarrow> 'w \<Rightarrow> (string + nat) \<times> 'w)
     \<Rightarrow> string \<Rightarrow> 'w \<Rightarrow> (delete_error + unit) \<times> 'w" where
  "delete_remote s3_prefix list_objects delete_objects backup_name w =
     (case list_objects w (backup_name @ ''/'') of
        Inl e \<Rightarrow> (Inl (StoreError e), w)
      | Inr objects \<Rightarrow>
          if objects = [] then (Inl (BackupNotFound backup_name), w)
          else case delete_objects (map (\<lambda>obj. strip_s3_prefix (s3_key obj) s3_prefix) objects) w of
            (Inl e, w') \<Rightarrow> (Inl (StoreError e), w')
          | (Inr failed, w') \<Rightarrow> (Inr (), w'))"

subsection \<open>Broken backups\<close>

datatype skip_reason = LockLive | AgeUnknown | TooYoung nat | AllReferenced

datatype CleanBrokenPlan = Skip skip_reason | Delete "string list"

definition i64_saturating_sub :: "int \<Rightarrow> int \<Rightarrow> int" where
  "i64_saturating_sub a b = max (- (2 ^ 63)) (min (2 ^ 63 - 1) (a - b))"

definition plan_clean_broken_deletion ::
    "string list \<Rightarrow> int option \<Rightarrow> int \<Rightarrow> u64 \<Rightarrow> bool \<Rightarrow> string set \<Rightarrow> CleanBrokenPlan" where
  "plan_clean_broken_deletion candidate_keys newest_last_modified now_secs min_age_secs lock_is_live protected =
     (if lock_is_live then Skip LockLive
      else case newest_last_modified of
        None \<Rightarrow> Skip AgeUnknown
      | Some newest \<Rightarrow>
          let age_secs = nat (max (i64_saturating_sub now_secs newest) 0) in
          if age_secs < unat min_age_secs then Skip (TooYoung age_secs)
          else let keys = filter (\<lambda>key. \<not> is_key_protected key protected) candidate_keys in
            if keys = [] then Skip AllReferenced else Delete keys)"

definition apply_clean_broken_plan ::
    "CleanBrokenPlan \<Rightarrow> (string list \<Rightarrow> 'w \<Rightarrow> (string + unit) \<times> 'w) \<Rightarrow> 'w \<Rightarrow> bool \<times> 'w" where
  "apply_clean_broken_plan plan delete_keys w =
     (case plan of
        Skip reason \<Rightarrow> (False, w)
      | Delete keys \<Rightarrow>
          (case delete_keys keys w of (Inr _, w') \<Rightarrow> (True, w') | (Inl e, w') \<Rightarrow> (False, w')))"

definition newest_last_modified :: "S3Object list \<Rightarrow> int option" where
  "newest_last_modified objects =
     (if list_ex (\<lambda>obj. s3_last_modified obj = None) objects \<or> objects = [] then None
      else Some (Max (set (map (\<lambda>obj. the (s3_last_modified obj)) objects))))"

fun collect_valid ::
    "(string \<Rightarrow> string + BackupManifest) \<Rightarrow> string list \<Rightarrow> string set \<Rightarrow> string + string set" where
  "collect_valid fetch [] protected = Inr protected"
| "collect_valid fetch (name # names) protected =
     (case fetch name of
        Inl e \<Rightarrow> Inl (''clean_broken aborted before deleting anything: cannot read the manifest of valid backup '' @ name @ '': '' @ e)
      | Inr manifest \<Rightarrow>
          collect_valid fetch names (protected \<union> collect_key_prefixes_from_manifest manifest))"

definition clean_broken_one ::
    "string \<Rightarrow> ('w \<Rightarrow> string \<Rightarrow> string + S3Object list) \<Rightarrow> (string list \<Rightarrow> 'w \<Rightarrow> (string + nat) \<times> 'w)
     \<Rightarrow> ('w \<Rightarrow> string \<Rightarrow> bool) \<Rightarrow> int \<Rightarrow> u64 \<Rightarrow> string set \<Rightarrow> string \<Rightarrow> nat \<times> 'w \<Rightarrow> nat \<times> 'w" where
  "clean_broken_one s3_prefix list_objects delete_objects lock_live now_secs min_age_secs protected name
     = (\<lambda>(deleted, w).
     case list_objects w (name @ ''/'') of
       Inl e \<Rightarrow> (deleted, w)
     | Inr objects \<Rightarrow>
         let candidate_keys = map (\<lambda>obj. strip_s3_prefix (s3_key obj) s3_prefix) objects;
             plan = plan_clean_broken_deletion candidate_keys (newest_last_modified objects)
               now_secs min_age_secs (lock_live w name) protected;
             (ok, w') = apply_clean_broken_plan plan (delete_ignoring_partial delete_objects) w
         in (if ok then deleted + 1 else deleted, w'))"

definition clean_broken_remote ::
    "string \<Rightarrow> ('w \<Rightarrow> string + BackupSummary list) \<Rightarrow> ('w \<Rightarrow> string \<Rightarrow> string + BackupManifest)
     \<Rightarrow> ('w \<Rightarrow> string \<Rightarrow> string + S3Object list) \<Rightarrow> (string list \<Rightarrow> 'w \<Rightarrow> (string + nat) \<times> 'w)
     \<Rightarrow> ('w \<Rightarrow> string \<Rightarrow> bool) \<Rightarrow> int \<Rightarrow> u64 \<Rightarrow> 'w \<Rightarrow> (string + nat) \<times> 'w" where
  "clean_broken_remote s3_prefix listing fetch_manifest list_objects delete_objects lock_live
      now_secs min_age_secs w =
     (case listing w of
        Inl e \<Rightarrow> (Inl e, w)
      | Inr backups \<Rightarrow>
          let broken = filter bs_is_broken backups in
          if broken = [] then (Inr 0, w)
          else case collect_valid (fetch_manifest w)
                      (map bs_name (filter (\<lambda>b. \<not> bs_is_broken b) backups)) {} of
            Inl e \<Rightarrow> (Inl e, w)
          | Inr protected \<Rightarrow>
              (let (deleted, w') =
                 fold (clean_broken_one s3_prefix list_objects delete_objects lock_live now_secs
                   min_age_secs protected) (map bs_name broken) (0, w)
               in (Inr deleted, w')))"

section \<open>The interface of key protection\<close>

text \<open>
  What a collector needs of the key guard: the entries a manifest references protect
  themselves, and protection only grows with the protected set.
\<close>

locale key_guard =
  fixes refs :: "'m \<Rightarrow> 'k set" and protects :: "'k \<Rightarrow> 'k set \<Rightarrow> bool"
  assumes protects_member: "k \<in> P \<Longrightarrow> protects k P"
    and protects_mono: "protects k P \<Longrightarrow> P \<subseteq> Q \<Longrightarrow> protects k Q"
begin

lemma refs_protected: "k \<in> refs m \<Longrightarrow> protects k (refs m)"
  by (rule protects_member)

lemma unprotected_filter:
  "protects k (refs m) \<Longrightarrow> refs m \<subseteq> P \<Longrightarrow> k \<notin> set (filter (\<lambda>x. \<not> protects x P) ks)"
  using protects_mono by auto

end

interpretation s3_guard: key_guard collect_key_prefixes_from_manifest is_key_protected
  by unfold_locales (auto simp: is_key_protected_def)

lemma set_part_key_list: "set (part_key_list p) = part_keys p"
  by (cases "pi_s3_objects p") (auto simp: part_key_list_def part_keys_def)

lemma collect_eq_part_keys:
  "collect_key_prefixes_from_manifest m = (\<Union>(k, d, p) \<in> set (manifest_parts m). part_keys p)"
  by (auto simp: collect_key_prefixes_from_manifest_def set_part_key_list split: prod.splits)

lemma needed_protected: "manifest_needs m k \<Longrightarrow> is_key_protected k (collect_key_prefixes_from_manifest m)"
  by (auto simp: manifest_needs_def part_needs_def is_key_protected_def collect_eq_part_keys)

lemma part_needs_protected: "part_needs p k \<longleftrightarrow> is_key_protected k (part_keys p)"
  by (auto simp: part_needs_def is_key_protected_def)

lemma collect_survivors_Inr:
  assumes "collect_survivors fetch names (P0, B0) = Inr (P, B)"
  shows "P0 \<subseteq> P \<and> B0 \<subseteq> B \<and>
    (\<forall>n \<in> set names. \<exists>m. fetch n = Inr m \<and> collect_key_prefixes_from_manifest m \<subseteq> P
       \<and> collect_incremental_bases m \<subseteq> B)"
  using assms
proof (induction names arbitrary: P0 B0)
  case (Cons n names)
  then obtain m where m: "fetch n = Inr m" by (auto split: sum.splits)
  with Cons.prems Cons.IH[of "P0 \<union> collect_key_prefixes_from_manifest m"
      "B0 \<union> collect_incremental_bases m"]
  show ?case by auto
qed simp

lemma collect_survivors_Inl_iff:
  "(\<exists>e. collect_survivors fetch names (P0, B0) = Inl e) \<longleftrightarrow> (\<exists>n \<in> set names. \<exists>e. fetch n = Inl e)"
  by (induction names arbitrary: P0 B0) (auto split: sum.splits)

lemma collect_valid_Inr:
  assumes "collect_valid fetch names P0 = Inr P"
  shows "P0 \<subseteq> P \<and>
    (\<forall>n \<in> set names. \<exists>m. fetch n = Inr m \<and> collect_key_prefixes_from_manifest m \<subseteq> P)"
  using assms
proof (induction names arbitrary: P0)
  case (Cons n names)
  then obtain m where m: "fetch n = Inr m" by (auto split: sum.splits)
  with Cons.prems Cons.IH[of "P0 \<union> collect_key_prefixes_from_manifest m"] show ?case by auto
qed simp

lemma collect_valid_Inl_iff:
  "(\<exists>e. collect_valid fetch names P0 = Inl e) \<longleftrightarrow> (\<exists>n \<in> set names. \<exists>e. fetch n = Inl e)"
  by (induction names arbitrary: P0) (auto split: sum.splits)

section \<open>What the object store promises\<close>

text \<open>
  \<open>keys w\<close> is the set of keys stored in state \<open>w\<close>. A delete removes only keys it was given;
  a delete that reports success has removed them; a listing names the stored keys with the
  prefix. The first two are S3's DeleteObjects, the last ListObjectsV2.
\<close>

definition deletes_only :: "('w \<Rightarrow> string set) \<Rightarrow> (string list \<Rightarrow> 'w \<Rightarrow> 'r \<times> 'w) \<Rightarrow> bool" where
  "deletes_only keys del \<longleftrightarrow>
     (\<forall>ks w. keys w - set ks \<subseteq> keys (snd (del ks w)) \<and> keys (snd (del ks w)) \<subseteq> keys w)"

definition deletes_given :: "('w \<Rightarrow> string set) \<Rightarrow> (string list \<Rightarrow> 'w \<Rightarrow> (string + unit) \<times> 'w) \<Rightarrow> bool" where
  "deletes_given keys del \<longleftrightarrow>
     (\<forall>ks w. isl (fst (del ks w)) \<or> set ks \<inter> keys (snd (del ks w)) = {})"

definition lists_prefix :: "('w \<Rightarrow> string set) \<Rightarrow> ('w \<Rightarrow> string \<Rightarrow> string + string list) \<Rightarrow> bool" where
  "lists_prefix keys lp \<longleftrightarrow>
     (\<forall>w p. case lp w p of Inl e \<Rightarrow> True | Inr ks \<Rightarrow> set ks = {k \<in> keys w. starts_with k p})"

lemma deletes_onlyD:
  assumes "deletes_only keys del" and "del ks w = (r, w')"
  shows "keys w - set ks \<subseteq> keys w'" and "keys w' \<subseteq> keys w"
  using assms unfolding deletes_only_def by (metis snd_conv)+

lemma deletes_givenD:
  assumes "deletes_given keys del" and "del ks w = (Inr u, w')"
  shows "set ks \<inter> keys w' = {}"
  using assms unfolding deletes_given_def by (metis fst_conv snd_conv sum.disc(2))

lemma lists_prefixD:
  "lists_prefix keys lp \<Longrightarrow> lp w p = Inr ks \<Longrightarrow> set ks = {k \<in> keys w. starts_with k p}"
  by (auto simp: lists_prefix_def split: sum.splits)

lemma deletes_only_partial:
  "deletes_only keys del \<Longrightarrow> deletes_only keys (delete_ignoring_partial del)"
proof -
  have "snd (delete_ignoring_partial del ks w) = snd (del ks w)" for ks w
    by (simp add: delete_ignoring_partial_def split: prod.splits sum.splits)
  then show "deletes_only keys del \<Longrightarrow> deletes_only keys (delete_ignoring_partial del)"
    by (simp add: deletes_only_def)
qed

text \<open>A concrete store, used by the witnesses: the state is the list of keys.\<close>

definition mem_delete :: "string list \<Rightarrow> string list \<Rightarrow> (string + unit) \<times> string list" where
  "mem_delete ks w = (Inr (), filter (\<lambda>k. k \<notin> set ks) w)"

definition mem_list :: "string list \<Rightarrow> string \<Rightarrow> string + string list" where
  "mem_list w p = Inr (filter (\<lambda>k. starts_with k p) w)"

lemma mem_store:
  "deletes_only set mem_delete" "deletes_given set mem_delete" "lists_prefix set mem_list"
  by (auto simp: deletes_only_def deletes_given_def lists_prefix_def mem_delete_def mem_list_def)

section \<open>One candidate\<close>

text \<open>The keys a candidate can lose: unprotected keys under its prefix, and its manifest.\<close>

lemma retention_candidate_cases:
  assumes "retention_candidate lp del P B name (out, w) = (out', w')"
  obtains (kept) "w' = w" and "ro_deleted out' = ro_deleted out"
      and "ro_skipped out' = ro_skipped out \<or> ro_skipped out' = ro_skipped out @ [name]"
  | (data) keys e where "lp w (name @ ''/'') = Inr keys" and "out' = out"
      and "\<forall>k \<in> set keys. k = name @ ''/metadata.json'' \<or> \<not> is_key_protected k P"
      and "del (filter (\<lambda>k. k \<noteq> name @ ''/metadata.json'') keys) w = (Inl e, w')"
  | (manifest) keys u w1 r where "lp w (name @ ''/'') = Inr keys"
      and "\<forall>k \<in> set keys. k = name @ ''/metadata.json'' \<or> \<not> is_key_protected k P"
      and "del (filter (\<lambda>k. k \<noteq> name @ ''/metadata.json'') keys) w = (Inr u, w1)"
      and "del [name @ ''/metadata.json''] w1 = (r, w')"
      and "ro_skipped out' = ro_skipped out"
      and "ro_deleted out' = (if isl r then ro_deleted out else ro_deleted out @ [name])"
proof (cases "name \<in> B \<or> isl (lp w (name @ ''/''))")
  case True
  then show thesis
    using assms by (intro kept) (auto simp: retention_candidate_def isl_def split: if_splits)
next
  case False
  then obtain ks where lp: "lp w (name @ ''/'') = Inr ks" and B: "name \<notin> B"
    by (auto simp: isl_def split: sum.splits) (metis obj_sumE)
  let ?mk = "name @ ''/metadata.json''"
  let ?others = "filter (\<lambda>k. k \<noteq> ?mk) ks"
  show thesis
  proof (cases "ks = [] \<or> filter (\<lambda>k. is_key_protected k P) ?others \<noteq> []")
    case True
    then show thesis
      using assms lp B by (intro kept) (auto simp: retention_candidate_def Let_def split: if_splits)
  next
    case free: False
    then have unp: "\<forall>k \<in> set ks. k = ?mk \<or> \<not> is_key_protected k P"
      by (auto simp: filter_empty_conv)
    then have same: "filter (\<lambda>k. \<not> is_key_protected k P) ?others = ?others"
      by (auto intro: filter_cong)
    from free have none: "\<not> 0 < length (filter (\<lambda>k. is_key_protected k P) ?others)" and "ks \<noteq> []"
      by simp_all
    with assms lp B same have step:
      "(case del ?others w of (Inl e, w1) \<Rightarrow> (out, w1)
        | (Inr _, w1) \<Rightarrow> (case del [?mk] w1 of (Inl e, w2) \<Rightarrow> (out, w2)
            | (Inr _, w2) \<Rightarrow> (out\<lparr>ro_deleted := ro_deleted out @ [name]\<rparr>, w2))) = (out', w')"
      unfolding retention_candidate_def Let_def by (simp only: if_False split_conv sum.case)
    obtain r1 w1 where d1: "del ?others w = (r1, w1)" by (cases "del ?others w")
    obtain r2 w2 where d2: "del [?mk] w1 = (r2, w2)" by (cases "del [?mk] w1")
    show thesis
    proof (cases r1)
      case (Inl e)
      with step d1 lp unp show thesis by (intro data) auto
    next
      case (Inr u)
      with step d1 d2 have "w' = w2" and "out' = (if isl r2 then out else out\<lparr>ro_deleted := ro_deleted out @ [name]\<rparr>)"
        by (cases r2; auto)+
      with Inr d1 d2 lp unp show thesis by (intro manifest) auto
    qed
  qed
qed

lemma candidate_keeps_protected:
  assumes "deletes_only keys del" and "retention_candidate lp del P B name (out, w) = (out', w')"
    and "is_key_protected k P" and "k \<noteq> name @ ''/metadata.json''" and "k \<in> keys w"
  shows "k \<in> keys w'"
  using assms(2)
proof (cases rule: retention_candidate_cases)
  case (data ks e)
  with deletes_onlyD(1)[OF assms(1), of "filter (\<lambda>k. k \<noteq> name @ ''/metadata.json'') ks" w] assms(3-5)
  show ?thesis by fastforce
next
  case (manifest ks u w1 r)
  with deletes_onlyD(1)[OF assms(1), of "filter (\<lambda>k. k \<noteq> name @ ''/metadata.json'') ks" w] assms(3-5)
  have "k \<in> keys w1" by fastforce
  with manifest deletes_onlyD(1)[OF assms(1), of "[name @ ''/metadata.json'']" w1] assms(4)
  show ?thesis by fastforce
qed (use assms in simp)

lemma candidates_keep_protected:
  assumes "deletes_only keys del" and "is_key_protected k P"
    and "\<forall>n \<in> set names. k \<noteq> n @ ''/metadata.json''" and "k \<in> keys w"
  shows "k \<in> keys (snd (fold (retention_candidate lp del P B) names (out, w)))"
  using assms(3,4)
proof (induction names arbitrary: out w)
  case (Cons n names)
  obtain out' w' where s: "retention_candidate lp del P B n (out, w) = (out', w')"
    by (cases "retention_candidate lp del P B n (out, w)")
  with candidate_keeps_protected[OF assms(1) s assms(2)] Cons.prems have "k \<in> keys w'" by simp
  with Cons s show ?case by simp
qed simp

section \<open>Candidates do not interfere\<close>

lemma prefix_dir_inj:
  assumes "CHR ''/'' \<notin> set a" and "CHR ''/'' \<notin> set b"
    and "starts_with k (a @ ''/'')" and "starts_with k (b @ ''/'')"
  shows "a = b"
proof -
  obtain x where "k = a @ CHR ''/'' # x" using assms(3) by (auto simp: prefix_def)
  moreover obtain y where "k = b @ CHR ''/'' # y" using assms(4) by (auto simp: prefix_def)
  ultimately show ?thesis using split_once_append[OF assms(1)] split_once_append[OF assms(2)]
    by (metis option.inject prod.inject)
qed

text \<open>Outside its own prefix a candidate changes nothing, and it never adds a key.\<close>

lemma candidate_frame:
  assumes "deletes_only keys del" and "lists_prefix keys lp"
    and "retention_candidate lp del P B name (out, w) = (out', w')"
  shows "keys w' \<subseteq> keys w" and "keys w - {k. starts_with k (name @ ''/'')} \<subseteq> keys w'"
proof -
  have mk: "starts_with (name @ ''/metadata.json'') (name @ ''/'')" by simp
  have "keys w' \<subseteq> keys w \<and> keys w - {k. starts_with k (name @ ''/'')} \<subseteq> keys w'"
    using assms(3)
  proof (cases rule: retention_candidate_cases)
    case (data ks e)
    with deletes_onlyD[OF assms(1) data(4)] lists_prefixD[OF assms(2) data(1)]
    show ?thesis by auto
  next
    case (manifest ks u w1 r)
    with deletes_onlyD[OF assms(1) manifest(3)] deletes_onlyD[OF assms(1) manifest(4)]
      lists_prefixD[OF assms(2) manifest(1)] mk
    show ?thesis by auto
  qed simp
  then show "keys w' \<subseteq> keys w" and "keys w - {k. starts_with k (name @ ''/'')} \<subseteq> keys w'"
    by simp_all
qed

lemma candidates_frame:
  assumes "deletes_only keys del" and "lists_prefix keys lp"
    and "CHR ''/'' \<notin> set n" and "\<forall>c \<in> set names. CHR ''/'' \<notin> set c \<and> c \<noteq> n"
    and "fold (retention_candidate lp del P B) names (out, w) = (out', w')"
  shows "{k \<in> keys w'. starts_with k (n @ ''/'')} = {k \<in> keys w. starts_with k (n @ ''/'')}
    \<and> keys w' \<subseteq> keys w
    \<and> (n \<in> set (ro_deleted out') \<longleftrightarrow> n \<in> set (ro_deleted out))
    \<and> (n \<in> set (ro_skipped out') \<longleftrightarrow> n \<in> set (ro_skipped out))"
  using assms(4,5)
proof (induction names arbitrary: out w)
  case (Cons c names)
  obtain o1 w1 where s: "retention_candidate lp del P B c (out, w) = (o1, w1)"
    by (cases "retention_candidate lp del P B c (out, w)")
  have cn: "CHR ''/'' \<notin> set c" "c \<noteq> n" using Cons.prems by simp_all
  have "\<not> starts_with k (c @ ''/'')" if "starts_with k (n @ ''/'')" for k
    using prefix_dir_inj[OF cn(1) assms(3) _ that] cn(2) by blast
  with candidate_frame[OF assms(1,2) s]
  have "{k \<in> keys w1. starts_with k (n @ ''/'')} = {k \<in> keys w. starts_with k (n @ ''/'')}"
    and "keys w1 \<subseteq> keys w" by blast+
  moreover have "(n \<in> set (ro_deleted o1) \<longleftrightarrow> n \<in> set (ro_deleted out))
    \<and> (n \<in> set (ro_skipped o1) \<longleftrightarrow> n \<in> set (ro_skipped out))"
    using s by (cases rule: retention_candidate_cases) (use cn in auto)
  ultimately show ?case
    using Cons.IH[of o1 w1] Cons.prems s by auto
qed simp

text \<open>What a pass does to one candidate's own keys.\<close>

lemma candidate_own:
  assumes "deletes_only keys del" and "deletes_given keys del" and "lists_prefix keys lp"
    and "retention_candidate lp del P B n (out, w) = (out', w')"
    and "n \<notin> set (ro_deleted out)" and "n \<notin> set (ro_skipped out)"
  shows "(n \<in> set (ro_deleted out') \<longrightarrow> {k \<in> keys w'. starts_with k (n @ ''/'')} = {})
    \<and> (n \<in> set (ro_skipped out') \<longrightarrow> keys w' = keys w)
    \<and> (n @ ''/metadata.json'' \<in> keys w - keys w' \<longrightarrow> {k \<in> keys w'. starts_with k (n @ ''/'')} = {})"
  using assms(4)
proof (cases rule: retention_candidate_cases)
  case kept
  with assms(5,6) show ?thesis by auto
next
  case (data ks e)
  with deletes_onlyD[OF assms(1) data(4)] assms(5,6) show ?thesis by auto
next
  case (manifest ks u w1 r)
  let ?mk = "n @ ''/metadata.json''"
  have listed: "set ks = {k \<in> keys w. starts_with k (n @ ''/'')}"
    by (rule lists_prefixD[OF assms(3) manifest(1)])
  have w1: "set (filter (\<lambda>k. k \<noteq> ?mk) ks) \<inter> keys w1 = {}" and sub: "keys w1 \<subseteq> keys w" "keys w' \<subseteq> keys w1"
    using deletes_givenD[OF assms(2) manifest(3)] deletes_onlyD[OF assms(1) manifest(3)]
      deletes_onlyD[OF assms(1) manifest(4)] by auto
  have "{k \<in> keys w'. starts_with k (n @ ''/'')} = {}" if "?mk \<notin> keys w'"
    using that w1 sub listed by auto
  moreover have "?mk \<notin> keys w'" if "\<not> isl r"
    using deletes_givenD[OF assms(2), of "[?mk]" w1 _ w'] manifest(4) that by (cases r) auto
  ultimately show ?thesis using manifest(5,6) assms(5,6) by (auto split: if_splits)
qed

text \<open>A key that a surviving manifest protects is kept by the whole pass.\<close>

lemma survivor_keys_kept:
  assumes "deletes_only keys del"
    and "n \<in> set (rp_surviving plan)" and "fm w n = Inr m"
    and "is_key_protected k (collect_key_prefixes_from_manifest m)"
    and "k \<in> keys w" and "list_all (\<lambda>c. k \<noteq> c @ ''/metadata.json'') (rp_to_delete plan)"
  shows "k \<in> keys (snd (retention_remote_inner plan fm lp del w))"
proof (cases "collect_survivors (fm w) (rp_surviving plan) ({}, {})")
  case (Inl e)
  with assms(5) show ?thesis by (simp add: retention_remote_inner_def)
next
  case (Inr r)
  obtain P B where r: "r = (P, B)" by (cases r)
  have "collect_key_prefixes_from_manifest m \<subseteq> P"
    using collect_survivors_Inr[of "fm w" "rp_surviving plan" "{}" "{}" P B] Inr r assms(2,3) by fastforce
  with assms(4) have "is_key_protected k P" by (rule s3_guard.protects_mono)
  then show ?thesis
    using candidates_keep_protected[OF assms(1), of k P "rp_to_delete plan" w lp B] assms(5,6) Inr r
    by (simp add: retention_remote_inner_def case_prod_beta list_all_iff)
qed

section \<open>Properties\<close>

text \<open>C27. Retention fails closed: it returns an error exactly when the manifest of some
  surviving backup cannot be read, and then nothing at all has been deleted.\<close>

theorem retention_fails_closed:
  "case retention_remote_inner plan fm lp del w of
     (Inl e, w') \<Rightarrow> w' = w \<and> list_ex (\<lambda>n. isl (fm w n)) (rp_surviving plan)
   | (Inr out, w') \<Rightarrow> list_all (\<lambda>n. \<not> isl (fm w n)) (rp_surviving plan)"
proof (cases "collect_survivors (fm w) (rp_surviving plan) ({}, {})")
  case (Inl e)
  then have "\<exists>n \<in> set (rp_surviving plan). \<exists>e. fm w n = Inl e"
    using collect_survivors_Inl_iff[of "fm w" "rp_surviving plan" "{}" "{}"] by blast
  with Inl show ?thesis by (auto simp: retention_remote_inner_def list_ex_iff isl_def)
next
  case (Inr r)
  then have "\<not> (\<exists>n \<in> set (rp_surviving plan). \<exists>e. fm w n = Inl e)"
    using collect_survivors_Inl_iff[of "fm w" "rp_surviving plan" "{}" "{}"] by simp
  with Inr show ?thesis
    by (auto simp: retention_remote_inner_def list_all_iff isl_def split: prod.splits)
qed

text \<open>C1. Retention never deletes data a surviving backup references: a stored key that some
  surviving manifest names, exactly or through one of its directory entries, is still stored
  after the pass, whatever the outcome of the individual S3 calls. (The manifests of the
  deleted backups themselves are the only keys deleted without consulting the guard.)\<close>

theorem retention_keeps_survivors:
  assumes "deletes_only keys del"
    and "n \<in> set (rp_surviving plan)" and "fm w n = Inr m"
    and "manifest_needs m k"
    and "k \<in> keys w" and "list_all (\<lambda>c. k \<noteq> c @ ''/metadata.json'') (rp_to_delete plan)"
  shows "k \<in> keys (snd (retention_remote_inner plan fm lp del w))"
  using survivor_keys_kept[where n = n and plan = plan and fm = fm and m = m, OF assms(1-3) needed_protected[OF assms(4)]] assms(5,6)
  by blast

theorem retention_keeps_survivors_witness:
  "''base/data/db/t/default/all_1_1_0.tar.lz4'' \<in> set (snd (retention_remote_inner
     \<lparr>rp_to_delete = [''base'', ''old''], rp_surviving = [''incr'']\<rparr>
     (\<lambda>w n. Inr (manifest_with_part n ((PartInfo_new ''all_1_1_0'' 10 7)
        \<lparr>pi_backup_key := ''base/data/db/t/default/all_1_1_0.tar.lz4''\<rparr>)))
     mem_list mem_delete
     [''base/data/db/t/default/all_1_1_0.tar.lz4'', ''base/metadata.json'', ''old/metadata.json'']))"
  by (rule retention_keeps_survivors[where n = "''incr''", OF mem_store(1) _ refl])
    (simp_all add: manifest_needs_def manifest_parts_with_part part_needs_def part_keys_def PartInfo_new_def)



text \<open>The retention plan splits the valid backups, oldest first, into the ones to delete
  and the newest \<open>keep\<close>: no planned deletion is newer than a survivor, and broken backups are
  in neither list.\<close>

theorem plan_retention_deletions_correct:
  "\<exists>old new. rp_to_delete (plan_retention_deletions bs keep) = map bs_name old
     \<and> rp_surviving (plan_retention_deletions bs keep) = map bs_name new
     \<and> mset (old @ new) = mset (filter (\<lambda>b. \<not> bs_is_broken b) bs)
     \<and> length new = min keep (length (filter (\<lambda>b. \<not> bs_is_broken b) bs))
     \<and> list_all (\<lambda>a. list_all (\<lambda>b. bs_timestamp a \<le> bs_timestamp b) new) old"
proof -
  let ?v = "sort_by_key bs_timestamp (filter (\<lambda>b. \<not> bs_is_broken b) bs)"
  let ?n = "length ?v - keep"
  have "sorted_wrt (\<lambda>a b. bs_timestamp a \<le> bs_timestamp b) (take ?n ?v @ drop ?n ?v)"
    unfolding append_take_drop_id by (rule sorted_sort_by_key)
  then have "list_all (\<lambda>a. list_all (\<lambda>b. bs_timestamp a \<le> bs_timestamp b) (drop ?n ?v)) (take ?n ?v)"
    unfolding sorted_wrt_append by (simp add: list_all_iff)
  moreover have "mset (take ?n ?v @ drop ?n ?v) = mset (filter (\<lambda>b. \<not> bs_is_broken b) bs)"
    unfolding append_take_drop_id by simp
  moreover have "length (drop ?n ?v) = min keep (length (filter (\<lambda>b. \<not> bs_is_broken b) bs))"
    by (simp add: min_def)
  ultimately show ?thesis
    unfolding plan_retention_deletions_def Let_def by (metis RetentionPlan.select_convs)
qed

section \<open>Partial failures of a batch delete\<close>

text \<open>A store that refuses to delete one key, as DeleteObjects may.\<close>

definition sticky_delete :: "string \<Rightarrow> string list \<Rightarrow> string list \<Rightarrow> (string + nat) \<times> string list" where
  "sticky_delete stuck ks w =
     (Inr (if stuck \<in> set ks then 1 else 0), filter (\<lambda>k. k \<notin> set ks \<or> k = stuck) w)"

definition mem_objects :: "string list \<Rightarrow> string \<Rightarrow> string + S3Object list" where
  "mem_objects w p =
     Inr (map (\<lambda>k. \<lparr>s3_key = k, s3_size = 0, s3_last_modified = Some 0\<rparr>) (filter (\<lambda>k. starts_with k p) w))"

definition mem_listing :: "string list \<Rightarrow> string list \<Rightarrow> string + BackupSummary list" where
  "mem_listing names w =
     list_remote '''' (Inr (map (\<lambda>n. n @ ''/'') names))
       (\<lambda>n. if n @ ''/metadata.json'' \<in> set w then Parsed (blank_manifest n) else GetError ''NoSuchKey'')"

text \<open>A partial failure of a batch delete orphans data: when S3 deletes some keys of a
  backup and refuses others, \<^verbatim>\<open>retention_remote\<close> still deletes the manifest and counts the
  backup as deleted. The data key stays, the backup now lists as broken, and the next retention
  pass, which plans over valid backups only, leaves it there.\<close>

theorem retention_partial_delete_orphans:
  "retention_remote '''' (mem_listing [''a'', ''b'']) (\<lambda>w n. Inr (blank_manifest n)) mem_objects
     (sticky_delete ''a/y.tar'') 1 [''a/metadata.json'', ''a/x.tar'', ''a/y.tar'', ''b/metadata.json'']
     = (Inr 1, [''a/y.tar'', ''b/metadata.json''])
   \<and> retention_remote '''' (mem_listing [''a'', ''b'']) (\<lambda>w n. Inr (blank_manifest n)) mem_objects
     (sticky_delete ''a/y.tar'') 1 [''a/y.tar'', ''b/metadata.json'']
     = (Inr 0, [''a/y.tar'', ''b/metadata.json''])"
  by code_simp

section \<open>Cleaning broken backups\<close>

text \<open>One broken backup loses only keys the planner listed: unprotected ones under its prefix,
  and only when its lock is not live.\<close>

lemma clean_broken_one_cases:
  assumes "clean_broken_one pre lo del live now age P n (d, w) = (d', w')"
  obtains (kept) "w' = w" and "d' = d"
  | (cleaned) objs ks r newest where "lo w (n @ ''/'') = Inr objs" and "\<not> live w n"
      and "newest_last_modified objs = Some newest"
      and "unat age \<le> nat (max (i64_saturating_sub now newest) 0)"
      and "ks = filter (\<lambda>k. \<not> is_key_protected k P) (map (\<lambda>obj. strip_s3_prefix (s3_key obj) pre) objs)"
      and "delete_ignoring_partial del ks w = (r, w')"
proof (cases "lo w (n @ ''/'')")
  case (Inl e)
  with assms show thesis by (intro kept) (simp_all add: clean_broken_one_def)
next
  case (Inr objs)
  let ?ks = "map (\<lambda>obj. strip_s3_prefix (s3_key obj) pre) objs"
  let ?plan = "plan_clean_broken_deletion ?ks (newest_last_modified objs) now age (live w n) P"
  have run: "(let (ok, w') = apply_clean_broken_plan ?plan (delete_ignoring_partial del) w
      in (if ok then d + 1 else d, w')) = (d', w')"
    using assms Inr by (simp add: clean_broken_one_def)
  show thesis
  proof (cases ?plan)
    case (Skip r)
    with run show thesis by (intro kept) (simp_all add: apply_clean_broken_plan_def)
  next
    case (Delete ks)
    obtain r w1 where d: "delete_ignoring_partial del ks w = (r, w1)"
      by (cases "delete_ignoring_partial del ks w")
    have p: "\<not> live w n \<and> (\<exists>newest. newest_last_modified objs = Some newest \<and>
        unat age \<le> nat (max (i64_saturating_sub now newest) 0)) \<and>
        ks = filter (\<lambda>k. \<not> is_key_protected k P) ?ks"
      using Delete by (auto simp: plan_clean_broken_deletion_def Let_def split: if_splits option.splits)
    moreover have "w1 = w'"
      using run Delete d by (cases r) (simp_all add: apply_clean_broken_plan_def)
    ultimately show thesis using Inr d by (auto intro: cleaned)
  qed
qed

lemma clean_broken_one_keeps:
  assumes "deletes_only keys del" and "clean_broken_one pre lo del live now age P n (d, w) = (d', w')"
    and "is_key_protected k P" and "k \<in> keys w"
  shows "k \<in> keys w'"
  using assms(2)
proof (cases rule: clean_broken_one_cases)
  case (cleaned objs ks r newest)
  have "k \<notin> set ks" using cleaned(5) assms(3) by simp
  with deletes_onlyD(1)[OF deletes_only_partial[OF assms(1)] cleaned(6)] assms(4) show ?thesis by blast
qed (use assms(4) in simp)

lemma clean_broken_fold_keeps:
  assumes "deletes_only keys del" and "is_key_protected k P" and "k \<in> keys w"
  shows "k \<in> keys (snd (fold (clean_broken_one pre lo del live now age P) names (d, w)))"
  using assms(3)
proof (induction names arbitrary: d w)
  case (Cons n names)
  obtain d' w' where s: "clean_broken_one pre lo del live now age P n (d, w) = (d', w')"
    by (cases "clean_broken_one pre lo del live now age P n (d, w)")
  with clean_broken_one_keeps[OF assms(1) s assms(2) Cons.prems] Cons.IH[of w' d'] show ?case by simp
qed simp

lemma clean_broken_one_live:
  assumes "deletes_only keys del" and "lists_prefix keys (list_relative pre lo)"
    and "clean_broken_one pre lo del live now age P c (d, w) = (d', w')"
    and "CHR ''/'' \<notin> set c" and "CHR ''/'' \<notin> set n" and "live w n"
    and "k \<in> keys w" and "starts_with k (n @ ''/'')"
  shows "k \<in> keys w'"
  using assms(3)
proof (cases rule: clean_broken_one_cases)
  case (cleaned objs ks r newest)
  have "c \<noteq> n" using cleaned(2) assms(6) by auto
  then have "\<not> starts_with k (c @ ''/'')" using prefix_dir_inj[OF assms(4,5) _ assms(8)] by blast
  moreover have "list_relative pre lo w (c @ ''/'') = Inr (map (\<lambda>obj. strip_s3_prefix (s3_key obj) pre) objs)"
    using cleaned(1) by (simp add: list_relative_def)
  ultimately have "k \<notin> set ks" using lists_prefixD[OF assms(2)] cleaned(5) by fastforce
  with deletes_onlyD(1)[OF deletes_only_partial[OF assms(1)] cleaned(6)] assms(7) show ?thesis by blast
qed (use assms(7) in simp)

lemma clean_broken_fold_live:
  assumes "deletes_only keys del" and "lists_prefix keys (list_relative pre lo)"
    and "list_all (\<lambda>c. CHR ''/'' \<notin> set c) names" and "CHR ''/'' \<notin> set n" and "\<And>w. live w n"
    and "k \<in> keys w" and "starts_with k (n @ ''/'')"
  shows "k \<in> keys (snd (fold (clean_broken_one pre lo del live now age P) names (d, w)))"
  using assms(3,6)
proof (induction names arbitrary: d w)
  case (Cons c names)
  obtain d' w' where s: "clean_broken_one pre lo del live now age P c (d, w) = (d', w')"
    by (cases "clean_broken_one pre lo del live now age P c (d, w)")
  with clean_broken_one_live[OF assms(1,2) s _ assms(4,5) _ assms(7)] Cons show ?case by simp
qed simp

text \<open>C20. Cleaning broken remote backups fails closed (an error leaves the store as it was, and
  a run that cleans has read every valid manifest) and never deletes a key a valid backup
  references, however broken and old the backup it lies under.\<close>

theorem clean_broken_remote_safe:
  assumes "deletes_only keys del" and "k \<in> keys w"
    and "listing w = Inr backups" and "b \<in> set backups" and "\<not> bs_is_broken b"
    and "fm w (bs_name b) = Inr m" and "manifest_needs m k"
  shows "k \<in> keys (snd (clean_broken_remote pre listing fm lo del live now age w))
    \<and> (case clean_broken_remote pre listing fm lo del live now age w of
         (Inl e, w') \<Rightarrow> w' = w
       | (Inr n, w') \<Rightarrow> n = 0 \<and> w' = w \<or> list_all (\<lambda>b. bs_is_broken b \<or> \<not> isl (fm w (bs_name b))) backups)"
proof -
  let ?names = "map bs_name (filter (\<lambda>b. \<not> bs_is_broken b) backups)"
  show ?thesis
  proof (cases "filter bs_is_broken backups = [] \<or> isl (collect_valid (fm w) ?names {})")
    case True
    then have "clean_broken_remote pre listing fm lo del live now age w = (Inr 0, w)
        \<or> (\<exists>e. clean_broken_remote pre listing fm lo del live now age w = (Inl e, w))"
      using assms(3) by (auto simp: clean_broken_remote_def Let_def isl_def)
    then show ?thesis using assms(2) by auto
  next
    case False
    then obtain P where P: "collect_valid (fm w) ?names {} = Inr P"
      by (cases "collect_valid (fm w) ?names {}") auto
    have readable: "\<not> (\<exists>n \<in> set ?names. \<exists>e. fm w n = Inl e)"
      using collect_valid_Inl_iff[of "fm w" ?names "{}"] P by simp
    have "bs_name b \<in> set ?names" using assms(4,5) by auto
    with collect_valid_Inr[OF P] assms(6) have "collect_key_prefixes_from_manifest m \<subseteq> P" by fastforce
    with needed_protected[OF assms(7)] have "is_key_protected k P" by (rule s3_guard.protects_mono)
    note kept = clean_broken_fold_keeps[OF assms(1) this assms(2),
        of pre lo live now age "map bs_name (filter bs_is_broken backups)" 0]
    then show ?thesis
      using False P assms(3) readable
      by (auto simp: clean_broken_remote_def Let_def case_prod_beta list_all_iff isl_def)
  qed
qed

theorem clean_broken_remote_safe_witness:
  "''a/y.tar'' \<in> set (snd (clean_broken_remote '''' (mem_listing [''a'', ''b''])
     (\<lambda>w n. Inr (manifest_with_part n ((PartInfo_new ''p'' 1 1)\<lparr>pi_backup_key := ''a/y.tar''\<rparr>)))
     mem_objects (sticky_delete ''none'') (\<lambda>_ _. False) 1000 10 [''a/x.tar'', ''a/y.tar'', ''b/metadata.json'']))"
proof -
  have del: "deletes_only set (sticky_delete ''none'')"
    by (auto simp: deletes_only_def sticky_delete_def)
  have bs: "mem_listing [''a'', ''b''] [''a/x.tar'', ''a/y.tar'', ''b/metadata.json''] =
     Inr [broken_summary ''a'' ''metadata.json not found: NoSuchKey'', summary_from_manifest (blank_manifest ''b'') ''b'']"
    by code_simp
  note safe = clean_broken_remote_safe[where b = "summary_from_manifest (blank_manifest ''b'') ''b''"
      and fm = "\<lambda>w n. Inr (manifest_with_part n ((PartInfo_new ''p'' 1 1)\<lparr>pi_backup_key := ''a/y.tar''\<rparr>))"
      and listing = "mem_listing [''a'', ''b'']" and w = "[''a/x.tar'', ''a/y.tar'', ''b/metadata.json'']",
      OF del _ bs _ _ refl]
  show ?thesis
    by (rule conjunct1[OF safe])
      (auto simp: summary_from_manifest_def manifest_needs_def manifest_parts_with_part part_needs_def part_keys_def
        PartInfo_new_def)
qed

text \<open>Cleaning never touches a backup that a live process is still writing: while the lock
  of a backup is live, every key under its prefix is kept, whether or not its manifest exists.\<close>

theorem clean_broken_remote_keeps_live:
  assumes "deletes_only keys del" and "lists_prefix keys (list_relative pre lo)"
    and "\<And>bs. listing w = Inr bs \<Longrightarrow> list_all (\<lambda>b. CHR ''/'' \<notin> set (bs_name b)) bs"
    and "CHR ''/'' \<notin> set n" and "\<And>w. live w n" and "k \<in> keys w" and "starts_with k (n @ ''/'')"
  shows "k \<in> keys (snd (clean_broken_remote pre listing fm lo del live now age w))"
proof (cases "listing w")
  case (Inl e)
  with assms(6) show ?thesis by (simp add: clean_broken_remote_def)
next
  case (Inr bs)
  let ?broken = "map bs_name (filter bs_is_broken bs)"
  have "list_all (\<lambda>c. CHR ''/'' \<notin> set c) ?broken"
    using assms(3)[OF Inr] by (auto simp: list_all_iff)
  note live = clean_broken_fold_live[of keys del pre lo ?broken n live k w, OF assms(1,2) this assms(4-7)]
  show ?thesis
    using live[of now age _ 0] Inr assms(6)
    by (simp add: clean_broken_remote_def Let_def case_prod_beta split: sum.splits)
qed

theorem clean_broken_remote_keeps_live_witness:
  "''a/x.tar'' \<in> set (snd (clean_broken_remote '''' (mem_listing [''a'', ''b''])
     (\<lambda>w n. Inr (blank_manifest n)) mem_objects (sticky_delete ''none'') (\<lambda>_ n. n = ''a'') 1000 10
     [''a/x.tar'', ''b/metadata.json'']))"
proof (rule clean_broken_remote_keeps_live[where n = "''a''"])
  show "deletes_only set (sticky_delete ''none'')"
    by (auto simp: deletes_only_def sticky_delete_def)
  show "lists_prefix set (list_relative [] mem_objects)"
    by (auto simp: lists_prefix_def list_relative_def mem_objects_def strip_s3_prefix_def)
  have "mem_listing [''a'', ''b''] [''a/x.tar'', ''b/metadata.json''] =
     Inr [broken_summary ''a'' ''metadata.json not found: NoSuchKey'', summary_from_manifest (blank_manifest ''b'') ''b'']"
    by code_simp
  then show "list_all (\<lambda>b. CHR ''/'' \<notin> set (bs_name b)) bs"
    if "mem_listing [''a'', ''b''] [''a/x.tar'', ''b/metadata.json''] = Inr bs" for bs
    using that by (auto simp: broken_summary_def summary_from_manifest_def)
qed simp_all

end
