(* ===== verification/Object_Disk.thy ===== *)
theory Object_Disk
  imports Manifest
begin

text \<open>
  Model of \<^verbatim>\<open>src/object_disk.rs\<close> and of \<^verbatim>\<open>to_disk_relative_keys\<close> of
  \<^verbatim>\<open>src/restore/attach.rs\<close>: ClickHouse's object-disk metadata files (parser, printer and
  the rewriting done by restore), the keys an object has on the source disk, in the backup and
  on the destination disk, and the classification of disks.

  Errors are values of \<open>meta_error\<close>; \<open>CapacityOverflow\<close> is the panic of
  \<^verbatim>\<open>Vec::with_capacity\<close>. What the ClickHouse configuration files say is a parameter of
  \<open>build_disk_remote_paths\<close>, and so is \<^verbatim>\<open>str::to_lowercase\<close> (the Unicode tables).
\<close>

section \<open>Definitions\<close>

record ObjectRef =
  or_relative_path :: string
  or_size :: u64

record ObjectDiskMetadata =
  om_version :: u32
  om_objects :: "ObjectRef list"
  om_total_size :: u64
  om_ref_count :: u32
  om_read_only :: bool
  om_inline_data :: "string option"

datatype meta_error =
  EmptyFile | BadVersion | UnsupportedVersion u32 | TooShort nat | BadHeader | BadObjectCount
| BadTotalSize | CapacityOverflow | Truncated | BadObjectLine | BadObjectSize | BadRefCount

abbreviation TAB :: char where "TAB \<equiv> CHR 0x09"
abbreviation LF :: char where "LF \<equiv> CHR 0x0A"
abbreviation CR :: char where "CR \<equiv> CHR 0x0D"

text \<open>\<^verbatim>\<open>str::lines\<close>: a line ends in LF or CR LF; the last line need not.\<close>

definition strip_cr :: "string \<Rightarrow> string" where
  "strip_cr l = (case strip_suffix [CR] l of Some l' \<Rightarrow> l' | None \<Rightarrow> l)"

definition str_lines :: "string \<Rightarrow> string list" where
  "str_lines s =
     (let ls = split_on LF s
      in map strip_cr (butlast ls) @ (if last ls = [] then [] else [last ls]))"

subsection \<open>Parsing\<close>

fun parse_objects :: "nat \<Rightarrow> string list \<Rightarrow> meta_error + ObjectRef list" where
  "parse_objects 0 ls = Inr []"
| "parse_objects (Suc n) [] = Inl Truncated"
| "parse_objects (Suc n) (l # ls) =
     (let obj_parts = split_on TAB l in
      if length obj_parts < 2 then Inl BadObjectLine
      else case parse_u64 (trim (obj_parts ! 0)) of
        None \<Rightarrow> Inl BadObjectSize
      | Some sz \<Rightarrow>
          (case parse_objects n ls of
             Inl e \<Rightarrow> Inl e
           | Inr objs \<Rightarrow> Inr (\<lparr>or_relative_path = trim (obj_parts ! 1), or_size = sz\<rparr> # objs)))"

lemma parse_objects_code [code]:
  "parse_objects n ls =
     (if n = 0 then Inr []
      else case ls of
        [] \<Rightarrow> Inl Truncated
      | l # ls' \<Rightarrow>
          (let obj_parts = split_on TAB l in
           if length obj_parts < 2 then Inl BadObjectLine
           else case parse_u64 (trim (obj_parts ! 0)) of
             None \<Rightarrow> Inl BadObjectSize
           | Some sz \<Rightarrow>
               (case parse_objects (n - 1) ls' of
                  Inl e \<Rightarrow> Inl e
                | Inr objs \<Rightarrow> Inr (\<lparr>or_relative_path = trim (obj_parts ! 1), or_size = sz\<rparr> # objs))))"
  by (induction n ls rule: parse_objects.induct) (simp_all add: Let_def split: option.split)

definition parse_tail ::
    "u32 \<Rightarrow> u64 \<Rightarrow> ObjectRef list \<Rightarrow> string list \<Rightarrow> meta_error + ObjectDiskMetadata" where
  "parse_tail version total_size objects rest =
     (case (if rest \<noteq> [] then parse_u32 (trim (rest ! 0)) else Some 0) of
        None \<Rightarrow> Inl BadRefCount
      | Some ref_count \<Rightarrow>
          Inr \<lparr>om_version = version, om_objects = objects, om_total_size = total_size,
               om_ref_count = ref_count,
               om_read_only = (3 \<le> version \<and> 1 < length rest \<and> trim (rest ! 1) = ''1''),
               om_inline_data =
                 (if 4 \<le> version \<and> 2 < length rest \<and> rest ! 2 \<noteq> [] then Some (rest ! 2) else None)\<rparr>)"

definition parse_metadata :: "string \<Rightarrow> meta_error + ObjectDiskMetadata" where
  "parse_metadata content =
     (let lines = str_lines content in
      if lines = [] then Inl EmptyFile
      else case parse_u32 (trim (lines ! 0)) of
        None \<Rightarrow> Inl BadVersion
      | Some version \<Rightarrow>
          if \<not> (1 \<le> version \<and> version \<le> 5) then Inl (UnsupportedVersion version)
          else if length lines < 3 then Inl (TooShort (length lines))
          else let header_parts = split_on TAB (lines ! 1) in
            if length header_parts < 2 then Inl BadHeader
            else case parse_u64 (trim (header_parts ! 0)) of
              None \<Rightarrow> Inl BadObjectCount
            | Some object_count \<Rightarrow>
                (case parse_u64 (trim (header_parts ! 1)) of
                   None \<Rightarrow> Inl BadTotalSize
                 | Some total_size \<Rightarrow>
                     if 2 ^ 63 - 1 < unat object_count * 32 then Inl CapacityOverflow
                     else (case parse_objects (unat object_count) (drop 2 lines) of
                        Inl e \<Rightarrow> Inl e
                      | Inr objects \<Rightarrow>
                          parse_tail version total_size objects (drop (2 + unat object_count) lines))))"

subsection \<open>Keys\<close>

definition join_disk_key :: "string \<Rightarrow> string \<Rightarrow> string" where
  "join_disk_key disk_key_prefix disk_relative =
     (let pre = trim_char CHR ''/'' disk_key_prefix
      in if pre = [] then disk_relative else pre @ ''/'' @ disk_relative)"

definition disk_relative_key :: "string \<Rightarrow> string \<Rightarrow> string" where
  "disk_relative_key stored_key disk_key_prefix =
     (let pre = trim_char CHR ''/'' disk_key_prefix
      in if pre = [] then stored_key
         else case strip_prefix (pre @ ''/'') stored_key of Some r \<Rightarrow> r | None \<Rightarrow> stored_key)"

definition upload_source_key :: "string \<Rightarrow> string \<Rightarrow> string" where
  "upload_source_key disk_relative source_prefix = join_disk_key source_prefix disk_relative"

record RestoreObjectKeys =
  rk_copy_dest_relative_key :: string
  rk_metadata_key :: string

definition restore_object_keys :: "u32 \<Rightarrow> string \<Rightarrow> string \<Rightarrow> string \<Rightarrow> RestoreObjectKeys" where
  "restore_object_keys version disk_relative uuid_prefix dest_disk_key_prefix =
     (let copy_dest = trim_end_char CHR ''/'' uuid_prefix @ ''/'' @ disk_relative
      in \<lparr>rk_copy_dest_relative_key = copy_dest,
          rk_metadata_key = (if 5 \<le> version then join_disk_key dest_disk_key_prefix copy_dest else copy_dest)\<rparr>)"

subsection \<open>Printing\<close>

definition object_line :: "u64 \<Rightarrow> string \<Rightarrow> string" where
  "object_line sz key = word_to_string sz @ [TAB] @ key @ [LF]"

definition rewrite_metadata :: "ObjectDiskMetadata \<Rightarrow> string \<Rightarrow> string \<Rightarrow> string" where
  "rewrite_metadata metadata uuid_prefix dest_disk_key_prefix =
     word_to_string (om_version metadata) @ [LF]
     @ nat_to_string (length (om_objects metadata)) @ [TAB] @ word_to_string (om_total_size metadata) @ [LF]
     @ concat (map (\<lambda>obj. object_line (or_size obj)
          (rk_metadata_key (restore_object_keys (om_version metadata) (or_relative_path obj)
             uuid_prefix dest_disk_key_prefix))) (om_objects metadata))
     @ ''0'' @ [LF]
     @ (if 3 \<le> om_version metadata then ''0'' @ [LF] else [])
     @ (if 4 \<le> om_version metadata then
          (case om_inline_data metadata of Some d \<Rightarrow> d @ [LF] | None \<Rightarrow> [LF]) else [])"

definition serialize_metadata :: "ObjectDiskMetadata \<Rightarrow> string" where
  "serialize_metadata metadata =
     word_to_string (om_version metadata) @ [LF]
     @ nat_to_string (length (om_objects metadata)) @ [TAB] @ word_to_string (om_total_size metadata) @ [LF]
     @ concat (map (\<lambda>obj. object_line (or_size obj) (or_relative_path obj)) (om_objects metadata))
     @ word_to_string (om_ref_count metadata) @ [LF]
     @ (if 3 \<le> om_version metadata then (if om_read_only metadata then ''1'' else ''0'') @ [LF] else [])
     @ (if 4 \<le> om_version metadata then
          (case om_inline_data metadata of Some d \<Rightarrow> d @ [LF] | None \<Rightarrow> [LF]) else [])"

subsection \<open>Restoring the manifest's keys of a v5 file\<close>

datatype relative_error = NoMatch string | Ambiguous string nat

definition to_disk_relative_key :: "S3ObjectInfo list \<Rightarrow> ObjectRef \<Rightarrow> relative_error + ObjectRef" where
  "to_disk_relative_key manifest_objects obj =
     (let cands = filter (\<lambda>m. or_relative_path obj = so_path m \<or>
            (case strip_suffix (so_path m) (or_relative_path obj) of
               Some pre \<Rightarrow> ends_with pre ''/'' | None \<Rightarrow> False)) manifest_objects;
          cands' = (if 1 < length cands then filter (\<lambda>m. so_size m = or_size obj) cands else cands)
      in case cands' of
           [only] \<Rightarrow> Inr (obj\<lparr>or_relative_path := so_path only\<rparr>)
         | [] \<Rightarrow> Inl (NoMatch (or_relative_path obj))
         | _ \<Rightarrow> Inl (Ambiguous (or_relative_path obj) (length cands')))"

definition to_disk_relative_keys ::
    "ObjectDiskMetadata \<Rightarrow> S3ObjectInfo list \<Rightarrow> relative_error + ObjectDiskMetadata" where
  "to_disk_relative_keys metadata manifest_objects =
     (if om_version metadata < 5 then Inr metadata
      else case traverse (to_disk_relative_key manifest_objects) (om_objects metadata) of
        Inl e \<Rightarrow> Inl e
      | Inr objs \<Rightarrow> Inr (metadata\<lparr>om_objects := objs\<rparr>))"

subsection \<open>Disk types\<close>

definition ascii_lower :: "char \<Rightarrow> char" where
  "ascii_lower c = (let n = (of_char c :: nat) in if 65 \<le> n \<and> n \<le> 90 then char_of (n + 32) else c)"

definition to_ascii_lowercase :: "string \<Rightarrow> string" where
  "to_ascii_lowercase s = map ascii_lower s"

definition is_s3_disk :: "string \<Rightarrow> bool" where
  "is_s3_disk disk_type =
     (let lower = to_ascii_lowercase disk_type
      in lower = ''s3'' \<or> lower = ''object_storage'' \<or> lower = ''objectstorage'')"

record DiskRow =
  dk_name :: string
  dk_path :: string
  dk_disk_type :: string
  dk_remote_path :: string
  dk_object_storage_type :: string
  dk_cache_path :: string

definition is_cache_disk :: "DiskRow \<Rightarrow> bool" where
  "is_cache_disk disk \<longleftrightarrow> dk_cache_path disk \<noteq> []"

definition normalize_disk_type :: "(string \<Rightarrow> string) \<Rightarrow> string \<Rightarrow> string \<Rightarrow> string" where
  "normalize_disk_type to_lowercase disk_type object_storage_type =
     (if to_ascii_lowercase disk_type = ''objectstorage'' \<and> object_storage_type \<noteq> []
      then to_ascii_lowercase object_storage_type else to_lowercase disk_type)"

text \<open>
  \<^verbatim>\<open>build_disk_remote_paths\<close>: \<open>discovered\<close> and \<open>cache_refs\<close> are the endpoints and the cache
  references found in the ClickHouse configuration files.
\<close>

definition eff_s3 :: "(string \<Rightarrow> string) \<Rightarrow> DiskRow \<Rightarrow> bool" where
  "eff_s3 to_lowercase d =
     is_s3_disk (normalize_disk_type to_lowercase (dk_disk_type d) (dk_object_storage_type d))"

type_synonym paths = "string \<Rightarrow> string option"

definition discover_paths :: "(string \<Rightarrow> string option) \<Rightarrow> string list \<Rightarrow> paths \<Rightarrow> paths" where
  "discover_paths discovered names ps =
     fold (\<lambda>name m. case discovered name of Some uri \<Rightarrow> m(name \<mapsto> uri) | None \<Rightarrow> m) names ps"

definition inherit_one :: "(string \<Rightarrow> string) \<Rightarrow> string option \<Rightarrow> DiskRow \<Rightarrow> paths \<Rightarrow> paths" where
  "inherit_one to_lowercase endpoint d m =
     (if m (dk_name d) = None \<and> eff_s3 to_lowercase d then m(dk_name d := endpoint) else m)"

definition inherit_group :: "(string \<Rightarrow> string) \<Rightarrow> DiskRow list \<Rightarrow> paths \<Rightarrow> paths" where
  "inherit_group to_lowercase peers ps =
     (case find (\<lambda>d. ps (dk_name d) \<noteq> None) peers of
        None \<Rightarrow> ps
      | Some src \<Rightarrow> fold (inherit_one to_lowercase (ps (dk_name src))) peers ps)"

definition cache_paths :: "(string \<Rightarrow> string option) \<Rightarrow> string list \<Rightarrow> paths \<Rightarrow> paths" where
  "cache_paths cache_refs names ps =
     fold (\<lambda>name m. case cache_refs name of
         Some underlying \<Rightarrow> (case m underlying of Some ep \<Rightarrow> m(name \<mapsto> ep) | None \<Rightarrow> m)
       | None \<Rightarrow> m) names ps"

definition build_disk_remote_paths ::
    "(string \<Rightarrow> string) \<Rightarrow> (string \<Rightarrow> string option) \<Rightarrow> (string \<Rightarrow> string option) \<Rightarrow> DiskRow list \<Rightarrow> paths" where
  "build_disk_remote_paths to_lowercase discovered cache_refs disks =
     (let paths0 = fold (\<lambda>d m. m(dk_name d \<mapsto> dk_remote_path d)) (filter (\<lambda>d. dk_remote_path d \<noteq> []) disks) Map.empty;
          s3_without = map dk_name (filter (\<lambda>d. eff_s3 to_lowercase d \<and> paths0 (dk_name d) = None \<and> \<not> is_cache_disk d) disks);
          paths1 = discover_paths discovered s3_without paths0;
          normalized = (\<lambda>d. trim_end_char CHR ''/'' (dk_path d));
          groups = map (\<lambda>p. filter (\<lambda>d. normalized d = p) disks) (sort_by_key id (remdups (map normalized disks)));
          paths2 = fold (inherit_group to_lowercase) groups paths1;
          unresolved = map dk_name (filter (\<lambda>d. eff_s3 to_lowercase d \<and> paths2 (dk_name d) = None) disks)
      in cache_paths cache_refs unresolved paths2)"

text \<open>\<open>macros\<close> is the hash map in its iteration order.\<close>

definition resolve_macros_in_paths :: "(string \<times> string) list \<Rightarrow> string btree_map \<Rightarrow> string btree_map" where
  "resolve_macros_in_paths macros ps =
     (if macros = [] then ps
      else map (\<lambda>(disk_name, path).
        (disk_name,
         if CHR ''{'' \<in> set path
         then fold (\<lambda>(key, val) p. str_replace (''{'' @ key @ ''}'') val p) macros path
         else path)) ps)"

section \<open>Lines\<close>

definition line_ok :: "string \<Rightarrow> bool" where
  "line_ok l \<longleftrightarrow> LF \<notin> set l \<and> (l = [] \<or> last l \<noteq> CR)"

lemma strip_cr_ok: "line_ok l \<Longrightarrow> strip_cr l = l"
  by (auto simp: strip_cr_def line_ok_def strip_suffix_def suffix_def split: option.splits)

lemma split_on_lines:
  "list_all line_ok ls \<Longrightarrow> split_on LF (concat (map (\<lambda>l. l @ [LF]) ls)) = ls @ [[]]"
  by (induction ls) (simp_all add: split_on_append_sep line_ok_def)

lemma str_lines_concat:
  assumes "list_all line_ok ls"
  shows "str_lines (concat (map (\<lambda>l. l @ [LF]) ls)) = ls"
proof -
  have "map strip_cr ls = ls"
    using assms by (intro map_idI) (simp add: strip_cr_ok list_all_iff)
  then show ?thesis by (simp add: str_lines_def split_on_lines[OF assms])
qed

lemma not_digit_ctl: "\<not> is_digit LF" "\<not> is_digit CR" "\<not> is_digit TAB"
  by (simp_all add: is_digit_def)

lemma line_ok_nat [simp]: "line_ok (nat_to_string n)"
proof -
  have "LF \<notin> set (nat_to_string n)" and "CR \<notin> set (nat_to_string n)"
    by (simp_all add: not_digit_in_nat_to_string not_digit_ctl)
  moreover have "last (nat_to_string n) \<in> set (nat_to_string n)" by simp
  ultimately show ?thesis unfolding line_ok_def by metis
qed

lemma line_ok_append: "LF \<notin> set a \<Longrightarrow> line_ok b \<Longrightarrow> b \<noteq> [] \<Longrightarrow> line_ok (a @ b)"
  by (simp add: line_ok_def)

section \<open>Printing and parsing\<close>

definition key_ok :: "string \<Rightarrow> bool" where
  "key_ok k \<longleftrightarrow> TAB \<notin> set k \<and> LF \<notin> set k \<and> trimmed k"

text \<open>What ClickHouse writes: keys are trimmed single-field strings and a field is present only
  in the versions that have it.\<close>

definition metadata_ok :: "ObjectDiskMetadata \<Rightarrow> bool" where
  "metadata_ok m \<longleftrightarrow> 1 \<le> om_version m \<and> om_version m \<le> 5
     \<and> length (om_objects m) * 32 < 2 ^ 63
     \<and> list_all (\<lambda>obj. key_ok (or_relative_path obj)) (om_objects m)
     \<and> (om_read_only m \<longrightarrow> 3 \<le> om_version m)
     \<and> (case om_inline_data m of None \<Rightarrow> True | Some d \<Rightarrow> 4 \<le> om_version m \<and> d \<noteq> [] \<and> line_ok d)"

definition metadata_lines :: "ObjectDiskMetadata \<Rightarrow> string list" where
  "metadata_lines m =
     [word_to_string (om_version m),
      nat_to_string (length (om_objects m)) @ TAB # word_to_string (om_total_size m)]
     @ map (\<lambda>obj. word_to_string (or_size obj) @ TAB # or_relative_path obj) (om_objects m)
     @ [word_to_string (om_ref_count m)]
     @ (if 3 \<le> om_version m then [if om_read_only m then ''1'' else ''0''] else [])
     @ (if 4 \<le> om_version m then [case om_inline_data m of Some d \<Rightarrow> d | None \<Rightarrow> []] else [])"

lemma serialize_lines: "serialize_metadata m = concat (map (\<lambda>l. l @ [LF]) (metadata_lines m))"
  by (simp add: serialize_metadata_def metadata_lines_def object_line_def o_def split: option.splits)

lemma trimmed_line_ok: "key_ok k \<Longrightarrow> line_ok (word_to_string (s :: u64) @ TAB # k)"
proof -
  assume k: "key_ok k"
  have "[CR] \<in> set ws_strings" by code_simp
  with k have "\<not> suffix [CR] k" by (auto simp: key_ok_def trimmed_def list_all_iff)
  then have "k = [] \<or> last k \<noteq> CR"
    by (cases k rule: rev_cases) (auto simp: suffix_def)
  with k show ?thesis
    by (auto simp: line_ok_def key_ok_def word_to_string_def not_digit_in_nat_to_string not_digit_ctl)
qed

lemma line_ok_count: "line_ok (nat_to_string n @ TAB # word_to_string (s :: u64))"
  using line_ok_nat[of n] line_ok_nat[of "unat s"] by (simp add: line_ok_def word_to_string_def)

lemma metadata_lines_ok: "metadata_ok m \<Longrightarrow> list_all line_ok (metadata_lines m)"
proof -
  assume m: "metadata_ok m"
  have "line_ok ''0''" "line_ok ''1''" "line_ok []" by (simp_all add: line_ok_def)
  moreover have "list_all line_ok (map (\<lambda>obj. word_to_string (or_size obj) @ TAB # or_relative_path obj) (om_objects m))"
    using m by (simp add: metadata_ok_def list_all_iff trimmed_line_ok)
  ultimately show ?thesis
    using m by (simp add: metadata_lines_def metadata_ok_def line_ok_count word_to_string_def[of "om_version m"]
        word_to_string_def[of "om_ref_count m"] split: option.splits)
qed

lemma split_tab: "TAB \<notin> set a \<Longrightarrow> TAB \<notin> set b \<Longrightarrow> split_on TAB (a @ TAB # b) = [a, b]"
  by (simp add: split_on_append_sep split_on_no_sep)

lemma tab_not_in_number: "TAB \<notin> set (nat_to_string n)" "TAB \<notin> set (word_to_string w)"
  by (simp_all add: word_to_string_def not_digit_in_nat_to_string not_digit_ctl)

lemma parse_objects_lines:
  "list_all (\<lambda>obj. key_ok (or_relative_path obj)) objs \<Longrightarrow>
   parse_objects (length objs)
     (map (\<lambda>obj. word_to_string (or_size obj) @ TAB # or_relative_path obj) objs @ rest) = Inr objs"
  by (induction objs) (simp_all add: split_tab tab_not_in_number key_ok_def parse_word_to_string trim_trimmed)

text \<open>Versions 1 to 5 as 32-bit words.\<close>

lemma version_cases:
  "1 \<le> (v :: u32) \<Longrightarrow> v \<le> 5 \<Longrightarrow> v = 1 \<or> v = 2 \<or> v = 3 \<or> v = 4 \<or> v = 5"
proof -
  assume "1 \<le> v" and "v \<le> 5"
  then have "1 \<le> unat v" and "unat v \<le> 5" by (simp_all add: word_le_nat_alt)
  then have "unat v = 1 \<or> unat v = 2 \<or> unat v = 3 \<or> unat v = 4 \<or> unat v = 5" by presburger
  then show ?thesis by (auto simp: word_unat_eq_iff)
qed

lemma trim_flag: "trim ''1'' = ''1''" "trim ''0'' = ''0''"
  by (simp_all add: trim_trimmed digits_trimmed is_digit_def)

lemma not_4_le_1: "\<not> (4 :: u32) \<le> 1"
  by (simp add: word_le_nat_alt)

lemma parse_serialize:
  assumes m: "metadata_ok m"
  shows "parse_metadata (serialize_metadata m) = Inr m"
proof -
  let ?n = "length (om_objects m)"
  let ?tail = "[word_to_string (om_ref_count m)]
     @ (if 3 \<le> om_version m then [if om_read_only m then ''1'' else ''0''] else [])
     @ (if 4 \<le> om_version m then [case om_inline_data m of Some d \<Rightarrow> d | None \<Rightarrow> []] else [])"
  have n: "?n < 2 ^ 64" "?n * 32 \<le> 2 ^ 63 - 1" using m by (simp_all add: metadata_ok_def)
  then have count: "parse_u64 (nat_to_string ?n) = Some (of_nat ?n)" "unat (of_nat ?n :: u64) = ?n"
    by (simp_all add: parse_u64_def parse_nat_to_string unat_of_nat)
  have lines: "str_lines (serialize_metadata m) = metadata_lines m"
    unfolding serialize_lines by (rule str_lines_concat[OF metadata_lines_ok[OF m]])
  have objs: "parse_objects ?n (drop 2 (metadata_lines m)) = Inr (om_objects m)"
    using m by (simp add: metadata_lines_def parse_objects_lines metadata_ok_def)
  have tail: "drop (2 + ?n) (metadata_lines m) = ?tail" by (simp add: metadata_lines_def)
  have vers: "1 \<le> om_version m \<and> om_version m \<le> 5" using m by (simp add: metadata_ok_def)
  have "parse_tail (om_version m) (om_total_size m) (om_objects m) ?tail = Inr m"
    using m version_cases[OF conjunct1[OF vers] conjunct2[OF vers]]
    by (auto simp: parse_tail_def metadata_ok_def parse_word_to_string trim_flag not_4_le_1
        intro!: ObjectDiskMetadata.equality split: option.splits)
  then show ?thesis
    using n count lines objs tail vers
    by (simp add: parse_metadata_def Let_def metadata_lines_def[of m] parse_word_to_string split_tab tab_not_in_number)
qed

interpretation meta_codec: codec metadata_ok serialize_metadata
  "\<lambda>s. case parse_metadata s of Inr m \<Rightarrow> Some m | Inl e \<Rightarrow> None"
  by unfold_locales (simp add: parse_serialize)

section \<open>Rewriting\<close>

text \<open>The metadata that restore writes, as a value.\<close>

definition rewritten :: "ObjectDiskMetadata \<Rightarrow> string \<Rightarrow> string \<Rightarrow> ObjectDiskMetadata" where
  "rewritten m uuid_prefix dest_prefix =
     m\<lparr>om_objects := map (\<lambda>obj. obj\<lparr>or_relative_path := rk_metadata_key
          (restore_object_keys (om_version m) (or_relative_path obj) uuid_prefix dest_prefix)\<rparr>) (om_objects m),
       om_ref_count := 0, om_read_only := False\<rparr>"

lemma rewrite_eq_serialize:
  "rewrite_metadata m uuid_prefix dest_prefix = serialize_metadata (rewritten m uuid_prefix dest_prefix)"
proof -
  have "nat_to_string 0 = ''0''" by code_simp
  then show ?thesis
    by (simp add: rewrite_metadata_def serialize_metadata_def rewritten_def o_def word_to_string_def)
qed

text \<open>
  How ClickHouse reads a stored key: complete for version 5, relative to the disk's key prefix
  before that.
\<close>

definition ch_object_key :: "u32 \<Rightarrow> string \<Rightarrow> string \<Rightarrow> string" where
  "ch_object_key version disk_prefix stored =
     (if 5 \<le> version then stored else join_disk_key disk_prefix stored)"

lemma restore_keys_agree:
  "ch_object_key v dest_prefix (rk_metadata_key (restore_object_keys v k uuid_prefix dest_prefix))
     = join_disk_key dest_prefix (rk_copy_dest_relative_key (restore_object_keys v k uuid_prefix dest_prefix))"
  by (simp add: ch_object_key_def restore_object_keys_def Let_def)

lemma to_disk_relative_key_in:
  assumes "to_disk_relative_key objs obj = Inr obj'"
  shows "or_relative_path obj' \<in> so_path ` set objs \<and> or_size obj' = or_size obj"
proof -
  let ?c = "filter (\<lambda>m. or_relative_path obj = so_path m \<or>
            (case strip_suffix (so_path m) (or_relative_path obj) of
               Some pre \<Rightarrow> ends_with pre ''/'' | None \<Rightarrow> False)) objs"
  let ?d = "if 1 < length ?c then filter (\<lambda>m. so_size m = or_size obj) ?c else ?c"
  obtain only where "?d = [only]" and "obj' = obj\<lparr>or_relative_path := so_path only\<rparr>"
    using assms unfolding to_disk_relative_key_def Let_def by (auto split: list.splits)
  moreover from this(1) have "only \<in> set ?d" by (simp only: list.set_intros)
  then have "only \<in> set objs" by (auto split: if_splits)
  ultimately show ?thesis by simp
qed

section \<open>Properties\<close>

text \<open>C30. Object-disk metadata survives printing and parsing: for every well-formed file of
  versions 1 to 5, parsing what \<^verbatim>\<open>serialize_metadata\<close> prints gives the same metadata back, and
  two different files never print alike.\<close>

theorem object_disk_metadata_roundtrip:
  assumes "metadata_ok m" and "metadata_ok m'"
  shows "parse_metadata (serialize_metadata m) = Inr m
    \<and> (serialize_metadata m = serialize_metadata m' \<longleftrightarrow> m = m')"
  using parse_serialize[OF assms(1)] meta_codec.enc_eq_iff[OF assms] by blast

theorem object_disk_metadata_roundtrip_witness:
  "parse_metadata (serialize_metadata
      \<lparr>om_version = 5, om_objects = [\<lparr>or_relative_path = ''disks/abc/xyz'', or_size = 42\<rparr>],
       om_total_size = 42, om_ref_count = 1, om_read_only = True, om_inline_data = None\<rparr>)
   = Inr \<lparr>om_version = 5, om_objects = [\<lparr>or_relative_path = ''disks/abc/xyz'', or_size = 42\<rparr>],
       om_total_size = 42, om_ref_count = 1, om_read_only = True, om_inline_data = None\<rparr>"
proof -
  have "metadata_ok \<lparr>om_version = 5, om_objects = [\<lparr>or_relative_path = ''disks/abc/xyz'', or_size = 42\<rparr>],
       om_total_size = 42, om_ref_count = 1, om_read_only = True, om_inline_data = None\<rparr>"
    by code_simp
  from conjunct1[OF object_disk_metadata_roundtrip[OF this this]] show ?thesis .
qed



text \<open>Restating a version 5 file in the manifest's keys either fails or replaces every key by
  one the manifest records for the part, so restore never writes a key it did not copy; files of
  earlier versions are left alone.\<close>

theorem to_disk_relative_keys_sound:
  "case to_disk_relative_keys m objs of
     Inl e \<Rightarrow> 5 \<le> om_version m
   | Inr m' \<Rightarrow> (if om_version m < 5 then m' = m
       else length (om_objects m') = length (om_objects m)
         \<and> list_all (\<lambda>obj. or_relative_path obj \<in> so_path ` set objs) (om_objects m')
         \<and> map or_size (om_objects m') = map or_size (om_objects m)
         \<and> m'\<lparr>om_objects := om_objects m\<rparr> = m)"
proof (cases "to_disk_relative_keys m objs")
  case (Inl e)
  then show ?thesis by (auto simp: to_disk_relative_keys_def split: if_splits)
next
  case (Inr m')
  show ?thesis
  proof (cases "om_version m < 5")
    case False
    with Inr obtain os where os: "traverse (to_disk_relative_key objs) (om_objects m) = Inr os"
      and m': "m' = m\<lparr>om_objects := os\<rparr>"
      by (auto simp: to_disk_relative_keys_def split: sum.splits)
    have rel: "list_all2 (\<lambda>x y. to_disk_relative_key objs x = Inr y) (om_objects m) os"
      by (rule traverse_Inr[OF os])
    then have "list_all (\<lambda>obj. or_relative_path obj \<in> so_path ` set objs) os"
      by (auto simp: list_all_iff list_all2_conv_all_nth in_set_conv_nth dest!: to_disk_relative_key_in)
    moreover have "map or_size os = map or_size (om_objects m)"
      using rel by (auto simp: list_all2_conv_all_nth intro!: nth_equalityI dest!: to_disk_relative_key_in)
    moreover have "length os = length (om_objects m)" using list_all2_lengthD[OF rel] by simp
    ultimately show ?thesis using Inr False m' by simp
  qed (use Inr in \<open>simp add: to_disk_relative_keys_def\<close>)
qed

text \<open>The key collected for an object rebuilds the key the disk uses: for a complete
  (version 5) key under the disk's prefix always, and for a prefix-relative (version 2 to 4) key
  exactly when that relative key does not itself start with the prefix as a directory; in that
  case the prefix is stripped once too often and CopyObject is sent to another key.\<close>

theorem collected_key_rebuilds_source:
  "upload_source_key (disk_relative_key (join_disk_key p k) p) p = join_disk_key p k
   \<and> (upload_source_key (disk_relative_key k p) p = join_disk_key p k
      \<longleftrightarrow> \<not> (trim_char CHR ''/'' p \<noteq> [] \<and> starts_with k (trim_char CHR ''/'' p @ ''/'')))"
proof -
  let ?t = "trim_char CHR ''/'' p"
  have "upload_source_key (disk_relative_key (join_disk_key p k) p) p = join_disk_key p k"
    by (simp add: upload_source_key_def disk_relative_key_def join_disk_key_def strip_prefix_def Let_def)
  moreover have "disk_relative_key k p = k \<longleftrightarrow> \<not> (?t \<noteq> [] \<and> starts_with k (?t @ ''/''))"
    by (auto simp: disk_relative_key_def strip_prefix_def prefix_def Let_def)
  ultimately show ?thesis
    by (auto simp: upload_source_key_def join_disk_key_def Let_def)
qed

section \<open>Disk endpoints\<close>

lemma discover_paths_other: "n \<notin> set names \<Longrightarrow> discover_paths disc names ps n = ps n"
  unfolding discover_paths_def by (induction names arbitrary: ps) (auto split: option.splits)

lemma discover_paths_ran: "ran (discover_paths disc names ps) \<subseteq> ran ps \<union> ran disc"
proof (induction names arbitrary: ps)
  case (Cons n names)
  have "ran (case disc n of Some uri \<Rightarrow> ps(n \<mapsto> uri) | None \<Rightarrow> ps) \<subseteq> ran ps \<union> ran disc"
    by (auto simp: ran_def split: option.splits if_splits)
  with Cons.IH[of "case disc n of Some uri \<Rightarrow> ps(n \<mapsto> uri) | None \<Rightarrow> ps"] show ?case
    by (auto simp: discover_paths_def)
qed (simp add: discover_paths_def)

lemma cache_paths_other: "n \<notin> set names \<Longrightarrow> cache_paths refs names ps n = ps n"
  unfolding cache_paths_def by (induction names arbitrary: ps) (auto split: option.splits)

lemma cache_paths_ran: "ran (cache_paths refs names ps) \<subseteq> ran ps"
proof (induction names arbitrary: ps)
  case (Cons n names)
  let ?ps = "case refs n of Some u \<Rightarrow> (case ps u of Some ep \<Rightarrow> ps(n \<mapsto> ep) | None \<Rightarrow> ps) | None \<Rightarrow> ps"
  have "ran ?ps \<subseteq> ran ps" by (auto simp: ran_def split: option.splits if_splits)
  with Cons.IH[of ?ps] show ?case by (auto simp: cache_paths_def)
qed (simp add: cache_paths_def)

lemma inherit_one_keeps:
  assumes "ep \<in> Some ` ran ps0"
  shows "ran (inherit_one lc ep d ps) \<subseteq> ran ps \<union> ran ps0"
    and "ps n \<noteq> None \<Longrightarrow> inherit_one lc ep d ps n = ps n"
  using assms by (auto simp: inherit_one_def ran_def split: if_splits)

lemma inherit_fold:
  assumes "ep \<in> Some ` ran ps0"
  shows "ran (fold (inherit_one lc ep) g ps) \<subseteq> ran ps \<union> ran ps0
    \<and> (ps n \<noteq> None \<longrightarrow> fold (inherit_one lc ep) g ps n = ps n)"
proof (induction g arbitrary: ps)
  case (Cons d g)
  from inherit_one_keeps[OF assms, where lc = lc and d = d and ps = ps] Cons.IH[of "inherit_one lc ep d ps"] show ?case by auto
qed simp

lemma inherit_group_keeps:
  "ran (inherit_group lc g ps) \<subseteq> ran ps \<and> (ps n \<noteq> None \<longrightarrow> inherit_group lc g ps n = ps n)"
proof (cases "find (\<lambda>d. ps (dk_name d) \<noteq> None) g")
  case (Some src)
  then have "ps (dk_name src) \<in> Some ` ran ps" by (auto simp: find_Some_iff ran_def)
  from inherit_fold[OF this, of lc g ps n] Some show ?thesis by (simp add: inherit_group_def)
qed (simp add: inherit_group_def)

lemma inherit_groups_keep:
  "ran (fold (inherit_group lc) gs ps) \<subseteq> ran ps \<and> (ps n \<noteq> None \<longrightarrow> fold (inherit_group lc) gs ps n = ps n)"
proof (induction gs arbitrary: ps)
  case (Cons g gs)
  have "ran (fold (inherit_group lc) (g # gs) ps) \<subseteq> ran ps"
    using inherit_group_keeps[of lc g ps n] Cons.IH[of "inherit_group lc g ps"] by auto
  moreover have "ps n \<noteq> None \<Longrightarrow> fold (inherit_group lc) (g # gs) ps n = ps n"
    using inherit_group_keeps[of lc g ps n] Cons.IH[of "inherit_group lc g ps"] by auto
  ultimately show ?case by blast
qed simp

lemma explicit_paths_other:
  "n \<notin> dk_name ` set ds \<Longrightarrow> fold (\<lambda>d m. m(dk_name d \<mapsto> dk_remote_path d)) ds m n = m n"
  by (induction ds arbitrary: m) auto

lemma explicit_paths:
  "distinct (map dk_name ds) \<Longrightarrow>
   fold (\<lambda>d m. m(dk_name d \<mapsto> dk_remote_path d)) ds m n =
     (case find (\<lambda>d. dk_name d = n) ds of Some d \<Rightarrow> Some (dk_remote_path d) | None \<Rightarrow> m n)"
proof (induction ds arbitrary: m)
  case (Cons d ds)
  show ?case
  proof (cases "dk_name d = n")
    case True
    with Cons.prems explicit_paths_other[of n ds "m(n \<mapsto> dk_remote_path d)"] show ?thesis by (simp del: fun_upd_apply add: fun_upd_same)
  next
    case False
    with Cons show ?thesis by simp
  qed
qed simp

text \<open>Endpoint discovery never overrides what ClickHouse reports: a disk with a remote path
  keeps it, and every endpoint given to any other disk is one that some disk reports or that the
  configuration files name.\<close>

theorem build_disk_remote_paths_sound:
  assumes "distinct (map dk_name disks)"
  shows "ran (build_disk_remote_paths lc discovered cache_refs disks)
      \<subseteq> {ep. \<exists>d \<in> set disks. dk_remote_path d = ep \<and> ep \<noteq> []} \<union> ran discovered
    \<and> list_all (\<lambda>d. dk_remote_path d = [] \<or>
        build_disk_remote_paths lc discovered cache_refs disks (dk_name d) = Some (dk_remote_path d)) disks"
proof -
  let ?ex = "filter (\<lambda>d. dk_remote_path d \<noteq> []) disks"
  define p0 where "p0 = fold (\<lambda>d m. m(dk_name d \<mapsto> dk_remote_path d)) ?ex Map.empty"
  define names where "names = map dk_name (filter (\<lambda>d. eff_s3 lc d \<and> p0 (dk_name d) = None \<and> \<not> is_cache_disk d) disks)"
  define p1 where "p1 = discover_paths discovered names p0"
  define gs where "gs = map (\<lambda>p. filter (\<lambda>d. trim_end_char CHR ''/'' (dk_path d) = p) disks)
     (sort_by_key id (remdups (map (\<lambda>d. trim_end_char CHR ''/'' (dk_path d)) disks)))"
  define p2 where "p2 = fold (inherit_group lc) gs p1"
  define left where "left = map dk_name (filter (\<lambda>d. eff_s3 lc d \<and> p2 (dk_name d) = None) disks)"
  have res: "build_disk_remote_paths lc discovered cache_refs disks = cache_paths cache_refs left p2"
    by (simp add: build_disk_remote_paths_def Let_def p0_def names_def p1_def gs_def p2_def left_def)
  have dist: "distinct (map dk_name ?ex)" using assms by (rule distinct_map_filter)
  have p0: "p0 n = map_option dk_remote_path (find (\<lambda>d. dk_name d = n) ?ex)" for n
    unfolding p0_def explicit_paths[OF dist] by (simp split: option.splits)
  have "ran p0 \<subseteq> {ep. \<exists>d \<in> set disks. dk_remote_path d = ep \<and> ep \<noteq> []}"
    by (fastforce simp: ran_def p0 dest!: find_SomeD)
  then have "ran p2 \<subseteq> {ep. \<exists>d \<in> set disks. dk_remote_path d = ep \<and> ep \<noteq> []} \<union> ran discovered"
    using discover_paths_ran[of discovered names p0] inherit_groups_keep[of lc gs p1] unfolding p1_def p2_def by blast
  then have ran: "ran (cache_paths cache_refs left p2)
      \<subseteq> {ep. \<exists>d \<in> set disks. dk_remote_path d = ep \<and> ep \<noteq> []} \<union> ran discovered"
    using cache_paths_ran[of cache_refs left p2] by blast
  have "cache_paths cache_refs left p2 (dk_name d) = Some (dk_remote_path d)"
    if d: "d \<in> set disks" "dk_remote_path d \<noteq> []" for d
  proof -
    have "find (\<lambda>e. dk_name e = dk_name d) ?ex = Some d"
    proof -
      obtain e where e: "find (\<lambda>e. dk_name e = dk_name d) ?ex = Some e"
        using d by (cases "find (\<lambda>e. dk_name e = dk_name d) ?ex") (auto simp: find_None_iff)
      then have "e \<in> set disks" "dk_name e = dk_name d"
        by (auto dest!: find_SomeD)
      with d assms have "e = d" by (auto simp: distinct_map inj_on_def)
      with e show ?thesis by simp
    qed
    then have q0: "p0 (dk_name d) = Some (dk_remote_path d)" by (simp add: p0)
    have "p1 (dk_name d) = p0 (dk_name d)"
      unfolding p1_def by (rule discover_paths_other) (auto simp: names_def q0 dest: sym)
    then have "p2 (dk_name d) = Some (dk_remote_path d)"
      using inherit_groups_keep[of lc gs p1 "dk_name d"] q0 by (simp add: p2_def)
    then show ?thesis
      using cache_paths_other[of "dk_name d" left cache_refs p2] by (fastforce simp: left_def)
  qed
  with ran res show ?thesis by (auto simp: list_all_iff)
qed

theorem build_disk_remote_paths_sound_witness:
  "build_disk_remote_paths id (\<lambda>_. None) (\<lambda>_. None)
     [\<lparr>dk_name = ''s3'', dk_path = ''/d/s3/'', dk_disk_type = ''s3'', dk_remote_path = ''s3://b/p'',
       dk_object_storage_type = [], dk_cache_path = []\<rparr>,
      \<lparr>dk_name = ''s3_cache'', dk_path = ''/d/s3'', dk_disk_type = ''s3'', dk_remote_path = [],
       dk_object_storage_type = [], dk_cache_path = ''/c''\<rparr>] ''s3'' = Some ''s3://b/p''"
proof -
  let ?ds = "[\<lparr>dk_name = ''s3'', dk_path = ''/d/s3/'', dk_disk_type = ''s3'', dk_remote_path = ''s3://b/p'',
       dk_object_storage_type = [], dk_cache_path = []\<rparr>,
      \<lparr>dk_name = ''s3_cache'', dk_path = ''/d/s3'', dk_disk_type = ''s3'', dk_remote_path = [],
       dk_object_storage_type = [], dk_cache_path = ''/c''\<rparr>]"
  have "distinct (map dk_name ?ds)" by simp
  from conjunct2[OF build_disk_remote_paths_sound[OF this, of id "\<lambda>_. None" "\<lambda>_. None"]] show ?thesis by simp
qed

end
