(* ===== verification/S3_Client.thy ===== *)
theory S3_Client
  imports Listing
begin

text \<open>
  Model of \<^verbatim>\<open>src/storage/s3.rs\<close>: key arithmetic, request deadlines, multipart chunking,
  batched deletion, server-side copies (single and multipart, with the whole-object budget and
  the abort on failure) and the retry loops.

  The AWS SDK is the record \<open>sdk\<close> of requests. A request takes the state of the world and gives
  an \<open>answer\<close>: how long it runs, what it returns, and the world it leaves when it completes and
  when it is abandoned after the deadline. The state of the client is a clock (nanoseconds)
  beside that world. Object options (storage class, encryption, ACL) are not modelled.
\<close>

section \<open>Definitions\<close>

subsection \<open>Keys\<close>

definition s3_unreserved :: "char \<Rightarrow> bool" where
  "s3_unreserved c \<longleftrightarrow>
     (let n = (of_char c :: nat)
      in (65 \<le> n \<and> n \<le> 90) \<or> (97 \<le> n \<and> n \<le> 122) \<or> (48 \<le> n \<and> n \<le> 57)
         \<or> c = CHR ''-'' \<or> c = CHR ''_'' \<or> c = CHR ''.'' \<or> c = CHR ''~'' \<or> c = CHR ''/'')"

definition hex_char :: "nat \<Rightarrow> char" where
  "hex_char n = char_of (if n < 10 then 48 + n else 55 + n)"

primrec percent_encode_s3_key :: "string \<Rightarrow> string" where
  "percent_encode_s3_key [] = []"
| "percent_encode_s3_key (c # cs) =
     (if s3_unreserved c then [c]
      else [CHR ''%'', hex_char (of_char c div 16), hex_char (of_char c mod 16)])
     @ percent_encode_s3_key cs"

definition full_key :: "string \<Rightarrow> string \<Rightarrow> string" where
  "full_key pre relative_key =
     (if pre = [] then relative_key else trim_end_char CHR ''/'' pre @ ''/'' @ relative_key)"

definition parse_s3_uri :: "string \<Rightarrow> string \<times> string" where
  "parse_s3_uri uri =
     (case (case strip_prefix ''s3://'' uri of Some r \<Rightarrow> Some r | None \<Rightarrow> strip_prefix ''S3://'' uri) of
        Some rest0 \<Rightarrow>
          (let rest = trim_end_char CHR ''/'' rest0
           in case split_once CHR ''/'' rest of
                Some (bucket, pre) \<Rightarrow> (bucket, pre)
              | None \<Rightarrow> (rest, []))
      | None \<Rightarrow> ([], trim_end_char CHR ''/'' uri))"

subsection \<open>Deadlines\<close>

datatype S3OpClass = Metadata | Copy

record S3Timeouts =
  st_request_timeout_secs :: u64
  st_copy_min_bytes_per_second :: u64

definition COPY_OBJECT_MAX_SIZE :: u64 where
  "COPY_OBJECT_MAX_SIZE = 5368709120"

definition S3_MIN_PART_SIZE :: u64 where
  "S3_MIN_PART_SIZE = 5 * 1024 * 1024"

text \<open>A \<^verbatim>\<open>Duration\<close> is a number of nanoseconds up to \<^verbatim>\<open>Duration::MAX\<close>.\<close>

definition DURATION_MAX :: nat where
  "DURATION_MAX = (2 ^ 64 - 1) * 1000000000 + 999999999"

definition from_secs :: "u64 \<Rightarrow> nat" where
  "from_secs s = unat s * 1000000000"

definition CLEANUP_TIMEOUT :: nat where
  "CLEANUP_TIMEOUT = 30 * 1000000000"

definition s3_deadline :: "S3OpClass \<Rightarrow> u64 option \<Rightarrow> S3Timeouts \<Rightarrow> nat option" where
  "s3_deadline cls bytes t =
     (if st_request_timeout_secs t = 0 then None
      else let base = from_secs (st_request_timeout_secs t) in
        case cls of
          Metadata \<Rightarrow> Some base
        | Copy \<Rightarrow>
            if st_copy_min_bytes_per_second t = 0 then Some base
            else let b = (case bytes of Some n \<Rightarrow> n | None \<Rightarrow> COPY_OBJECT_MAX_SIZE);
                     allowance_secs = b div st_copy_min_bytes_per_second t
                 in Some (min (base + from_secs allowance_secs) DURATION_MAX))"

subsection \<open>Errors\<close>

text \<open>
  The errors of this module. \<open>err_texts\<close> lists the literal pieces of the rendered chain
  \<^verbatim>\<open>{err:#}\<close>; between them stand only numbers, so that a search for a word without digits
  succeeds on the chain exactly when it succeeds on a piece.
\<close>

datatype s3_error =
  TimedOut string string string nat nat
| SdkError string
| BudgetExhausted
| MissingETag nat
| NoUploadId string
| BatchAllFailed nat
| Context string s3_error

definition TIMEOUT_ERR_PREFIX :: string where
  "TIMEOUT_ERR_PREFIX = ''S3 request timed out''"

fun err_texts :: "s3_error \<Rightarrow> string list" where
  "err_texts (TimedOut op bucket key elapsed deadline) =
     [TIMEOUT_ERR_PREFIX @ '': '' @ op @ '' on '' @ bucket @ ''/'' @ key @ '' after '',
      ''s (deadline '', ''s). Raise s3.request_timeout or s3.copy_min_bytes_per_second, or set s3.request_timeout: 0s to disable deadlines.'']"
| "err_texts (SdkError msg) = [msg]"
| "err_texts BudgetExhausted = [TIMEOUT_ERR_PREFIX @ '': multipart copy exceeded its whole-object budget'']"
| "err_texts (MissingETag n) = [''Missing ETag in UploadPartCopy response for part '']"
| "err_texts (NoUploadId key) = [''Multipart copy: no upload_id returned for '' @ key]"
| "err_texts (BatchAllFailed n) = [''Batch delete failed for all '', '' objects'']"
| "err_texts (Context msg e) = (msg @ '': '') # err_texts e"

definition is_timeout_error :: "s3_error \<Rightarrow> bool" where
  "is_timeout_error e = list_ex (\<lambda>t. str_contains t TIMEOUT_ERR_PREFIX) (err_texts e)"

definition is_missing_source_error :: "s3_error \<Rightarrow> bool" where
  "is_missing_source_error e =
     list_ex (\<lambda>t. str_contains t ''NoSuchKey'' \<or> str_contains t ''NoSuchBucket'') (err_texts e)"

subsection \<open>Requests\<close>

record ('a, 'w) answer =
  an_time :: nat
  an_value :: 'a
  an_done :: 'w
  an_cut :: 'w

type_synonym ('a, 'w) request = "'w \<Rightarrow> ('a, 'w) answer"
type_synonym 'w clocked = "nat \<times> 'w"

definition with_deadline ::
    "string \<Rightarrow> string \<Rightarrow> string \<Rightarrow> nat option \<Rightarrow> ('a, 'w) request \<Rightarrow> 'w clocked \<Rightarrow> (s3_error + 'a) \<times> 'w clocked" where
  "with_deadline op bucket key deadline fut = (\<lambda>(now, w).
     let a = fut w in
     case deadline of
       None \<Rightarrow> (Inr (an_value a), (now + an_time a, an_done a))
     | Some d \<Rightarrow>
         if an_time a \<le> d then (Inr (an_value a), (now + an_time a, an_done a))
         else (Inl (TimedOut op bucket key d d), (now + d, an_cut a)))"

datatype budget = NoClamp | Exhausted | Left nat

definition remaining_budget :: "nat option \<Rightarrow> nat \<Rightarrow> budget" where
  "remaining_budget object_deadline now =
     (case object_deadline of
        None \<Rightarrow> NoClamp
      | Some deadline \<Rightarrow> if deadline - now = 0 then Exhausted else Left (deadline - now))"

text \<open>The SDK. Replies are \<open>Inl\<close> the service error's text or \<open>Inr\<close> the response.\<close>

record 'w sdk =
  sdk_head :: "string \<Rightarrow> string \<Rightarrow> (string + int option, 'w) request"
  sdk_copy :: "string \<Rightarrow> string \<Rightarrow> string \<Rightarrow> (string + unit, 'w) request"
  sdk_create :: "string \<Rightarrow> string \<Rightarrow> (string + string option, 'w) request"
  sdk_part_copy :: "string \<Rightarrow> string \<Rightarrow> string \<Rightarrow> u32 \<Rightarrow> string \<Rightarrow> u64 \<Rightarrow> u64 \<Rightarrow> (string + string option, 'w) request"
  sdk_complete :: "string \<Rightarrow> string \<Rightarrow> string \<Rightarrow> (u32 \<times> string) list \<Rightarrow> (string + unit, 'w) request"
  sdk_abort :: "string \<Rightarrow> string \<Rightarrow> string \<Rightarrow> (string + unit, 'w) request"
  sdk_delete :: "string \<Rightarrow> string list \<Rightarrow> (string + nat, 'w) request"

record S3Client =
  sc_bucket :: string
  sc_prefix :: string
  sc_timeouts :: S3Timeouts
  sc_chunk_size :: u64
  sc_max_parts_count :: u32

subsection \<open>Chunks\<close>

definition div_ceil :: "u64 \<Rightarrow> u64 \<Rightarrow> u64" where
  "div_ceil a b = (if a mod b = 0 then a div b else a div b + 1)"

definition calculate_chunk_size :: "u64 \<Rightarrow> u64 \<Rightarrow> u32 \<Rightarrow> u64" where
  "calculate_chunk_size data_len config_chunk_size max_parts_count =
     (let chunk = (if 0 < config_chunk_size then config_chunk_size
                   else div_ceil data_len (ucast (max max_parts_count 1)));
          chunk = max chunk S3_MIN_PART_SIZE
      in if COPY_OBJECT_MAX_SIZE < chunk then COPY_OBJECT_MAX_SIZE else chunk)"

text \<open>The byte range of one part of a multipart copy, inclusive at both ends.\<close>

definition part_range :: "u64 \<Rightarrow> u64 \<Rightarrow> u64 \<Rightarrow> u64 \<times> u64" where
  "part_range src_size chunk_size part_idx =
     (part_idx * chunk_size, min ((part_idx + 1) * chunk_size - 1) (src_size - 1))"

subsection \<open>Batched deletion\<close>

function chunks :: "nat \<Rightarrow> 'a list \<Rightarrow> 'a list list" where
  "chunks n xs = (if n = 0 \<or> xs = [] then [] else take n xs # chunks n (drop n xs))"
  by pat_completeness auto
termination
  by (relation "measure (\<lambda>(_, xs). length xs)") auto

declare chunks.simps [simp del]

fun delete_batches ::
    "S3Client \<Rightarrow> ('w, 'z) sdk_scheme \<Rightarrow> string list list \<Rightarrow> nat \<Rightarrow> 'w clocked \<Rightarrow> (s3_error + nat) \<times> 'w clocked" where
  "delete_batches c sdk [] total_failed s = (Inr total_failed, s)"
| "delete_batches c sdk (chunk # rest) total_failed s =
     (case with_deadline ''DeleteObjects'' (sc_bucket c) ''<keys>''
              (s3_deadline Metadata None (sc_timeouts c))
              (sdk_delete sdk (sc_bucket c) (map (full_key (sc_prefix c)) chunk)) s of
        (Inl e, s') \<Rightarrow> (Inl e, s')
      | (Inr (Inl msg), s') \<Rightarrow> (Inl (Context ''Failed to batch delete objects'' (SdkError msg)), s')
      | (Inr (Inr errors), s') \<Rightarrow>
          if errors \<noteq> 0 \<and> errors = length chunk then (Inl (BatchAllFailed errors), s')
          else delete_batches c sdk rest (total_failed + errors) s')"

definition delete_objects ::
    "S3Client \<Rightarrow> ('w, 'z) sdk_scheme \<Rightarrow> string list \<Rightarrow> 'w clocked \<Rightarrow> (s3_error + nat) \<times> 'w clocked" where
  "delete_objects c sdk keys s = (if keys = [] then (Inr 0, s) else delete_batches c sdk (chunks 1000 keys) 0 s)"

subsection \<open>Server-side copy\<close>

definition clamp_deadline :: "nat option \<Rightarrow> budget \<Rightarrow> nat option" where
  "clamp_deadline d left =
     (case d of
        None \<Rightarrow> None
      | Some n \<Rightarrow> (case left of Left l \<Rightarrow> Some (min n l) | _ \<Rightarrow> Some n))"

fun copy_parts ::
    "S3Client \<Rightarrow> ('w, 'z) sdk_scheme \<Rightarrow> string \<Rightarrow> string \<Rightarrow> string \<Rightarrow> u64 \<Rightarrow> u64 \<Rightarrow> nat option
     \<Rightarrow> nat list \<Rightarrow> (u32 \<times> string) list \<Rightarrow> 'w clocked \<Rightarrow> (s3_error + (u32 \<times> string) list) \<times> 'w clocked" where
  "copy_parts c sdk dest upload_id copy_source src_size chunk_size object_deadline [] completed s =
     (Inr completed, s)"
| "copy_parts c sdk dest upload_id copy_source src_size chunk_size object_deadline (i # is) completed s =
     (let (start, fin) = part_range src_size chunk_size (of_nat i);
          part_number = (of_nat (i + 1) :: u32);
          range_len = fin - start + 1;
          left = remaining_budget object_deadline (fst s)
      in if left = Exhausted then (Inl (Context ''after parts'' BudgetExhausted), s)
         else case with_deadline ''UploadPartCopy'' (sc_bucket c) dest
                (clamp_deadline (s3_deadline Copy (Some range_len) (sc_timeouts c)) left)
                (sdk_part_copy sdk (sc_bucket c) dest upload_id part_number copy_source start fin) s of
             (Inl e, s') \<Rightarrow> (Inl e, s')
           | (Inr (Inl msg), s') \<Rightarrow> (Inl (Context ''Multipart copy: upload_part_copy failed for part'' (SdkError msg)), s')
           | (Inr (Inr None), s') \<Rightarrow> (Inl (MissingETag (i + 1)), s')
           | (Inr (Inr (Some e_tag)), s') \<Rightarrow>
               copy_parts c sdk dest upload_id copy_source src_size chunk_size object_deadline is
                 (completed @ [(part_number, e_tag)]) s')"

definition complete_copy ::
    "S3Client \<Rightarrow> ('w, 'z) sdk_scheme \<Rightarrow> string \<Rightarrow> string \<Rightarrow> nat option \<Rightarrow> (u32 \<times> string) list \<Rightarrow> 'w clocked
     \<Rightarrow> (s3_error + unit) \<times> 'w clocked" where
  "complete_copy c sdk dest upload_id object_deadline parts s =
     (case remaining_budget object_deadline (fst s) of
        Exhausted \<Rightarrow> (Inl BudgetExhausted, s)
      | left \<Rightarrow>
          (case with_deadline ''CompleteMultipartUpload'' (sc_bucket c) dest
                  (case left of Left l \<Rightarrow> Some l | _ \<Rightarrow> None)
                  (sdk_complete sdk (sc_bucket c) dest upload_id parts) s of
             (Inl e, s') \<Rightarrow> (Inl e, s')
           | (Inr (Inl msg), s') \<Rightarrow> (Inl (Context ''Multipart copy: failed to complete upload for '' (SdkError msg)), s')
           | (Inr (Inr _), s') \<Rightarrow> (Inr (), s')))"

definition abort_upload_best_effort ::
    "S3Client \<Rightarrow> ('w, 'z) sdk_scheme \<Rightarrow> string \<Rightarrow> string \<Rightarrow> 'w clocked \<Rightarrow> 'w clocked" where
  "abort_upload_best_effort c sdk dest upload_id s =
     snd (with_deadline ''AbortMultipartUpload'' (sc_bucket c) dest (Some CLEANUP_TIMEOUT)
       (sdk_abort sdk (sc_bucket c) dest upload_id) s)"

definition copy_object_multipart ::
    "S3Client \<Rightarrow> ('w, 'z) sdk_scheme \<Rightarrow> string \<Rightarrow> string \<Rightarrow> string \<Rightarrow> u64 \<Rightarrow> 'w clocked \<Rightarrow> (s3_error + unit) \<times> 'w clocked" where
  "copy_object_multipart c sdk source_bucket source_key dest_key src_size s =
     (let dest = full_key (sc_prefix c) dest_key;
          object_deadline = map_option (\<lambda>d. fst s + d) (s3_deadline Copy (Some src_size) (sc_timeouts c))
      in case with_deadline ''CreateMultipartUpload'' (sc_bucket c) dest
                (s3_deadline Metadata None (sc_timeouts c)) (sdk_create sdk (sc_bucket c) dest) s of
           (Inl e, s1) \<Rightarrow> (Inl e, s1)
         | (Inr (Inl msg), s1) \<Rightarrow> (Inl (Context ''Multipart copy: failed to create multipart upload for '' (SdkError msg)), s1)
         | (Inr (Inr None), s1) \<Rightarrow> (Inl (NoUploadId dest), s1)
         | (Inr (Inr (Some upload_id)), s1) \<Rightarrow>
             (let chunk_size = calculate_chunk_size src_size (sc_chunk_size c) (sc_max_parts_count c);
                  part_count = div_ceil src_size chunk_size;
                  copy_source = source_bucket @ ''/'' @ percent_encode_s3_key source_key;
                  (copied, s2) = copy_parts c sdk dest upload_id copy_source src_size chunk_size
                    object_deadline [0..<unat part_count] [] s1;
                  (outcome, s3) = (case copied of
                      Inl e \<Rightarrow> (Inl e, s2)
                    | Inr parts \<Rightarrow> complete_copy c sdk dest upload_id object_deadline parts s2)
              in case outcome of
                   Inr _ \<Rightarrow> (Inr (), s3)
                 | Inl e \<Rightarrow> (Inl e, abort_upload_best_effort c sdk dest upload_id s3)))"

definition copy_single ::
    "S3Client \<Rightarrow> ('w, 'z) sdk_scheme \<Rightarrow> string \<Rightarrow> string \<Rightarrow> string \<Rightarrow> u64 option \<Rightarrow> 'w clocked \<Rightarrow> (s3_error + unit) \<times> 'w clocked" where
  "copy_single c sdk source_bucket source_key dest_key src_size s =
     (let dest = full_key (sc_prefix c) dest_key;
          copy_source = source_bucket @ ''/'' @ percent_encode_s3_key source_key
      in case with_deadline ''CopyObject'' (sc_bucket c) dest
                (s3_deadline Copy src_size (sc_timeouts c)) (sdk_copy sdk (sc_bucket c) copy_source dest) s of
           (Inl e, s1) \<Rightarrow> (Inl e, s1)
         | (Inr (Inl msg), s1) \<Rightarrow>
             (Inl (Context (''CopyObject failed: '' @ copy_source @ '' -> '' @ sc_bucket c @ ''/'' @ dest) (SdkError msg)), s1)
         | (Inr (Inr _), s1) \<Rightarrow> (Inr (), s1))"

definition copy_object ::
    "S3Client \<Rightarrow> ('w, 'z) sdk_scheme \<Rightarrow> string \<Rightarrow> string \<Rightarrow> string \<Rightarrow> 'w clocked \<Rightarrow> (s3_error + unit) \<times> 'w clocked" where
  "copy_object c sdk source_bucket source_key dest_key s =
     (case with_deadline ''HeadObject'' source_bucket source_key
              (s3_deadline Metadata None (sc_timeouts c)) (sdk_head sdk source_bucket source_key) s of
        (Inl timeout_err, s1) \<Rightarrow> (Inl timeout_err, s1)
      | (Inr head, s1) \<Rightarrow>
          (let src_size = (case head of
                  Inr len \<Rightarrow> Some (of_int (max (case len of Some n \<Rightarrow> n | None \<Rightarrow> 0) 0) :: u64)
                | Inl _ \<Rightarrow> None)
           in case src_size of
                Some sz \<Rightarrow>
                  if COPY_OBJECT_MAX_SIZE < sz
                  then copy_object_multipart c sdk source_bucket source_key dest_key sz s1
                  else copy_single c sdk source_bucket source_key dest_key src_size s1
              | None \<Rightarrow> copy_single c sdk source_bucket source_key dest_key src_size s1))"

subsection \<open>Retries\<close>

record RetryConfig =
  rc_max_retries :: u32
  rc_base_delay_secs :: u64

text \<open>
  The generic retry loop. \<open>sleep\<close> waits for a number of milliseconds, jitter included, and
  returns the state after the wait; \<open>u32\<close> arithmetic of \<^verbatim>\<open>max_retries + 1\<close> is kept at its width.
  \<open>Unreachable\<close> is the panic behind the loop.
\<close>

datatype ('e, 'a) outcome = Ok 'a | Err 'e | Unreachable

definition backoff_ms :: "RetryConfig \<Rightarrow> nat \<Rightarrow> u64" where
  "backoff_ms retry attempt =
     sat_mul (sat_mul (rc_base_delay_secs retry) 1000) (if attempt < 64 then 2 ^ attempt else - 1)"

fun retry_loop ::
    "RetryConfig \<Rightarrow> (u64 \<Rightarrow> 's \<Rightarrow> 's) \<Rightarrow> ('s \<Rightarrow> (s3_error + 'a) \<times> 's) \<Rightarrow> nat \<Rightarrow> nat \<Rightarrow> 's \<Rightarrow> (s3_error, 'a) outcome \<times> 's" where
  "retry_loop retry sleep f attempt 0 s = (Unreachable, s)"
| "retry_loop retry sleep f attempt (Suc n) s =
     (case f s of
        (Inr val, s1) \<Rightarrow> (Ok val, s1)
      | (Inl e, s1) \<Rightarrow>
          if n \<noteq> 0 then retry_loop retry sleep f (attempt + 1) n (sleep (backoff_ms retry attempt) s1)
          else (Err (Context ''failed after attempts'' e), s1))"

definition retry_with_backoff ::
    "RetryConfig \<Rightarrow> (u64 \<Rightarrow> 's \<Rightarrow> 's) \<Rightarrow> ('s \<Rightarrow> (s3_error + 'a) \<times> 's) \<Rightarrow> 's \<Rightarrow> (s3_error, 'a) outcome \<times> 's" where
  "retry_with_backoff retry sleep f s =
     retry_loop retry sleep f 0 (unat (rc_max_retries retry + 1)) s"

fun copy_retry_loop ::
    "(u64 \<Rightarrow> 's \<Rightarrow> 's) \<Rightarrow> ('s \<Rightarrow> (s3_error + unit) \<times> 's) \<Rightarrow> ('s \<Rightarrow> (s3_error + unit) \<times> 's) \<Rightarrow> bool
     \<Rightarrow> u64 list \<Rightarrow> 's \<Rightarrow> (s3_error, unit) outcome \<times> 's" where
  "copy_retry_loop sleep copy streaming allow_streaming [] s = (Unreachable, s)"
| "copy_retry_loop sleep copy streaming allow_streaming (delay_ms # rest) s =
     (case copy s of
        (Inr _, s1) \<Rightarrow> (Ok (), s1)
      | (Inl e, s1) \<Rightarrow>
          if is_missing_source_error e
          then (Err (Context ''CopyObject source object does not exist'' e), s1)
          else if rest \<noteq> []
          then copy_retry_loop sleep copy streaming allow_streaming rest (sleep delay_ms s1)
          else if allow_streaming
          then (case streaming s1 of (Inr _, s2) \<Rightarrow> (Ok (), s2) | (Inl e, s2) \<Rightarrow> (Err e, s2))
          else (Err (Context ''CopyObject failed after attempts (streaming fallback disabled)'' e), s1))"

definition copy_object_with_retry_jitter ::
    "S3Client \<Rightarrow> ('w, 'z) sdk_scheme \<Rightarrow> (u64 \<Rightarrow> 'w clocked \<Rightarrow> 'w clocked) \<Rightarrow> ('w clocked \<Rightarrow> (s3_error + unit) \<times> 'w clocked)
     \<Rightarrow> string \<Rightarrow> string \<Rightarrow> string \<Rightarrow> bool \<Rightarrow> 'w clocked \<Rightarrow> (s3_error, unit) outcome \<times> 'w clocked" where
  "copy_object_with_retry_jitter c sdk sleep streaming source_bucket source_key dest_key allow_streaming s =
     copy_retry_loop sleep (copy_object c sdk source_bucket source_key dest_key) streaming allow_streaming
       [100, 400, 1600] s"

section \<open>Key arithmetic\<close>

lemma trim_end_char_split: "\<exists>n. s = trim_end_char c s @ replicate n c"
proof -
  have "rev s = takeWhile (\<lambda>x. x = c) (rev s) @ dropWhile (\<lambda>x. x = c) (rev s)" by simp
  moreover have "takeWhile (\<lambda>x. x = c) (rev s) = replicate (length (takeWhile (\<lambda>x. x = c) (rev s))) c"
    by (metis (mono_tags, lifting) replicate_eqI set_takeWhileD)
  ultimately have "s = trim_end_char c s @ rev (replicate (length (takeWhile (\<lambda>x. x = c) (rev s))) c)"
    unfolding trim_end_char_def by (metis rev_append rev_rev_ident)
  then show ?thesis by (metis rev_replicate)
qed

lemma suffix_single: "suffix [c] s \<longleftrightarrow> s \<noteq> [] \<and> last s = c"
  by (cases s rule: rev_cases) (auto simp: suffix_def)

lemma slash_shape:
  obtains t n where "trim_end_char CHR ''/'' pre = t" and "pre = t @ replicate n CHR ''/''"
    and "ends_with pre ''/'' \<longleftrightarrow> 1 \<le> n" and "ends_with pre ''//'' \<longleftrightarrow> 2 \<le> n"
proof -
  let ?t = "trim_end_char CHR ''/'' pre"
  obtain n where n: "pre = ?t @ replicate n CHR ''/''" using trim_end_char_split by blast
  have t: "\<not> suffix ''/'' ?t" using trim_end_char_last[of "CHR ''/''" pre] by (auto simp: suffix_single)
  have t2: "\<not> suffix ''//'' ?t" using t suffix_order.trans[of "''/''" "''//''" ?t] by (auto simp: suffix_def)
  consider "n = 0" | "n = 1" | m where "replicate n CHR ''/'' = replicate m CHR ''/'' @ ''//''" "2 \<le> n"
  proof -
    have "n = 0 \<or> n = 1 \<or> n = (n - 2) + 2" by linarith
    moreover have "replicate ((n - 2) + 2) CHR ''/'' = replicate (n - 2) CHR ''/'' @ ''//''"
      unfolding replicate_add by (simp add: numeral_2_eq_2)
    ultimately show ?thesis using that by (metis le_add2)
  qed
  then have "(suffix ''/'' (?t @ replicate n CHR ''/'') \<longleftrightarrow> 1 \<le> n) \<and> (suffix ''//'' (?t @ replicate n CHR ''/'') \<longleftrightarrow> 2 \<le> n)"
  proof cases
    case 1
    then show ?thesis using t t2 by simp
  next
    case 2
    then show ?thesis using t snoc_suffix_snoc[of "''/''" "CHR ''/''" ?t "CHR ''/''"] by (simp add: suffix_single)
  next
    case (3 m)
    have "suffix ''//'' (?t @ replicate n CHR ''/'')" unfolding 3(1) by (metis append.assoc suffixI)
    moreover have "suffix ''/'' ''//''" by (simp add: suffix_def)
    ultimately show ?thesis using 3(2) suffix_order.trans by fastforce
  qed
  with that[OF refl n] n show thesis by metis
qed

lemma strip_full_key:
  assumes "\<not> ends_with pre ''//''"
  shows "strip_s3_prefix (full_key pre k) pre = k"
proof -
  obtain t n where t: "trim_end_char CHR ''/'' pre = t" "pre = t @ replicate n CHR ''/''"
    "ends_with pre ''/'' \<longleftrightarrow> 1 \<le> n" "ends_with pre ''//'' \<longleftrightarrow> 2 \<le> n" by (rule slash_shape)
  have "n = 0 \<or> n = 1" using assms t(4) by auto
  then show ?thesis
  proof
    assume "n = 0"
    then have "\<not> ends_with pre ''/''" and "pre = t" using t by simp_all
    then show ?thesis using t(1) by (simp add: strip_s3_prefix_def full_key_def)
  next
    assume "n = 1"
    then have "ends_with pre ''/''" and "pre = t @ ''/''" using t by simp_all
    then show ?thesis using t(1) by (simp add: strip_s3_prefix_def full_key_def)
  qed
qed

lemma strip_full_key_double_slash:
  assumes "ends_with pre ''//''" and "\<not> starts_with k ''/''"
  shows "strip_s3_prefix (full_key pre k) pre = full_key pre k"
proof -
  obtain t n where t: "trim_end_char CHR ''/'' pre = t" "pre = t @ replicate n CHR ''/''"
    "ends_with pre ''/'' \<longleftrightarrow> 1 \<le> n" "ends_with pre ''//'' \<longleftrightarrow> 2 \<le> n" by (rule slash_shape)
  have "2 \<le> n" using assms(1) t(4) by simp
  then have "replicate n CHR ''/'' = ''//'' @ replicate (n - 2) CHR ''/''"
    by (cases n; cases "n - 1") auto
  then have "\<not> prefix pre (t @ ''/'' @ k)" using t(2) assms(2) by (cases k) auto
  moreover have "ends_with pre ''/''" and "pre \<noteq> []" using t(2,3) \<open>2 \<le> n\<close> by auto
  ultimately show ?thesis using t(1) by (simp add: strip_s3_prefix_def full_key_def)
qed

section \<open>Chunks and ranges\<close>

lemma concat_chunks: "0 < n \<Longrightarrow> concat (chunks n xs) = xs"
  by (induction n xs rule: chunks.induct) (subst chunks.simps, auto)

lemma chunks_length: "list_all (\<lambda>ch. ch \<noteq> [] \<and> length ch \<le> n) (chunks n xs)"
  by (induction n xs rule: chunks.induct) (subst chunks.simps, auto)

lemma unat_div_ceil:
  assumes "b \<noteq> 0"
  shows "unat (div_ceil a b) = (unat a + unat b - 1) div unat b"
proof -
  have b: "0 < unat b" using assms by (simp add: unat_gt_0)
  have a: "unat a = unat a div unat b * unat b + unat a mod unat b" by simp
  show ?thesis
  proof (cases "unat a mod unat b = 0")
    case True
    then have "a mod b = 0" by (simp add: word_unat_eq_iff unat_mod_distrib)
    moreover have "(unat a + unat b - 1) div unat b = unat a div unat b"
    proof -
      have e: "unat a + unat b - 1 = (unat b - 1) + unat a div unat b * unat b" using a True b by linarith
      show ?thesis unfolding e using b by (subst div_mult_self1) simp_all
    qed
    ultimately show ?thesis by (simp add: div_ceil_def unat_div_distrib)
  next
    case False
    then have "a mod b \<noteq> 0" by (simp add: word_unat_eq_iff unat_mod_distrib)
    have less: "unat a div unat b + 1 < 2 ^ 64 \<or> unat b = 1"
    proof -
      have "unat a < 2 ^ 64" using unsigned_less[of a, where ?'a = nat] by simp
      moreover have "unat b = 1 \<or> 2 \<le> unat b" using b by linarith
      moreover have "2 \<le> unat b \<Longrightarrow> unat a div unat b \<le> unat a div 2" by (rule div_le_mono2) simp_all
      ultimately show ?thesis by auto
    qed
    with False have l: "unat a div unat b + 1 < 2 ^ 64" by auto
    have "(unat a + unat b - 1) div unat b = unat a div unat b + 1"
    proof -
      have e: "unat a + unat b - 1 = (unat a mod unat b - 1) + (unat a div unat b + 1) * unat b"
        using a False b by (simp add: add_mult_distrib)
      have "unat a mod unat b - 1 < unat b" using mod_less_divisor[OF b, of "unat a"] by linarith
      then show ?thesis unfolding e using b by (subst div_mult_self1) simp_all
    qed
    with \<open>a mod b \<noteq> 0\<close> l show ?thesis
      by (simp add: div_ceil_def unat_word_ariths unat_div_distrib)
  qed
qed

lemma tile_nat:
  "0 < c \<Longrightarrow> m \<le> (s + c - 1) div c \<Longrightarrow>
   concat (map (\<lambda>i. [i * c ..< min ((i + 1) * c) s]) [0..<m]) = [0..<min (m * c) s]"
proof (induction m)
  case (Suc m)
  have "m < (s + c - 1) div c" using Suc.prems by simp
  then have lt: "m * c < s"
  proof -
    assume "m < (s + c - 1) div c"
    then have "(m + 1) * c \<le> s + c - 1" using Suc.prems(1) by (metis Suc_eq_plus1 Suc_leI le_trans mult_le_mono1 times_div_less_eq_dividend mult.commute)
    then show ?thesis using Suc.prems(1) by simp
  qed
  have "concat (map (\<lambda>i. [i * c ..< min ((i + 1) * c) s]) [0..<m]) = [0..<m * c]"
    using Suc lt by simp
  moreover have "m * c \<le> min (Suc m * c) s" using lt by simp
  ultimately show ?case using upt_add_eq_append[of 0 "m * c" "min (Suc m * c) s - m * c"] by simp
qed simp

section \<open>Time\<close>

lemma with_deadline_time:
  assumes "with_deadline op b k (Some d) fut s = (r, s')"
  shows "fst s \<le> fst s' \<and> fst s' \<le> fst s + d"
  using assms by (cases s) (auto simp: with_deadline_def Let_def split: if_splits)

lemma s3_deadline_enabled:
  assumes "st_request_timeout_secs t \<noteq> 0"
  obtains d where "s3_deadline Copy b t = Some d" and "s3_deadline Metadata None t = Some (from_secs (st_request_timeout_secs t))"
    and "from_secs (st_request_timeout_secs t) \<le> d"
proof -
  have "unat (st_request_timeout_secs t) \<le> 2 ^ 64 - 1"
    using unsigned_less[of "st_request_timeout_secs t", where ?'a = nat] by simp
  then have "from_secs (st_request_timeout_secs t) \<le> DURATION_MAX"
    unfolding from_secs_def DURATION_MAX_def by simp
  then show thesis
    using assms by (cases "st_copy_min_bytes_per_second t = 0") (auto simp: s3_deadline_def Let_def intro: that)
qed

lemma copy_parts_time:
  assumes "st_request_timeout_secs (sc_timeouts c) \<noteq> 0"
    and "copy_parts c sdk dest uid src sz ch (Some D) is done s = (r, s')" and "fst s \<le> D"
  shows "fst s \<le> fst s' \<and> fst s' \<le> D"
  using assms(2,3)
proof (induction "is" arbitrary: "done" s)
  case (Cons i "is")
  let ?len = "snd (part_range sz ch (of_nat i)) - fst (part_range sz ch (of_nat i)) + 1"
  obtain d where d: "s3_deadline Copy (Some ?len) (sc_timeouts c) = Some d"
    using s3_deadline_enabled[OF assms(1)] by metis
  show ?case
  proof (cases "D - fst s = 0")
    case True
    with Cons.prems show ?thesis
      by (auto simp: remaining_budget_def case_prod_beta Let_def)
  next
    case False
    define req where "req = sdk_part_copy sdk (sc_bucket c) dest uid (of_nat (i + 1)) src
      (fst (part_range sz ch (of_nat i))) (snd (part_range sz ch (of_nat i)))"
    obtain q s1 where q: "with_deadline ''UploadPartCopy'' (sc_bucket c) dest (Some (min d (D - fst s))) req s = (q, s1)"
      by (cases "with_deadline ''UploadPartCopy'' (sc_bucket c) dest (Some (min d (D - fst s))) req s")
    from with_deadline_time[OF q] Cons.prems(2) have t: "fst s \<le> fst s1" "fst s1 \<le> D" by auto
    have step: "copy_parts c sdk dest uid src sz ch (Some D) (i # is) done s =
        (case q of Inl e \<Rightarrow> (Inl e, s1)
         | Inr (Inl msg) \<Rightarrow> (Inl (Context ''Multipart copy: upload_part_copy failed for part'' (SdkError msg)), s1)
         | Inr (Inr None) \<Rightarrow> (Inl (MissingETag (i + 1)), s1)
         | Inr (Inr (Some e)) \<Rightarrow> copy_parts c sdk dest uid src sz ch (Some D) is (done @ [(of_nat (i + 1), e)]) s1)"
      using False d q unfolding req_def
      by (simp add: remaining_budget_def clamp_deadline_def case_prod_beta Let_def split: sum.splits option.splits)
    show ?thesis
    proof (cases "\<exists>e. q = Inr (Inr (Some e))")
      case True
      then obtain e where "q = Inr (Inr (Some e))" by blast
      with step Cons.prems(1) Cons.IH[of "done @ [(of_nat (i + 1), e)]" s1] t show ?thesis by simp
    next
      case False
      with step Cons.prems(1) t show ?thesis by (auto split: sum.splits option.splits)
    qed
  qed
qed simp

lemma complete_copy_time:
  assumes "complete_copy c sdk dest uid (Some D) parts s = (r, s')" and "fst s \<le> D"
  shows "fst s' \<le> D"
proof (cases "D - fst s = 0")
  case True
  with assms show ?thesis by (simp add: complete_copy_def remaining_budget_def)
next
  case False
  obtain q s1 where q: "with_deadline ''CompleteMultipartUpload'' (sc_bucket c) dest (Some (D - fst s))
      (sdk_complete sdk (sc_bucket c) dest uid parts) s = (q, s1)"
    by (cases "with_deadline ''CompleteMultipartUpload'' (sc_bucket c) dest (Some (D - fst s))
      (sdk_complete sdk (sc_bucket c) dest uid parts) s")
  have "s' = s1"
    using assms(1) False q by (auto simp: complete_copy_def remaining_budget_def split: sum.splits)
  with with_deadline_time[OF q] False show ?thesis by simp
qed

lemma copy_parts_numbers:
  "copy_parts c sdk dest uid src sz ch D is done s = (Inr parts, s') \<Longrightarrow>
   map fst parts = map fst done @ map (\<lambda>i. of_nat (i + 1)) is"
  by (induction "is" arbitrary: "done" s)
    (auto simp: Let_def split: prod.splits if_splits sum.splits option.splits)

section \<open>Properties\<close>

text \<open>The parts of a multipart copy tile the object: the byte ranges requested for parts
  0, 1, ... are consecutive, do not overlap and cover every byte of the object exactly once, and a
  copy that succeeds completes exactly the parts 1 to n in order.\<close>

theorem copy_parts_tile_object:
  assumes "chunk \<noteq> 0" and "unat sz + unat chunk < 2 ^ 64" and "0 < unat sz"
    and "copy_parts c sdk dest uid src sz chunk D [0..<unat (div_ceil sz chunk)] [] s = (Inr parts, s')"
  shows "concat (map (\<lambda>i. [unat (fst (part_range sz chunk (of_nat i)))
            ..< Suc (unat (snd (part_range sz chunk (of_nat i))))]) [0..<unat (div_ceil sz chunk)])
        = [0..<unat sz]
    \<and> map fst parts = map (\<lambda>i. of_nat (i + 1)) [0..<unat (div_ceil sz chunk)]"
proof -
  let ?c = "unat chunk" and ?s = "unat sz"
  let ?n = "(?s + ?c - 1) div ?c"
  have c: "0 < ?c" using assms(1) by (simp add: unat_gt_0)
  have n: "unat (div_ceil sz chunk) = ?n" by (rule unat_div_ceil[OF assms(1)])
  have rng: "unat (fst (part_range sz chunk (of_nat i))) = i * ?c
      \<and> Suc (unat (snd (part_range sz chunk (of_nat i)))) = min ((i + 1) * ?c) ?s" if "i < ?n" for i
  proof -
    have "(i + 1) * ?c \<le> ?n * ?c" using that by (simp add: mult_le_mono1 Suc_leI del: mult_Suc)
    also have "\<dots> \<le> ?s + ?c - 1" by simp
    finally have b: "(i + 1) * ?c < 2 ^ 64" using assms(2) c by linarith
    then have a: "i * ?c < 2 ^ 64" by simp
    have i: "i < 2 ^ 64" using a c by (metis Suc_leI le_less_trans mult.right_neutral mult_le_mono2 One_nat_def)
    have i1: "i + 1 < 2 ^ 64" using b c by (metis Suc_leI le_less_trans mult.right_neutral mult_le_mono2 One_nat_def)
    have "unat (of_nat i * chunk) = i * ?c"
      using a i by (simp add: unat_word_ariths unat_of_nat)
    moreover have m: "unat ((of_nat i + 1) * chunk) = (i + 1) * ?c"
    proof -
      have "(of_nat i + 1 :: u64) = of_nat (i + 1)" by simp
      moreover have "unat (of_nat (i + 1) :: u64) = i + 1" using i1 by (simp only: unat_of_nat) simp
      ultimately show ?thesis using b by (simp add: unat_word_ariths(2) del: of_nat_Suc of_nat_add)
    qed
    have "unat ((of_nat i + 1) * chunk - 1) = (i + 1) * ?c - 1"
      using m c by (subst unat_minus_one) (auto simp: unat_eq_zero)
    moreover have "unat (sz - 1) = ?s - 1" using assms(3) by (subst unat_minus_one) (auto simp: unat_eq_zero)
    ultimately show ?thesis
      using c assms(3) by (simp add: part_range_def min_def word_le_nat_alt; linarith)
  qed
  have e: "map (\<lambda>i. [unat (fst (part_range sz chunk (of_nat i))) ..< Suc (unat (snd (part_range sz chunk (of_nat i))))]) [0..<?n]
      = map (\<lambda>i. [i * ?c ..< min ((i + 1) * ?c) ?s]) [0..<?n]"
    by (rule map_cong[OF refl]) (simp only: rng atLeastLessThan_upt[symmetric] atLeastLessThan_iff)
  have "?s \<le> ?n * ?c"
  proof -
    have "?s + ?c - 1 = ?n * ?c + (?s + ?c - 1) mod ?c" by simp
    moreover have "(?s + ?c - 1) mod ?c < ?c" using c by simp
    ultimately show ?thesis by linarith
  qed
  then have "min (?n * ?c) ?s = ?s" by (rule min.absorb2)
  with tile_nat[OF c order.refl, of ?s] have "concat (map (\<lambda>i. [unat (fst (part_range sz chunk (of_nat i)))
      ..< Suc (unat (snd (part_range sz chunk (of_nat i))))]) [0..<?n]) = [0..<?s]" unfolding e by simp
  moreover have "map fst parts = map (\<lambda>i. of_nat (i + 1)) [0..<?n]"
    using copy_parts_numbers[OF assms(4)] unfolding n by (simp only: list.map append_Nil)
  ultimately show ?thesis unfolding n by blast
qed


theorem copy_parts_tile_object_witness:
  "concat (map (\<lambda>i. [unat (fst (part_range 7 3 (of_nat i))) ..< Suc (unat (snd (part_range 7 3 (of_nat i))))])
     [0..<unat (div_ceil 7 3)]) = [0..<7]"
proof -
  let ?c = "\<lparr>sc_bucket = ''b'', sc_prefix = [], sc_timeouts = \<lparr>st_request_timeout_secs = 0, st_copy_min_bytes_per_second = 0\<rparr>,
     sc_chunk_size = 0, sc_max_parts_count = 0\<rparr>"
  let ?ok = "\<lambda>v w. \<lparr>an_time = 1, an_value = v, an_done = w, an_cut = w\<rparr>"
  let ?sdk = "\<lparr>sdk_head = (\<lambda>_ _. ?ok (Inr None)), sdk_copy = (\<lambda>_ _ _. ?ok (Inr ())), sdk_create = (\<lambda>_ _. ?ok (Inr None)),
     sdk_part_copy = (\<lambda>_ _ _ _ _ _ _. ?ok (Inr (Some ''tag''))), sdk_complete = (\<lambda>_ _ _ _. ?ok (Inr ())),
     sdk_abort = (\<lambda>_ _ _. ?ok (Inr ())), sdk_delete = (\<lambda>_ _. ?ok (Inr 0))\<rparr> :: unit sdk"
  have n: "unat (div_ceil 7 3) = 3" by (simp add: unat_div_ceil)
  have run: "copy_parts ?c ?sdk ''d'' ''u'' ''s'' 7 3 None [0..<unat (div_ceil 7 3)] [] (0, ()) =
      (Inr [(1, ''tag''), (2, ''tag''), (3, ''tag'')], (3, ()))"
    unfolding n by (simp add: upt_rec part_range_def remaining_budget_def with_deadline_def clamp_deadline_def
        s3_deadline_def numeral_2_eq_2)
  from copy_parts_tile_object[OF _ _ _ run] show ?thesis by simp
qed


text \<open>Part sizes are legal, and in automatic mode so is their number: every chunk size is
  between S3's 5 MiB minimum and 5 GiB maximum, and without a configured chunk size an object of at
  most \<^verbatim>\<open>max_parts_count\<close> times 5 GiB is cut into at most \<^verbatim>\<open>max_parts_count\<close> parts. A
  configured chunk size is not checked against the part count: 100 GiB in 5 MiB chunks is
  20480 parts.\<close>

theorem chunk_size_bounds:
  assumes "unat len \<le> unat (max parts 1) * unat COPY_OBJECT_MAX_SIZE"
  shows "S3_MIN_PART_SIZE \<le> calculate_chunk_size len cfg parts
    \<and> calculate_chunk_size len cfg parts \<le> COPY_OBJECT_MAX_SIZE
    \<and> unat (div_ceil len (calculate_chunk_size len 0 parts)) \<le> unat (max parts 1)
    \<and> unat (div_ceil 107374182400 (calculate_chunk_size 107374182400 S3_MIN_PART_SIZE 10000)) = 20480"
proof -
  let ?p = "unat (max parts 1)" and ?ch = "unat (calculate_chunk_size len 0 parts)"
  have p: "1 \<le> ?p" by (simp add: max_def word_le_nat_alt)
  have mn: "unat S3_MIN_PART_SIZE = 5242880" "unat COPY_OBJECT_MAX_SIZE = 5368709120"
    by (simp_all add: S3_MIN_PART_SIZE_def COPY_OBJECT_MAX_SIZE_def)
  have bounds: "S3_MIN_PART_SIZE \<le> calculate_chunk_size len cfg parts \<and> calculate_chunk_size len cfg parts \<le> COPY_OBJECT_MAX_SIZE" for cfg
    using mn by (auto simp: calculate_chunk_size_def Let_def max_def word_le_nat_alt not_le word_less_nat_alt)
  have up: "unat (ucast (max parts 1) :: u64) = ?p"
  proof -
    have "?p < 2 ^ 32" using unsigned_less[of "max parts 1", where ?'a = nat] by simp
    then show ?thesis by (simp add: unsigned_ucast_eq take_bit_nat_eq_self)
  qed
  have dc: "unat (div_ceil len (ucast (max parts 1))) = (unat len + ?p - 1) div ?p"
  proof (subst unat_div_ceil)
    show "(ucast (max parts 1) :: u64) \<noteq> 0" using up p by (metis unat_0 not_one_le_zero)
  qed (simp add: up)
  have ch: "?ch = min (max ((unat len + ?p - 1) div ?p) 5242880) 5368709120"
  proof -
    define q where "q = div_ceil len (ucast (max parts 1))"
    have "calculate_chunk_size len 0 parts = (if COPY_OBJECT_MAX_SIZE < max q S3_MIN_PART_SIZE
        then COPY_OBJECT_MAX_SIZE else max q S3_MIN_PART_SIZE)"
      by (simp add: calculate_chunk_size_def Let_def q_def)
    then have "?ch = min (max (unat q) 5242880) 5368709120"
      by (auto simp: max_def min_def word_le_nat_alt word_less_nat_alt mn)
    then show ?thesis unfolding q_def dc .
  qed
  have enough: "unat len \<le> ?p * ?ch"
  proof (cases "max ((unat len + ?p - 1) div ?p) 5242880 \<le> 5368709120")
    case True
    have "(unat len + ?p - 1) div ?p \<le> ?ch" using True by (simp add: ch)
    then have "?p * ((unat len + ?p - 1) div ?p) \<le> ?p * ?ch" by (rule mult_le_mono2)
    moreover have "unat len + ?p - 1 = ?p * ((unat len + ?p - 1) div ?p) + (unat len + ?p - 1) mod ?p" by simp
    moreover have "(unat len + ?p - 1) mod ?p < ?p" using p by simp
    ultimately show ?thesis by linarith
  next
    case False
    then have "?ch = 5368709120" by (simp add: ch)
    with assms mn show ?thesis by simp
  qed
  have pos: "0 < ?ch" by (simp add: ch)
  then have nz: "calculate_chunk_size len 0 parts \<noteq> 0" by (metis less_irrefl unat_0)
  have "(unat len + ?ch - 1) div ?ch \<le> ?p"
  proof -
    have "unat len + ?ch - 1 < (?p + 1) * ?ch" using enough pos by simp
    then have "(unat len + ?ch - 1) div ?ch < ?p + 1" using pos by (simp add: div_less_iff_less_mult)
    then show ?thesis by simp
  qed
  then have "unat (div_ceil len (calculate_chunk_size len 0 parts)) \<le> ?p" by (simp add: unat_div_ceil[OF nz])
  moreover have "unat (div_ceil 107374182400 (calculate_chunk_size 107374182400 S3_MIN_PART_SIZE 10000)) = 20480"
    by code_simp
  ultimately show ?thesis using bounds by simp
qed

theorem chunk_size_bounds_witness:
  "unat (div_ceil 100000000000 (calculate_chunk_size 100000000000 0 10000)) \<le> 10000"
proof -
  have "unat (100000000000 :: u64) \<le> unat (max (10000 :: u32) 1) * unat COPY_OBJECT_MAX_SIZE" by code_simp
  from chunk_size_bounds[OF this] have
    "unat (div_ceil 100000000000 (calculate_chunk_size 100000000000 0 10000)) \<le> unat (max (10000 :: u32) 1)" by blast
  moreover have "unat (max (10000 :: u32) 1) = 10000" by code_simp
  ultimately show ?thesis by simp
qed

text \<open>Keys are read back as they were written: stripping the configured prefix from the key
  S3 stores gives the relative key back, unless the configured prefix ends in two slashes. Then no
  ordinary key is recognised: listings return full keys, and every operation that feeds them back
  prepends the prefix a second time.\<close>

theorem full_key_roundtrip:
  assumes "\<not> starts_with k ''/''"
  shows "strip_s3_prefix (full_key pre k) pre = k \<longleftrightarrow> \<not> ends_with pre ''//''"
proof (cases "ends_with pre ''//''")
  case True
  have "full_key pre k \<noteq> k"
  proof
    assume eq: "full_key pre k = k"
    have "pre \<noteq> []" using True by auto
    with eq have "length (trim_end_char CHR ''/'' pre @ ''/'' @ k) = length k" by (simp add: full_key_def)
    then show False by simp
  qed
  with strip_full_key_double_slash[OF True assms] True show ?thesis by simp
qed (simp add: strip_full_key)

theorem full_key_roundtrip_witness:
  "strip_s3_prefix (full_key ''chbackup/'' ''daily/metadata.json'') ''chbackup/'' = ''daily/metadata.json''
   \<and> strip_s3_prefix (full_key ''chbackup//'' ''daily/metadata.json'') ''chbackup//'' \<noteq> ''daily/metadata.json''"
proof -
  have "\<not> starts_with ''daily/metadata.json'' ''/''" by simp
  note rt = full_key_roundtrip[OF this]
  have "\<not> ends_with ''chbackup/'' ''//''" and "ends_with ''chbackup//'' ''//''" by code_simp+
  with rt[of "''chbackup/''"] rt[of "''chbackup//''"] show ?thesis by simp
qed

end
