(* ===== verification/Upload.thy ===== *)
theory Upload
  imports Path_Encoding Diff Object_Disk S3_Client
begin

text \<open>
  Model of the manifest work of \<^verbatim>\<open>src/upload/mod.rs\<close> (\<^verbatim>\<open>upload_inner\<close>): which parts
  are queued, which are skipped because they are carried or already uploaded by an interrupted
  run, what an uploaded part records, and how the results are merged into the manifest that is
  published; and of the work list \<^verbatim>\<open>src/download/mod.rs\<close> builds from that manifest.

  Compressing and sending a part is the parameter \<open>put_part\<close> (its compressed size, or an error),
  copying the objects of an S3-disk part is \<open>copy_objects\<close>. Resolving the directory of a part is
  \<open>find_part_dir\<close>. The tasks run concurrently, but their results are joined in spawn order.
\<close>

section \<open>Definitions\<close>

subsection \<open>Keys\<close>

definition archive_extension :: "string \<Rightarrow> string" where
  "archive_extension data_format =
     (if data_format = ''lz4'' then ''.tar.lz4''
      else if data_format = ''zstd'' then ''.tar.zstd''
      else if data_format = ''gzip'' then ''.tar.gz''
      else if data_format = ''none'' then ''.tar''
      else ''.tar.lz4'')"

definition s3_key_for_part :: "(nat \<Rightarrow> bool) \<Rightarrow> string \<Rightarrow> string \<Rightarrow> string \<Rightarrow> string \<Rightarrow> string \<Rightarrow> string" where
  "s3_key_for_part uni backup_name db table part_name data_format =
     backup_name @ ''/data/'' @ encode_component uni db @ ''/'' @ encode_component uni table @ ''/''
     @ part_name @ archive_extension data_format"

definition metadata_key_for_part :: "(nat \<Rightarrow> bool) \<Rightarrow> string \<Rightarrow> string \<Rightarrow> string \<Rightarrow> string \<Rightarrow> string \<Rightarrow> string" where
  "metadata_key_for_part uni backup_name db table disk_name part_name =
     backup_name @ ''/data/'' @ encode_component uni db @ ''/'' @ encode_component uni table @ ''/''
     @ disk_name @ ''/'' @ part_name @ ''/''"

definition split_table_key :: "string \<Rightarrow> string \<times> string" where
  "split_table_key key = (case split_once CHR ''.'' key of Some p \<Rightarrow> p | None \<Rightarrow> (''default'', key))"

subsection \<open>Planning\<close>

record UploadWorkItem =
  uw_table_key :: string
  uw_disk_name :: string
  uw_part :: PartInfo
  uw_part_dir :: string
  uw_s3_key :: string

record S3DiskUploadWorkItem =
  sw_table_key :: string
  sw_disk_name :: string
  sw_part :: PartInfo
  sw_s3_objects :: "S3ObjectInfo list"
  sw_source_bucket :: string
  sw_source_prefix :: string
  sw_backup_name :: string
  sw_part_dir :: string
  sw_db :: string
  sw_table :: string

datatype part_plan =
  CarriedSkip | ResumeSkip | LocalItem UploadWorkItem | S3Item S3DiskUploadWorkItem

datatype upload_error = PartDirNotFound string string string | PartDirMissing string | TaskFailed string

text \<open>The parameters of a run: names and formats, and the file system's answers.\<close>

record upload_env =
  ue_uni :: "nat \<Rightarrow> bool"
  ue_backup_name :: string
  ue_data_format :: string
  ue_bucket :: string
  ue_find_part_dir :: "string \<Rightarrow> string \<Rightarrow> string \<Rightarrow> string \<Rightarrow> string option"
  ue_dir_exists :: "string \<Rightarrow> bool"

definition disk_is_s3 :: "BackupManifest \<Rightarrow> string \<Rightarrow> bool" where
  "disk_is_s3 m disk_name =
     (case map_of (bm_disk_types m) disk_name of Some dt \<Rightarrow> is_s3_disk dt | None \<Rightarrow> False)"

definition copy_source_of :: "string \<Rightarrow> BackupManifest \<Rightarrow> string \<Rightarrow> string \<times> string" where
  "copy_source_of bucket m disk_name =
     (let remote_path = (case map_of (bm_disk_remote_paths m) disk_name of Some p \<Rightarrow> p | None \<Rightarrow> []);
          (source_bucket, source_prefix) = (if remote_path = [] then (bucket, []) else parse_s3_uri remote_path)
      in (if source_bucket = [] then bucket else source_bucket, source_prefix))"

definition plan_part ::
    "upload_env \<Rightarrow> string set \<Rightarrow> BackupManifest \<Rightarrow> string \<times> string \<times> PartInfo \<Rightarrow> upload_error + part_plan" where
  "plan_part env completed m = (\<lambda>(table_key, disk_name, part).
     let (db, table) = split_table_key table_key in
     if starts_with (pi_source part) ''carried:'' then Inr CarriedSkip
     else if disk_is_s3 m disk_name \<and> pi_s3_objects part \<noteq> None then
       let (source_bucket, source_prefix) = copy_source_of (ue_bucket env) m disk_name;
           metadata_key = metadata_key_for_part (ue_uni env) (ue_backup_name env) db table disk_name (pi_name part)
       in if metadata_key \<in> completed then Inr ResumeSkip
          else case ue_find_part_dir env db table (pi_name part) disk_name of
            None \<Rightarrow> Inl (PartDirNotFound db table (pi_name part))
          | Some part_dir \<Rightarrow>
              Inr (S3Item \<lparr>sw_table_key = table_key, sw_disk_name = disk_name, sw_part = part,
                sw_s3_objects = (case pi_s3_objects part of Some objs \<Rightarrow> objs | None \<Rightarrow> []),
                sw_source_bucket = source_bucket, sw_source_prefix = source_prefix,
                sw_backup_name = ue_backup_name env, sw_part_dir = part_dir, sw_db = db, sw_table = table\<rparr>)
     else
       case ue_find_part_dir env db table (pi_name part) disk_name of
         None \<Rightarrow> Inl (PartDirNotFound db table (pi_name part))
       | Some part_dir \<Rightarrow>
           if \<not> ue_dir_exists env part_dir then Inl (PartDirMissing (pi_name part))
           else let s3_key = s3_key_for_part (ue_uni env) (ue_backup_name env) db table (pi_name part) (ue_data_format env)
             in if s3_key \<in> completed then Inr ResumeSkip
                else Inr (LocalItem \<lparr>uw_table_key = table_key, uw_disk_name = disk_name, uw_part = part,
                   uw_part_dir = part_dir, uw_s3_key = s3_key\<rparr>))"

definition plan_table ::
    "upload_env \<Rightarrow> string set \<Rightarrow> BackupManifest \<Rightarrow> string \<times> TableManifest \<Rightarrow> upload_error + part_plan list" where
  "plan_table env completed m = (\<lambda>(table_key, tm).
     if tm_metadata_only tm then Inr []
     else traverse (plan_part env completed m) (table_parts table_key tm))"

record UploadPlan =
  up_local :: "UploadWorkItem list"
  up_s3_disk :: "S3DiskUploadWorkItem list"
  up_table_count :: nat
  up_carried_count :: nat

definition plan_upload :: "upload_env \<Rightarrow> string set \<Rightarrow> BackupManifest \<Rightarrow> upload_error + UploadPlan" where
  "plan_upload env completed m =
     (case traverse (plan_table env completed m) (bm_tables m) of
        Inl e \<Rightarrow> Inl e
      | Inr plans \<Rightarrow>
          Inr \<lparr>up_local = List.map_filter (\<lambda>p. case p of LocalItem i \<Rightarrow> Some i | _ \<Rightarrow> None) (concat plans),
               up_s3_disk = List.map_filter (\<lambda>p. case p of S3Item i \<Rightarrow> Some i | _ \<Rightarrow> None) (concat plans),
               up_table_count = length (filter (list_ex (\<lambda>p. p \<noteq> CarriedSkip)) plans),
               up_carried_count = length (filter (\<lambda>p. p = CarriedSkip) (concat plans))\<rparr>)"

subsection \<open>Results\<close>

definition local_result :: "UploadWorkItem \<Rightarrow> u64 \<Rightarrow> string \<times> string \<times> PartInfo" where
  "local_result item compressed_size =
     (uw_table_key item, uw_disk_name item,
      (uw_part item)\<lparr>pi_backup_key := uw_s3_key item, pi_source := ''uploaded'', pi_backup_size := compressed_size\<rparr>)"

definition copied_object :: "string \<Rightarrow> S3ObjectInfo \<Rightarrow> S3ObjectInfo" where
  "copied_object backup_name obj =
     (if so_size obj = 0 then obj\<lparr>so_backup_key := []\<rparr>
      else obj\<lparr>so_backup_key := backup_name @ ''/objects/'' @ so_path obj\<rparr>)"

definition s3_disk_result :: "(nat \<Rightarrow> bool) \<Rightarrow> S3DiskUploadWorkItem \<Rightarrow> string \<times> string \<times> PartInfo" where
  "s3_disk_result uni item =
     (sw_table_key item, sw_disk_name item,
      (sw_part item)\<lparr>pi_s3_objects := Some (map (copied_object (sw_backup_name item)) (sw_s3_objects item)),
        pi_backup_key := metadata_key_for_part uni (sw_backup_name item) (sw_db item) (sw_table item)
          (sw_disk_name item) (pi_name (sw_part item)),
        pi_source := ''uploaded'', pi_backup_size := pi_size (sw_part item)\<rparr>)"

text \<open>The keys of the source objects an S3-disk item copies.\<close>

definition copy_requests :: "S3DiskUploadWorkItem \<Rightarrow> (string \<times> string) list" where
  "copy_requests item =
     map (\<lambda>obj. (upload_source_key (so_path obj) (sw_source_prefix item),
                 sw_backup_name item @ ''/objects/'' @ so_path obj))
       (filter (\<lambda>obj. so_size obj \<noteq> 0) (sw_s3_objects item))"

definition run_uploads ::
    "upload_env \<Rightarrow> (UploadWorkItem \<Rightarrow> string + u64) \<Rightarrow> (S3DiskUploadWorkItem \<Rightarrow> string + unit) \<Rightarrow> UploadPlan
     \<Rightarrow> upload_error + (string \<times> string \<times> PartInfo) list" where
  "run_uploads env put_part copy_objects plan =
     (case traverse (\<lambda>item. case put_part item of Inl e \<Rightarrow> Inl (TaskFailed e) | Inr n \<Rightarrow> Inr (local_result item n))
             (up_local plan) of
        Inl e \<Rightarrow> Inl e
      | Inr rs1 \<Rightarrow>
          (case traverse (\<lambda>item. case copy_objects item of Inl e \<Rightarrow> Inl (TaskFailed e) | Inr _ \<Rightarrow> Inr (s3_disk_result (ue_uni env) item))
                  (up_s3_disk plan) of
             Inl e \<Rightarrow> Inl e
           | Inr rs2 \<Rightarrow> Inr (rs1 @ rs2)))"

subsection \<open>Merging\<close>

definition merge_disk :: "string \<Rightarrow> PartInfo list \<Rightarrow> TableManifest \<Rightarrow> TableManifest" where
  "merge_disk disk_name uploaded_parts tm =
     (let existing = (case map_of (tm_parts tm) disk_name of
            Some parts \<Rightarrow> filter (\<lambda>p. pi_name p \<notin> pi_name ` set uploaded_parts) parts
          | None \<Rightarrow> [])
      in tm\<lparr>tm_parts := btree_insert disk_name (existing @ uploaded_parts) (tm_parts tm)\<rparr>)"

definition merge_group :: "(string \<times> string) \<times> PartInfo list \<Rightarrow> BackupManifest \<Rightarrow> BackupManifest" where
  "merge_group = (\<lambda>((table_key, disk_name), uploaded_parts) m.
     m\<lparr>bm_tables := map (\<lambda>(k, tm). (k, if k = table_key then merge_disk disk_name uploaded_parts tm else tm)) (bm_tables m)\<rparr>)"

definition group_results :: "(string \<times> string \<times> PartInfo) list \<Rightarrow> ((string \<times> string) \<times> PartInfo list) list" where
  "group_results results =
     map (\<lambda>(t, d). ((t, d), List.map_filter (\<lambda>(t', d', p). if t' = t \<and> d' = d then Some p else None) results))
       (remdups (map (\<lambda>(t, d, p). (t, d)) results))"

definition apply_results :: "(string \<times> string \<times> PartInfo) list \<Rightarrow> BackupManifest \<Rightarrow> BackupManifest" where
  "apply_results results m = fold merge_group (group_results results) m"

definition total_compressed_size :: "BackupManifest \<Rightarrow> u64" where
  "total_compressed_size m =
     sum_list (map (\<lambda>(_, _, p). pi_backup_size p)
       (filter (\<lambda>(_, _, p). \<not> starts_with (pi_source p) ''carried:'') (manifest_parts m)))"

definition finish_manifest :: "string \<Rightarrow> BackupManifest \<Rightarrow> BackupManifest" where
  "finish_manifest data_format m = m\<lparr>bm_compressed_size := total_compressed_size m, bm_data_format := data_format\<rparr>"

text \<open>From the local manifest to the one published on S3. \<open>diff_from_remote\<close> is the base manifest
  when the option is given.\<close>

definition after_diff :: "BackupManifest option \<Rightarrow> BackupManifest \<Rightarrow> BackupManifest" where
  "after_diff diff_from_remote m =
     (case diff_from_remote of Some base \<Rightarrow> fst (diff_parts m base) | None \<Rightarrow> m)"

definition upload_inner ::
    "upload_env \<Rightarrow> (UploadWorkItem \<Rightarrow> string + u64) \<Rightarrow> (S3DiskUploadWorkItem \<Rightarrow> string + unit)
     \<Rightarrow> BackupManifest option \<Rightarrow> string set \<Rightarrow> BackupManifest \<Rightarrow> upload_error + BackupManifest" where
  "upload_inner env put_part copy_objects diff_from_remote completed local_manifest =
     (let m = after_diff diff_from_remote local_manifest
      in case plan_upload env completed m of
           Inl e \<Rightarrow> Inl e
         | Inr plan \<Rightarrow>
             (case run_uploads env put_part copy_objects plan of
                Inl e \<Rightarrow> Inl e
              | Inr results \<Rightarrow> Inr (finish_manifest (ue_data_format env) (apply_results results m))))"

subsection \<open>The download work list\<close>

record DownloadWorkItem =
  dw_table_key :: string
  dw_db :: string
  dw_table :: string
  dw_disk_name :: string
  dw_part :: PartInfo
  dw_is_s3_disk_part :: bool

definition plan_download :: "string set \<Rightarrow> BackupManifest \<Rightarrow> DownloadWorkItem list" where
  "plan_download completed m =
     concat (map (\<lambda>(table_key, tm).
       if tm_metadata_only tm then []
       else map (\<lambda>(_, disk_name, part).
           \<lparr>dw_table_key = table_key, dw_db = fst (split_table_key table_key), dw_table = snd (split_table_key table_key),
            dw_disk_name = disk_name, dw_part = part,
            dw_is_s3_disk_part = (disk_is_s3 m disk_name \<and> pi_s3_objects part \<noteq> None)\<rparr>)
         (filter (\<lambda>(_, _, part). pi_backup_key part \<noteq> [] \<and> pi_backup_key part \<notin> completed)
           (table_parts table_key tm))) (bm_tables m))"

section \<open>The parts an upload works on\<close>

definition live_parts :: "BackupManifest \<Rightarrow> (string \<times> string \<times> PartInfo) list" where
  "live_parts m = concat (map (\<lambda>(k, tm). if tm_metadata_only tm then [] else table_parts k tm) (bm_tables m))"

definition live_tables :: "BackupManifest \<Rightarrow> string set" where
  "live_tables m = {k. \<exists>tm. (k, tm) \<in> set (bm_tables m) \<and> \<not> tm_metadata_only tm}"

text \<open>Part names are unique within one disk of one table.\<close>

definition names_distinct :: "BackupManifest \<Rightarrow> bool" where
  "names_distinct m \<longleftrightarrow> (\<forall>k d p q. (k, d, p) \<in> set (live_parts m) \<longrightarrow> (k, d, q) \<in> set (live_parts m)
     \<longrightarrow> pi_name p = pi_name q \<longrightarrow> p = q)"

lemma in_live_parts:
  "(k, d, p) \<in> set (live_parts m) \<longleftrightarrow>
     (\<exists>tm ps. (k, tm) \<in> set (bm_tables m) \<and> \<not> tm_metadata_only tm \<and> (d, ps) \<in> set (tm_parts tm) \<and> p \<in> set ps)"
proof -
  have "(k, d, p) \<in> set (live_parts m) \<longleftrightarrow>
      (\<exists>(key, tm) \<in> set (bm_tables m). \<not> tm_metadata_only tm \<and> (k, d, p) \<in> set (table_parts key tm))"
    by (auto simp: live_parts_def split: if_splits)
  then show ?thesis by (auto simp: in_table_parts)
qed

lemma live_parts_manifest: "x \<in> set (live_parts m) \<Longrightarrow> x \<in> set (manifest_parts m)"
  by (cases x) (auto simp: in_live_parts in_manifest_parts)

section \<open>Merging\<close>

lemma map_of_btree: "btree_ok m \<Longrightarrow> map_of m k = Some v \<longleftrightarrow> (k, v) \<in> set m"
  by (simp add: btree_ok_distinct)

lemma in_existing:
  assumes "btree_ok m"
  shows "p \<in> set (case map_of m d of Some ps \<Rightarrow> filter Q ps | None \<Rightarrow> []) \<longleftrightarrow> (\<exists>ps. (d, ps) \<in> set m \<and> p \<in> set ps \<and> Q p)"
proof (cases "map_of m d")
  case None
  then have "d \<notin> fst ` set m" by (simp add: map_of_eq_None_iff)
  then have "(d, ps) \<notin> set m" for ps by force
  with None show ?thesis by simp
next
  case (Some ps)
  then have "(d, ps') \<in> set m \<longleftrightarrow> ps' = ps" for ps'
    using map_of_btree[OF assms, of d] by (metis option.inject)
  with Some show ?thesis by auto
qed

lemma in_merge_disk:
  assumes "btree_ok (tm_parts tm)"
  shows "(\<exists>ps. (d, ps) \<in> set (tm_parts (merge_disk dd ups tm)) \<and> p \<in> set ps) \<longleftrightarrow>
    (if d = dd then (\<exists>ps. (d, ps) \<in> set (tm_parts tm) \<and> p \<in> set ps \<and> pi_name p \<notin> pi_name ` set ups) \<or> p \<in> set ups
     else (\<exists>ps. (d, ps) \<in> set (tm_parts tm) \<and> p \<in> set ps))"
proof (cases "d = dd")
  case True
  have "(\<exists>ps. (d, ps) \<in> set (tm_parts (merge_disk dd ups tm)) \<and> p \<in> set ps) \<longleftrightarrow>
     p \<in> set (case map_of (tm_parts tm) dd of Some ps \<Rightarrow> filter (\<lambda>p. pi_name p \<notin> pi_name ` set ups) ps | None \<Rightarrow> [])
     \<or> p \<in> set ups"
    using True by (simp add: merge_disk_def Let_def btree_insert_in[OF assms])
  with True show ?thesis unfolding in_existing[OF assms] by simp
qed (simp add: merge_disk_def Let_def btree_insert_in[OF assms])

lemma merge_disk_ok: "btree_ok (tm_parts tm) \<Longrightarrow> btree_ok (tm_parts (merge_disk d ups tm))"
  by (simp add: merge_disk_def Let_def btree_insert_ok)

lemma merge_disk_flag [simp]: "tm_metadata_only (merge_disk d ups tm) = tm_metadata_only tm"
  by (simp add: merge_disk_def Let_def)

lemma merge_group_tables:
  "(k, tm') \<in> set (bm_tables (merge_group ((t, dd), ups) m)) \<longleftrightarrow>
     (\<exists>tm. (k, tm) \<in> set (bm_tables m) \<and> tm' = (if k = t then merge_disk dd ups tm else tm))"
proof -
  have "set (bm_tables (merge_group ((t, dd), ups) m)) =
      (\<lambda>x. (fst x, if fst x = t then merge_disk dd ups (snd x) else snd x)) ` set (bm_tables m)"
    by (simp add: merge_group_def case_prod_beta)
  then show ?thesis by (simp only: image_iff Bex_def split_paired_Ex fst_conv snd_conv prod.inject) blast
qed

lemma merge_group_ok: "manifest_ok m \<Longrightarrow> manifest_ok (merge_group g m)"
proof -
  assume m: "manifest_ok m"
  obtain t d ups where g: "g = ((t, d), ups)" by (metis surj_pair)
  have keys: "map fst (bm_tables (merge_group g m)) = map fst (bm_tables m)"
    by (simp add: merge_group_def g case_prod_beta)
  have ok: "btree_ok (tm_parts tm')" if inm: "(k, tm') \<in> set (bm_tables (merge_group g m))" for k tm'
  proof -
    obtain tm where "(k, tm) \<in> set (bm_tables m)" and tm': "tm' = (if k = t then merge_disk d ups tm else tm)"
      using inm unfolding g merge_group_tables by blast
    with m have "btree_ok (tm_parts tm)" by (auto simp: manifest_ok_def list_all_iff)
    then show ?thesis unfolding tm' by (simp add: merge_disk_ok)
  qed
  have "list_all (\<lambda>(_, tm). btree_ok (tm_parts tm)) (bm_tables (merge_group g m))"
    unfolding list_all_iff by (intro ballI) (metis ok case_prod_beta prod.collapse)
  then show ?thesis using m btree_ok_map[OF keys] by (simp add: manifest_ok_def)
qed

lemma merge_group_live_tables [simp]: "live_tables (merge_group g m) = live_tables m"
proof -
  obtain t d ups where g: "g = ((t, d), ups)" by (metis surj_pair)
  show ?thesis unfolding live_tables_def g merge_group_tables by (intro Collect_cong) (metis merge_disk_flag)
qed

lemma in_merge_group:
  assumes "manifest_ok m" and "t \<in> live_tables m"
  shows "(k, d, p) \<in> set (live_parts (merge_group ((t, dd), ups) m)) \<longleftrightarrow>
    (if k = t \<and> d = dd
     then ((k, d, p) \<in> set (live_parts m) \<and> pi_name p \<notin> pi_name ` set ups) \<or> p \<in> set ups
     else (k, d, p) \<in> set (live_parts m))"
proof -
  show ?thesis
  proof (cases "k = t")
    case False
    then show ?thesis by (simp add: in_live_parts merge_group_tables)
  next
    case True
    obtain tm where tm: "(t, tm) \<in> set (bm_tables m)" "\<not> tm_metadata_only tm"
      using assms(2) by (auto simp: live_tables_def)
    have uniq: "(t, tm') \<in> set (bm_tables m) \<longleftrightarrow> tm' = tm" for tm'
      using assms(1) tm(1) map_of_btree[of "bm_tables m" t] unfolding manifest_ok_def by (metis option.inject)
    have ok: "btree_ok (tm_parts tm)" using assms(1) tm(1) by (auto simp: manifest_ok_def list_all_iff)
    have "(k, d, p) \<in> set (live_parts (merge_group ((t, dd), ups) m)) \<longleftrightarrow>
        (\<exists>ps. (d, ps) \<in> set (tm_parts (merge_disk dd ups tm)) \<and> p \<in> set ps)"
    proof -
      have "(t, tm') \<in> set (bm_tables (merge_group ((t, dd), ups) m)) \<longleftrightarrow> tm' = merge_disk dd ups tm" for tm'
        unfolding merge_group_tables uniq by simp
      then show ?thesis using True tm(2) by (simp add: in_live_parts)
    qed
    moreover have "(k, d, p) \<in> set (live_parts m) \<longleftrightarrow> (\<exists>ps. (d, ps) \<in> set (tm_parts tm) \<and> p \<in> set ps)"
      using True tm by (simp add: in_live_parts uniq)
    ultimately show ?thesis using True in_merge_disk[OF ok, of d dd ups p] by auto
  qed
qed

lemma in_fold_merge:
  "manifest_ok m \<Longrightarrow> distinct (map fst gs) \<Longrightarrow> \<forall>((t, d), ups) \<in> set gs. t \<in> live_tables m \<Longrightarrow>
   (k, d, p) \<in> set (live_parts (fold merge_group gs m)) \<longleftrightarrow>
     (case map_of gs (k, d) of
        None \<Rightarrow> (k, d, p) \<in> set (live_parts m)
      | Some ups \<Rightarrow> ((k, d, p) \<in> set (live_parts m) \<and> pi_name p \<notin> pi_name ` set ups) \<or> p \<in> set ups)"
proof (induction gs arbitrary: m)
  case (Cons g gs)
  obtain t dd ups where g: "g = ((t, dd), ups)" by (metis surj_pair)
  have t: "t \<in> live_tables m" using Cons.prems(3) g by auto
  have IH: "(k, d, p) \<in> set (live_parts (fold merge_group gs (merge_group g m))) \<longleftrightarrow>
     (case map_of gs (k, d) of
        None \<Rightarrow> (k, d, p) \<in> set (live_parts (merge_group g m))
      | Some ups \<Rightarrow> ((k, d, p) \<in> set (live_parts (merge_group g m)) \<and> pi_name p \<notin> pi_name ` set ups) \<or> p \<in> set ups)"
    using Cons.prems by (intro Cons.IH) (auto simp: merge_group_ok)
  show ?case
  proof (cases "(k, d) = (t, dd)")
    case True
    then have "map_of gs (k, d) = None" using Cons.prems(2) g by (auto simp: map_of_eq_None_iff)
    with IH True g in_merge_group[OF Cons.prems(1) t, of k d p dd ups] show ?thesis by simp
  next
    case False
    then have "map_of (g # gs) (k, d) = map_of gs (k, d)" using g by auto
    with IH False g in_merge_group[OF Cons.prems(1) t, of k d p dd ups] show ?thesis
      by (auto split: option.splits)
  qed
qed simp

lemma in_group_results:
  "case map_of (group_results rs) (k, d) of
     None \<Rightarrow> \<forall>p. (k, d, p) \<notin> set rs
   | Some ups \<Rightarrow> set ups = {p. (k, d, p) \<in> set rs}"
proof -
  let ?f = "\<lambda>(t, d). List.map_filter (\<lambda>(t', d', p). if t' = t \<and> d' = d then Some p else None) rs"
  have "map_of (map (\<lambda>x. (x, ?f x)) xs) y = (if y \<in> set xs then Some (?f y) else None)" for xs y
    by (induction xs) auto
  moreover have "group_results rs = map (\<lambda>x. (x, ?f x)) (remdups (map (\<lambda>(t, d, p). (t, d)) rs))"
    by (auto simp: group_results_def intro!: map_cong)
  moreover have "set (?f (k, d)) = {p. (k, d, p) \<in> set rs}"
    by (auto simp: List.map_filter_def image_iff split: prod.splits if_splits) force+
  moreover have "(k, d) \<in> set (remdups (map (\<lambda>(t, d, p). (t, d)) rs)) \<longleftrightarrow> (\<exists>p. (k, d, p) \<in> set rs)"
    by force
  ultimately show ?thesis by auto
qed

lemma in_apply_results:
  assumes "manifest_ok m" and "\<forall>(t, d, p) \<in> set rs. t \<in> live_tables m"
  shows "(k, d, p) \<in> set (live_parts (apply_results rs m)) \<longleftrightarrow>
    ((k, d, p) \<in> set (live_parts m) \<and> (\<forall>q. (k, d, q) \<in> set rs \<longrightarrow> pi_name q \<noteq> pi_name p)) \<or> (k, d, p) \<in> set rs"
proof -
  have "distinct (map fst (group_results rs))"
    by (simp add: group_results_def o_def case_prod_beta distinct_remdups)
  moreover have "\<forall>((t, d), ups) \<in> set (group_results rs). t \<in> live_tables m"
    using assms(2) by (auto simp: group_results_def)
  ultimately have *: "(k, d, p) \<in> set (live_parts (apply_results rs m)) \<longleftrightarrow>
     (case map_of (group_results rs) (k, d) of
        None \<Rightarrow> (k, d, p) \<in> set (live_parts m)
      | Some ups \<Rightarrow> ((k, d, p) \<in> set (live_parts m) \<and> pi_name p \<notin> pi_name ` set ups) \<or> p \<in> set ups)"
    using in_fold_merge[OF assms(1), of "group_results rs" k d p] by (simp add: apply_results_def)
  show ?thesis
  proof (cases "map_of (group_results rs) (k, d)")
    case None
    with in_group_results[where rs = rs and k = k and d = d] have "(k, d, q) \<notin> set rs" for q by simp
    with * None show ?thesis by simp
  next
    case (Some ups)
    with in_group_results[where rs = rs and k = k and d = d] have "set ups = {q. (k, d, q) \<in> set rs}" by simp
    with * Some show ?thesis by (simp add: image_iff) metis
  qed
qed

section \<open>What is planned and uploaded\<close>

lemma plan_upload_items:
  assumes "plan_upload env completed m = Inr plan"
  shows "i \<in> set (up_local plan) \<longleftrightarrow> (\<exists>x \<in> set (live_parts m). plan_part env completed m x = Inr (LocalItem i))"
    and "j \<in> set (up_s3_disk plan) \<longleftrightarrow> (\<exists>x \<in> set (live_parts m). plan_part env completed m x = Inr (S3Item j))"
    and "x \<in> set (live_parts m) \<Longrightarrow> \<exists>y. plan_part env completed m x = Inr y"
proof -
  obtain plans where plans: "traverse (plan_table env completed m) (bm_tables m) = Inr plans"
    and plan: "up_local plan = List.map_filter (\<lambda>p. case p of LocalItem i \<Rightarrow> Some i | _ \<Rightarrow> None) (concat plans)"
      "up_s3_disk plan = List.map_filter (\<lambda>p. case p of S3Item i \<Rightarrow> Some i | _ \<Rightarrow> None) (concat plans)"
    using assms by (auto simp: plan_upload_def split: sum.splits)
  have table: "(\<exists>ps. plan_table env completed m kt = Inr ps \<and> p \<in> set ps) \<longleftrightarrow>
      (\<not> tm_metadata_only (snd kt) \<and> (\<exists>x \<in> set (table_parts (fst kt) (snd kt)). plan_part env completed m x = Inr p)
       \<and> (\<exists>ps. plan_table env completed m kt = Inr ps))" for kt p
    by (cases kt) (auto simp: plan_table_def traverse_set(1) split: if_splits)
  have ok: "\<exists>ps. plan_table env completed m kt = Inr ps" if "kt \<in> set (bm_tables m)" for kt
    using traverse_set(2)[OF plans that] by blast
  have all: "p \<in> set (concat plans) \<longleftrightarrow> (\<exists>x \<in> set (live_parts m). plan_part env completed m x = Inr p)" for p
  proof -
    have "p \<in> set (concat plans) \<longleftrightarrow> (\<exists>kt \<in> set (bm_tables m). \<exists>ps. plan_table env completed m kt = Inr ps \<and> p \<in> set ps)"
      unfolding set_concat UN_iff Bex_def traverse_set(1)[OF plans] by blast
    also have "\<dots> \<longleftrightarrow> (\<exists>kt \<in> set (bm_tables m). \<not> tm_metadata_only (snd kt) \<and>
        (\<exists>x \<in> set (table_parts (fst kt) (snd kt)). plan_part env completed m x = Inr p))"
      unfolding table using ok by blast
    also have "\<dots> \<longleftrightarrow> (\<exists>x \<in> set (live_parts m). plan_part env completed m x = Inr p)"
      by (auto simp: live_parts_def case_prod_beta)
    finally show ?thesis .
  qed
  show "i \<in> set (up_local plan) \<longleftrightarrow> (\<exists>x \<in> set (live_parts m). plan_part env completed m x = Inr (LocalItem i))"
    unfolding plan all[symmetric] by (auto simp: List.map_filter_def split: part_plan.splits intro: rev_image_eqI)
  show "j \<in> set (up_s3_disk plan) \<longleftrightarrow> (\<exists>x \<in> set (live_parts m). plan_part env completed m x = Inr (S3Item j))"
    unfolding plan all[symmetric] by (auto simp: List.map_filter_def split: part_plan.splits intro: rev_image_eqI)
  show "\<exists>y. plan_part env completed m x = Inr y" if x: "x \<in> set (live_parts m)"
  proof -
    obtain kt where kt: "kt \<in> set (bm_tables m)" "\<not> tm_metadata_only (snd kt)" "x \<in> set (table_parts (fst kt) (snd kt))"
      using x by (auto simp: live_parts_def split: if_splits)
    then obtain ps where "traverse (plan_part env completed m) (table_parts (fst kt) (snd kt)) = Inr ps"
      using ok[OF kt(1)] by (auto simp: plan_table_def case_prod_beta split: if_splits)
    from traverse_set(2)[OF this kt(3)] show ?thesis by blast
  qed
qed

lemma plan_part_item:
  "plan_part env completed m (k, d, p) = Inr (LocalItem i) \<Longrightarrow>
     uw_table_key i = k \<and> uw_disk_name i = d \<and> uw_part i = p \<and> uw_s3_key i \<noteq> []"
  "plan_part env completed m (k, d, p) = Inr (S3Item j) \<Longrightarrow>
     sw_table_key j = k \<and> sw_disk_name j = d \<and> sw_part j = p"
  by (auto simp: plan_part_def Let_def s3_key_for_part_def split: prod.splits if_splits option.splits)

lemma run_uploads_sound:
  assumes "plan_upload env completed m = Inr plan" and "run_uploads env put copy plan = Inr rs"
    and "(k, d, q) \<in> set rs"
  obtains p where "(k, d, p) \<in> set (live_parts m)" and "pi_name q = pi_name p" and "pi_backup_key q \<noteq> []"
    and "pi_source q = ''uploaded''" and "pi_checksum_crc64 q = pi_checksum_crc64 p"
    and "plan_part env completed m (k, d, p) \<notin> {Inr CarriedSkip, Inr ResumeSkip}"
proof -
  obtain rs1 rs2 where rs1: "traverse (\<lambda>item. case put item of Inl e \<Rightarrow> Inl (TaskFailed e) | Inr n \<Rightarrow> Inr (local_result item n)) (up_local plan) = Inr rs1"
    and rs2: "traverse (\<lambda>item. case copy item of Inl e \<Rightarrow> Inl (TaskFailed e) | Inr _ \<Rightarrow> Inr (s3_disk_result (ue_uni env) item)) (up_s3_disk plan) = Inr rs2"
    and rs: "rs = rs1 @ rs2"
    using assms(2) by (auto simp: run_uploads_def split: sum.splits)
  consider "(k, d, q) \<in> set rs1" | "(k, d, q) \<in> set rs2" using assms(3) rs by auto
  then show thesis
  proof cases
    case 1
    then obtain i n where i: "i \<in> set (up_local plan)" "(k, d, q) = local_result i n"
      using traverse_set(1)[OF rs1, of "(k, d, q)"] by (metis (no_types, lifting) old.sum.exhaust old.sum.simps(5,6) sum.distinct(1) sum.inject(2))
    then obtain k' d' p where x: "(k', d', p) \<in> set (live_parts m)" "plan_part env completed m (k', d', p) = Inr (LocalItem i)"
      using plan_upload_items(1)[OF assms(1)] by auto
    show thesis
      using plan_part_item(1)[OF x(2)] i(2) x by (intro that[of p]) (auto simp: local_result_def)
  next
    case 2
    then obtain i where i: "i \<in> set (up_s3_disk plan)" "(k, d, q) = s3_disk_result (ue_uni env) i"
      using traverse_set(1)[OF rs2, of "(k, d, q)"] by (metis (no_types, lifting) old.sum.exhaust old.sum.simps(5,6) sum.distinct(1) sum.inject(2))
    then obtain k' d' p where x: "(k', d', p) \<in> set (live_parts m)" "plan_part env completed m (k', d', p) = Inr (S3Item i)"
      using plan_upload_items(2)[OF assms(1)] by auto
    show thesis
      using plan_part_item(2)[OF x(2)] i(2) x
      by (intro that[of p]) (auto simp: s3_disk_result_def metadata_key_for_part_def)
  qed
qed

text \<open>
  Where the data of the part \<open>p\<close>, published as \<open>q\<close>, was put: under the key that \<open>q\<close> names, from the
  directory of that part, or, for a part of an S3 disk, every non-empty object under the key that \<open>q\<close> names
  for it.
\<close>

definition uploaded_to ::
    "upload_env \<Rightarrow> (UploadWorkItem \<Rightarrow> string + u64) \<Rightarrow> (S3DiskUploadWorkItem \<Rightarrow> string + unit) \<Rightarrow> string \<Rightarrow> string
      \<Rightarrow> PartInfo \<Rightarrow> PartInfo \<Rightarrow> bool" where
  "uploaded_to env put copy k d p q \<longleftrightarrow>
     (let (db, table) = split_table_key k; dir = ue_find_part_dir env db table (pi_name p) d in
      (\<exists>item. put item = Inr (pi_backup_size q) \<and> uw_s3_key item = pi_backup_key q \<and> dir = Some (uw_part_dir item)
         \<and> pi_backup_key q = s3_key_for_part (ue_uni env) (ue_backup_name env) db table (pi_name p) (ue_data_format env))
      \<or> (\<exists>item srcs objs. copy item = Inr () \<and> dir = Some (sw_part_dir item)
         \<and> pi_backup_key q = metadata_key_for_part (ue_uni env) (ue_backup_name env) db table d (pi_name p)
         \<and> pi_s3_objects p = Some srcs \<and> pi_s3_objects q = Some objs
         \<and> map (\<lambda>o'. (so_path o', so_size o')) objs = map (\<lambda>o'. (so_path o', so_size o')) srcs
         \<and> map snd (copy_requests item) = map so_backup_key (filter (\<lambda>o'. so_size o' \<noteq> 0) objs)
         \<and> map fst (copy_requests item) =
             map (\<lambda>o'. upload_source_key (so_path o') (sw_source_prefix item)) (filter (\<lambda>o'. so_size o' \<noteq> 0) srcs)))"

lemma copied_object_fields [simp]: "so_path (copied_object b x) = so_path x" "so_size (copied_object b x) = so_size x"
  by (simp_all add: copied_object_def)

lemma copy_requests_copied:
  "map snd (copy_requests item) = map so_backup_key (filter (\<lambda>x. so_size x \<noteq> 0) (map (copied_object (sw_backup_name item)) (sw_s3_objects item)))"
  "map fst (copy_requests item) = map (\<lambda>x. upload_source_key (so_path x) (sw_source_prefix item)) (filter (\<lambda>x. so_size x \<noteq> 0) (sw_s3_objects item))"
  by (auto simp: copy_requests_def filter_map o_def copied_object_def)

lemma run_uploads_where:
  assumes "plan_upload env completed m = Inr plan" and "run_uploads env put copy plan = Inr rs"
    and "(k, d, q) \<in> set rs"
  shows "\<exists>p. (k, d, p) \<in> set (live_parts m) \<and> pi_name q = pi_name p \<and> pi_checksum_crc64 q = pi_checksum_crc64 p
    \<and> uploaded_to env put copy k d p q"
proof -
  obtain rs1 rs2 where rs1: "traverse (\<lambda>item. case put item of Inl e \<Rightarrow> Inl (TaskFailed e) | Inr n \<Rightarrow> Inr (local_result item n)) (up_local plan) = Inr rs1"
    and rs2: "traverse (\<lambda>item. case copy item of Inl e \<Rightarrow> Inl (TaskFailed e) | Inr _ \<Rightarrow> Inr (s3_disk_result (ue_uni env) item)) (up_s3_disk plan) = Inr rs2"
    and rs: "rs = rs1 @ rs2"
    using assms(2) by (auto simp: run_uploads_def split: sum.splits)
  consider "(k, d, q) \<in> set rs1" | "(k, d, q) \<in> set rs2" using assms(3) rs by auto
  then show ?thesis
  proof cases
    case 1
    then obtain i where "i \<in> set (up_local plan)"
        "(case put i of Inl e \<Rightarrow> Inl (TaskFailed e) | Inr n \<Rightarrow> Inr (local_result i n)) = Inr (k, d, q)"
      using traverse_set(1)[OF rs1, of "(k, d, q)"] by blast
    then obtain n where i: "i \<in> set (up_local plan)" "put i = Inr n" "(k, d, q) = local_result i n"
      by (cases "put i") simp_all
    then obtain k' d' p where x: "(k', d', p) \<in> set (live_parts m)" "plan_part env completed m (k', d', p) = Inr (LocalItem i)"
      using plan_upload_items(1)[OF assms(1)] by auto
    have "uploaded_to env put copy k d p q"
      using i(2,3) x(2) unfolding uploaded_to_def
      by (auto simp: plan_part_def Let_def local_result_def split: prod.splits if_splits option.splits)
    then show ?thesis using plan_part_item(1)[OF x(2)] i(3) x(1) by (auto simp: local_result_def)
  next
    case 2
    then obtain i where "i \<in> set (up_s3_disk plan)"
        "(case copy i of Inl e \<Rightarrow> Inl (TaskFailed e) | Inr _ \<Rightarrow> Inr (s3_disk_result (ue_uni env) i)) = Inr (k, d, q)"
      using traverse_set(1)[OF rs2, of "(k, d, q)"] by blast
    then have i: "i \<in> set (up_s3_disk plan)" "copy i = Inr ()" "(k, d, q) = s3_disk_result (ue_uni env) i"
      by (cases "copy i"; simp)+
    then obtain k' d' p where x: "(k', d', p) \<in> set (live_parts m)" "plan_part env completed m (k', d', p) = Inr (S3Item i)"
      using plan_upload_items(2)[OF assms(1)] by auto
    have f: "k' = k" "d' = d" "sw_part i = p" "sw_table_key i = k" "sw_disk_name i = d" "sw_backup_name i = ue_backup_name env"
      "split_table_key k = (sw_db i, sw_table i)" "pi_s3_objects p = Some (sw_s3_objects i)"
      "ue_find_part_dir env (sw_db i) (sw_table i) (pi_name p) d = Some (sw_part_dir i)"
      using x(2) i(3) by (auto simp: plan_part_def Let_def s3_disk_result_def split: prod.splits if_splits option.splits)
    have q: "q = p\<lparr>pi_s3_objects := Some (map (copied_object (ue_backup_name env)) (sw_s3_objects i)),
        pi_backup_key := metadata_key_for_part (ue_uni env) (ue_backup_name env) (sw_db i) (sw_table i) d (pi_name p),
        pi_source := ''uploaded'', pi_backup_size := pi_size p\<rparr>"
      using i(3) f by (simp add: s3_disk_result_def)
    have "uploaded_to env put copy k d p q"
      unfolding uploaded_to_def f(7) Let_def prod.case
      by (rule disjI2, rule exI[of _ i]) (use i(2) f copy_requests_copied[of i] in \<open>simp add: q o_def\<close>)
    then show ?thesis using x(1) f q by (intro exI[of _ p]) simp
  qed
qed

lemma run_uploads_complete:
  assumes "plan_upload env completed m = Inr plan" and "run_uploads env put copy plan = Inr rs"
    and "(k, d, p) \<in> set (live_parts m)"
    and "plan_part env completed m (k, d, p) \<notin> {Inr CarriedSkip, Inr ResumeSkip}"
  shows "\<exists>q. (k, d, q) \<in> set rs \<and> pi_name q = pi_name p"
proof -
  obtain rs1 rs2 where rs1: "traverse (\<lambda>item. case put item of Inl e \<Rightarrow> Inl (TaskFailed e) | Inr n \<Rightarrow> Inr (local_result item n)) (up_local plan) = Inr rs1"
    and rs2: "traverse (\<lambda>item. case copy item of Inl e \<Rightarrow> Inl (TaskFailed e) | Inr _ \<Rightarrow> Inr (s3_disk_result (ue_uni env) item)) (up_s3_disk plan) = Inr rs2"
    and rs: "rs = rs1 @ rs2"
    using assms(2) by (auto simp: run_uploads_def split: sum.splits)
  obtain y where y: "plan_part env completed m (k, d, p) = Inr y" using plan_upload_items(3)[OF assms(1,3)] by blast
  show ?thesis
  proof (cases y)
    case (LocalItem i)
    then have "i \<in> set (up_local plan)" using plan_upload_items(1)[OF assms(1)] assms(3) y by auto
    from traverse_set(2)[OF rs1 this] obtain n where "local_result i n \<in> set rs1" by (auto split: sum.splits)
    with plan_part_item(1)[of env completed m k d p i] y LocalItem rs show ?thesis by (fastforce simp: local_result_def)
  next
    case (S3Item j)
    then have "j \<in> set (up_s3_disk plan)" using plan_upload_items(2)[OF assms(1)] assms(3) y by auto
    from traverse_set(2)[OF rs2 this] have "s3_disk_result (ue_uni env) j \<in> set rs2" by (auto split: sum.splits)
    with plan_part_item(2)[of env completed m k d p j] y S3Item rs show ?thesis by (fastforce simp: s3_disk_result_def)
  qed (use assms(4) y in auto)
qed

section \<open>The whole upload\<close>

lemma live_parts_diff:
  "live_parts (fst (diff_parts cur base)) = map (\<lambda>(k, d, p). (k, d, carry_part base k d p)) (live_parts cur)"
proof -
  have "map (\<lambda>(k, d, p). (k, d, carry_part base k d p)) (table_parts key tm) =
      table_parts key (tm\<lparr>tm_parts := map (\<lambda>y. (fst y, map (carry_part base key (fst y)) (snd y))) (tm_parts tm)\<rparr>)" for key tm
    by (simp add: table_parts_def map_concat o_def case_prod_beta)
  then show ?thesis
    unfolding live_parts_def diff_parts_tables map_concat map_map
    by (intro arg_cong[where f = concat] map_cong) (simp_all add: case_prod_beta)
qed

lemma after_diff_ok: "manifest_ok m \<Longrightarrow> manifest_ok (after_diff diff m)"
proof (cases diff)
  case (Some base)
  assume m: "manifest_ok m"
  have keys: "map fst (bm_tables (fst (diff_parts m base))) = map fst (bm_tables m)"
    by (simp add: diff_parts_tables)
  have "list_all (\<lambda>(_, tm). btree_ok (tm_parts tm)) (bm_tables (fst (diff_parts m base)))"
    using m by (auto simp: diff_parts_tables manifest_ok_def list_all_iff btree_ok_def o_def)
  then show ?thesis using m Some btree_ok_map[OF keys] by (simp add: after_diff_def manifest_ok_def)
qed (simp add: after_diff_def)

lemma carry_part_name [simp]: "pi_name (carry_part base k d p) = pi_name p"
  "pi_checksum_crc64 (carry_part base k d p) = pi_checksum_crc64 p"
  by (auto simp: carry_part_def split: option.splits)

lemma after_diff_parts:
  "(k, d, p') \<in> set (live_parts (after_diff diff m)) \<Longrightarrow>
     \<exists>p. (k, d, p) \<in> set (live_parts m) \<and> pi_name p' = pi_name p \<and> pi_checksum_crc64 p' = pi_checksum_crc64 p"
  "(k, d, p) \<in> set (live_parts m) \<Longrightarrow>
     \<exists>p'. (k, d, p') \<in> set (live_parts (after_diff diff m)) \<and> pi_name p' = pi_name p \<and> pi_checksum_crc64 p' = pi_checksum_crc64 p"
proof -
  show "\<exists>p. (k, d, p) \<in> set (live_parts m) \<and> pi_name p' = pi_name p \<and> pi_checksum_crc64 p' = pi_checksum_crc64 p"
    if "(k, d, p') \<in> set (live_parts (after_diff diff m))"
    using that by (cases diff) (auto simp: after_diff_def live_parts_diff)
  show "\<exists>p'. (k, d, p') \<in> set (live_parts (after_diff diff m)) \<and> pi_name p' = pi_name p \<and> pi_checksum_crc64 p' = pi_checksum_crc64 p"
    if p: "(k, d, p) \<in> set (live_parts m)"
  proof (cases diff)
    case (Some base)
    have "(k, d, carry_part base k d p) \<in> set (live_parts (after_diff diff m))"
      using p by (force simp: Some after_diff_def live_parts_diff)
    then show ?thesis by (metis carry_part_name)
  qed (use p in \<open>auto simp: after_diff_def\<close>)
qed

lemma after_diff_distinct: "names_distinct m \<Longrightarrow> names_distinct (after_diff diff m)"
proof (cases diff)
  case (Some base)
  assume m: "names_distinct m"
  show ?thesis
    unfolding names_distinct_def Some after_diff_def option.case live_parts_diff
  proof (intro allI impI)
    fix k d p' q'
    assume "(k, d, p') \<in> set (map (\<lambda>(k, d, p). (k, d, carry_part base k d p)) (live_parts m))"
      and "(k, d, q') \<in> set (map (\<lambda>(k, d, p). (k, d, carry_part base k d p)) (live_parts m))"
      and n: "pi_name p' = pi_name q'"
    then obtain p q where "(k, d, p) \<in> set (live_parts m)" "p' = carry_part base k d p"
      "(k, d, q) \<in> set (live_parts m)" "q' = carry_part base k d q" by auto
    with m n show "p' = q'" unfolding names_distinct_def by (metis carry_part_name(1))
  qed
qed (simp add: after_diff_def)

lemma live_parts_tables: "(k, d, p) \<in> set (live_parts m) \<Longrightarrow> k \<in> live_tables m"
  by (auto simp: in_live_parts live_tables_def)

lemma live_parts_finish [simp]: "live_parts (finish_manifest f m) = live_parts m"
  by (simp add: live_parts_def finish_manifest_def)

lemma upload_innerE:
  assumes "upload_inner env put copy diff completed m = Inr m'"
  obtains plan rs where "plan_upload env completed (after_diff diff m) = Inr plan"
    and "run_uploads env put copy plan = Inr rs" and "live_parts m' = live_parts (apply_results rs (after_diff diff m))"
  using assms by (auto simp: upload_inner_def Let_def split: sum.splits)

text \<open>The published parts: the skipped ones as they were, the others as uploaded.\<close>

lemma in_uploaded:
  assumes "manifest_ok m" and "names_distinct m"
    and plan: "plan_upload env completed (after_diff diff m) = Inr plan" and rs: "run_uploads env put copy plan = Inr rs"
  shows "(k, d, p) \<in> set (live_parts (apply_results rs (after_diff diff m))) \<longleftrightarrow>
    ((k, d, p) \<in> set (live_parts (after_diff diff m))
       \<and> plan_part env completed (after_diff diff m) (k, d, p) \<in> {Inr CarriedSkip, Inr ResumeSkip})
    \<or> (k, d, p) \<in> set rs"
proof -
  let ?m = "after_diff diff m"
  have tabs: "\<forall>(t, d, p) \<in> set rs. t \<in> live_tables ?m"
  proof clarify
    fix t dd q
    assume "(t, dd, q) \<in> set rs"
    then obtain r where "(t, dd, r) \<in> set (live_parts ?m)" by (rule run_uploads_sound[OF plan rs])
    then show "t \<in> live_tables ?m" by (rule live_parts_tables)
  qed
  have "(\<forall>q. (k, d, q) \<in> set rs \<longrightarrow> pi_name q \<noteq> pi_name p) \<longleftrightarrow>
      plan_part env completed ?m (k, d, p) \<in> {Inr CarriedSkip, Inr ResumeSkip}"
    if p: "(k, d, p) \<in> set (live_parts ?m)"
  proof
    show "\<forall>q. (k, d, q) \<in> set rs \<longrightarrow> pi_name q \<noteq> pi_name p \<Longrightarrow>
        plan_part env completed ?m (k, d, p) \<in> {Inr CarriedSkip, Inr ResumeSkip}"
      using run_uploads_complete[OF plan rs p] by blast
    assume skip: "plan_part env completed ?m (k, d, p) \<in> {Inr CarriedSkip, Inr ResumeSkip}"
    show "\<forall>q. (k, d, q) \<in> set rs \<longrightarrow> pi_name q \<noteq> pi_name p"
    proof (intro allI impI notI)
      fix q
      assume q: "(k, d, q) \<in> set rs" "pi_name q = pi_name p"
      from q(1) obtain r where r: "(k, d, r) \<in> set (live_parts ?m)" "pi_name q = pi_name r"
        "plan_part env completed ?m (k, d, r) \<notin> {Inr CarriedSkip, Inr ResumeSkip}"
        by (rule run_uploads_sound[OF plan rs])
      have "r = p" using after_diff_distinct[OF assms(2), of diff] r(1,2) p q(2) unfolding names_distinct_def by simp
      with r(3) skip show False by simp
    qed
  qed
  then show ?thesis using in_apply_results[OF after_diff_ok[OF assms(1)] tabs, of k d p] by blast
qed

lemma plan_part_skip:
  "plan_part env completed m (k, d, p) = Inr CarriedSkip \<longleftrightarrow> starts_with (pi_source p) ''carried:''"
  "completed = {} \<Longrightarrow> plan_part env completed m (k, d, p) \<noteq> Inr ResumeSkip"
  by (auto simp: plan_part_def Let_def split: prod.splits if_splits option.splits)

lemma plan_download_parts:
  "map (\<lambda>i. (dw_table_key i, dw_disk_name i, dw_part i)) (plan_download completed m) =
     filter (\<lambda>(_, _, p). pi_backup_key p \<noteq> [] \<and> pi_backup_key p \<notin> completed) (live_parts m)"
proof -
  have keys: "\<forall>x \<in> set (table_parts key tm). fst x = key" for key tm by (auto simp: table_parts_def)
  have "map (\<lambda>i. (dw_table_key i, dw_disk_name i, dw_part i)) (map (\<lambda>(_, disk_name, part).
           \<lparr>dw_table_key = key, dw_db = fst (split_table_key key), dw_table = snd (split_table_key key),
            dw_disk_name = disk_name, dw_part = part,
            dw_is_s3_disk_part = (disk_is_s3 m disk_name \<and> pi_s3_objects part \<noteq> None)\<rparr>)
         (filter Q (table_parts key tm))) = filter Q (table_parts key tm)" for key tm Q
    using keys[of key tm] by (auto simp: o_def case_prod_beta intro!: map_idI dest: bspec)
  then show ?thesis
    unfolding plan_download_def live_parts_def map_concat filter_concat map_map
    by (intro arg_cong[where f = concat] map_cong) (auto simp: case_prod_beta)
qed

text \<open>A one-part backup, for examples.\<close>

definition sample_manifest :: BackupManifest where
  "sample_manifest = manifest_with_part ''b'' (PartInfo_new ''all_1_1_0'' 10 7)"

definition sample_env :: upload_env where
  "sample_env = \<lparr>ue_uni = (\<lambda>_. False), ue_backup_name = ''b'', ue_data_format = ''lz4'', ue_bucket = ''bucket'',
     ue_find_part_dir = (\<lambda>_ _ _ _. Some ''dir''), ue_dir_exists = (\<lambda>_. True)\<rparr>"

definition sample_published :: "string set \<Rightarrow> BackupManifest" where
  "sample_published completed =
     (case upload_inner sample_env (\<lambda>_. Inr 5) (\<lambda>_. Inr ()) None completed sample_manifest of
        Inr m \<Rightarrow> m | Inl e \<Rightarrow> sample_manifest)"

lemma sample_ok: "manifest_ok sample_manifest" "names_distinct sample_manifest"
proof -
  show "manifest_ok sample_manifest" by code_simp
  have "live_parts sample_manifest = [(''db.t'', ''default'', PartInfo_new ''all_1_1_0'' 10 7)]" by code_simp
  then show "names_distinct sample_manifest" by (simp add: names_distinct_def)
qed

lemma sample_upload:
  "upload_inner sample_env (\<lambda>_. Inr 5) (\<lambda>_. Inr ()) None {} sample_manifest =
     Inr (finish_manifest ''lz4'' (manifest_with_part ''b'' ((PartInfo_new ''all_1_1_0'' 10 7)
       \<lparr>pi_backup_key := ''b/data/db/t/all_1_1_0.tar.lz4'', pi_backup_size := 5\<rparr>)))"
  "upload_inner sample_env (\<lambda>_. Inr 5) (\<lambda>_. Inr ()) None {''b/data/db/t/all_1_1_0.tar.lz4''} sample_manifest =
     Inr (finish_manifest ''lz4'' sample_manifest)"
  by code_simp+

section \<open>Properties\<close>

text \<open>C3. An upload that does not resume publishes a complete manifest: its parts are those of
  the local manifest, carried parts are published as the diff left them, every other part names the key
  under which its data was put from its own directory, or the keys to which the non-empty objects of an
  S3 disk were copied, and a download of the published manifest queues every one of them.\<close>

theorem upload_complete:
  assumes "manifest_ok m" and "names_distinct m"
    and "list_all (\<lambda>(_, _, p). \<not> starts_with (pi_source p) ''carried:'' \<or> pi_backup_key p \<noteq> [])
           (live_parts (after_diff diff m))"
    and "upload_inner env put copy diff {} m = Inr m'"
  shows "(\<lambda>(k, d, p). (k, d, pi_name p, pi_checksum_crc64 p)) ` set (live_parts m')
        = (\<lambda>(k, d, p). (k, d, pi_name p, pi_checksum_crc64 p)) ` set (live_parts m)
    \<and> {x \<in> set (live_parts (after_diff diff m)). starts_with (pi_source (snd (snd x))) ''carried:''} \<subseteq> set (live_parts m')
    \<and> list_all (\<lambda>(_, _, p). pi_backup_key p \<noteq> []) (live_parts m')
    \<and> (\<forall>(k, d, q) \<in> set (live_parts m'). starts_with (pi_source q) ''carried:'' \<or>
         (\<exists>p. (k, d, p) \<in> set (live_parts (after_diff diff m)) \<and> pi_name q = pi_name p
            \<and> pi_checksum_crc64 q = pi_checksum_crc64 p \<and> uploaded_to env put copy k d p q))
    \<and> map (\<lambda>i. (dw_table_key i, dw_disk_name i, dw_part i)) (plan_download {} m') = live_parts m'"
proof -
  let ?m = "after_diff diff m"
  obtain plan rs where plan: "plan_upload env {} ?m = Inr plan" and rs: "run_uploads env put copy plan = Inr rs"
    and m': "live_parts m' = live_parts (apply_results rs ?m)" using assms(4) by (rule upload_innerE)
  have mem: "(k, d, p) \<in> set (live_parts m') \<longleftrightarrow>
      ((k, d, p) \<in> set (live_parts ?m) \<and> starts_with (pi_source p) ''carried:'') \<or> (k, d, p) \<in> set rs" for k d p
    unfolding m' in_uploaded[OF assms(1,2) plan rs] using plan_part_skip(1)[of env "{}" ?m k d p] plan_part_skip(2)[of "{}" env ?m k d p]
    by auto
  have keyed: "pi_backup_key p \<noteq> []" if "(k, d, p) \<in> set (live_parts m')" for k d p
  proof (cases "(k, d, p) \<in> set rs")
    case True
    then show ?thesis by (rule run_uploads_sound[OF plan rs])
  next
    case False
    with that mem assms(3) show ?thesis by (fastforce simp: list_all_iff)
  qed
  have "\<exists>p. (k, d, p) \<in> set (live_parts m) \<and> pi_name q = pi_name p \<and> pi_checksum_crc64 q = pi_checksum_crc64 p"
    if "(k, d, q) \<in> set (live_parts m')" for k d q
  proof (cases "(k, d, q) \<in> set rs")
    case True
    then obtain r where "(k, d, r) \<in> set (live_parts ?m)" "pi_name q = pi_name r" "pi_checksum_crc64 q = pi_checksum_crc64 r"
      by (rule run_uploads_sound[OF plan rs])
    with after_diff_parts(1)[of k d r diff m] show ?thesis by simp
  next
    case False
    with that mem have "(k, d, q) \<in> set (live_parts ?m)" by blast
    then show ?thesis by (rule after_diff_parts(1))
  qed
  moreover have "\<exists>q. (k, d, q) \<in> set (live_parts m') \<and> pi_name q = pi_name p \<and> pi_checksum_crc64 q = pi_checksum_crc64 p"
    if p: "(k, d, p) \<in> set (live_parts m)" for k d p
  proof -
    obtain p' where p': "(k, d, p') \<in> set (live_parts ?m)" "pi_name p' = pi_name p" "pi_checksum_crc64 p' = pi_checksum_crc64 p"
      using after_diff_parts(2)[OF p] by blast
    show ?thesis
    proof (cases "starts_with (pi_source p') ''carried:''")
      case True
      with p' mem show ?thesis by blast
    next
      case False
      then have skip: "plan_part env {} ?m (k, d, p') \<notin> {Inr CarriedSkip, Inr ResumeSkip}"
        using plan_part_skip(1)[of env "{}" ?m k d p'] plan_part_skip(2)[of "{}" env ?m k d p'] by auto
      obtain q where q: "(k, d, q) \<in> set rs" "pi_name q = pi_name p'"
        using run_uploads_complete[OF plan rs p'(1) skip] by blast
      obtain r where "(k, d, r) \<in> set (live_parts ?m)" "pi_name q = pi_name r" "pi_checksum_crc64 q = pi_checksum_crc64 r"
        using q(1) by (rule run_uploads_sound[OF plan rs])
      with after_diff_distinct[OF assms(2), of diff] p'(1) q(2) have "r = p'" unfolding names_distinct_def by metis
      with q p' mem \<open>pi_checksum_crc64 q = pi_checksum_crc64 r\<close> show ?thesis by metis
    qed
  qed
  ultimately have "(\<lambda>(k, d, p). (k, d, pi_name p, pi_checksum_crc64 p)) ` set (live_parts m')
        = (\<lambda>(k, d, p). (k, d, pi_name p, pi_checksum_crc64 p)) ` set (live_parts m)"
    by (auto simp: image_iff split_paired_Ex Bex_def) metis+
  moreover have "list_all (\<lambda>(_, _, p). pi_backup_key p \<noteq> []) (live_parts m')"
    using keyed by (auto simp: list_all_iff)
  moreover from this have "map (\<lambda>i. (dw_table_key i, dw_disk_name i, dw_part i)) (plan_download {} m') = live_parts m'"
    unfolding plan_download_parts by (auto simp: list_all_iff filter_id_conv)
  moreover have "\<forall>(k, d, q) \<in> set (live_parts m'). starts_with (pi_source q) ''carried:'' \<or>
      (\<exists>p. (k, d, p) \<in> set (live_parts ?m) \<and> pi_name q = pi_name p
         \<and> pi_checksum_crc64 q = pi_checksum_crc64 p \<and> uploaded_to env put copy k d p q)"
    using mem run_uploads_where[OF plan rs] by fast
  ultimately show ?thesis using mem by auto
qed

theorem upload_complete_witness:
  "map (\<lambda>i. (dw_table_key i, dw_disk_name i, dw_part i)) (plan_download {} (sample_published {})) =
     live_parts (sample_published {})
   \<and> live_parts (sample_published {}) \<noteq> []"
proof -
  have up: "upload_inner sample_env (\<lambda>_. Inr 5) (\<lambda>_. Inr ()) None {} sample_manifest = Inr (sample_published {})"
    by (simp add: sample_published_def sample_upload(1))
  have "list_all (\<lambda>(_, _, p). \<not> starts_with (pi_source p) ''carried:'' \<or> pi_backup_key p \<noteq> [])
           (live_parts (after_diff None sample_manifest))" by code_simp
  note complete = upload_complete[OF sample_ok this up]
  have "live_parts (sample_published {}) \<noteq> []" by code_simp
  with complete show ?thesis by blast
qed

text \<open>C36. A resumed upload publishes a manifest that has lost the parts of the interrupted run:
  a part whose key the resume state lists is skipped and published as the local manifest has it.
  The local manifest gets its keys only when an upload succeeds, so that part has none, and a
  download of the published backup leaves it out.\<close>

theorem resumed_upload_loses_parts:
  assumes "manifest_ok m" and "names_distinct m"
    and "upload_inner env put copy diff completed m = Inr m'"
    and "(k, d, p) \<in> set (live_parts (after_diff diff m))"
    and "plan_part env completed (after_diff diff m) (k, d, p) = Inr ResumeSkip" and "pi_backup_key p = []"
  shows "(k, d, p) \<in> set (live_parts m')
    \<and> (\<forall>i \<in> set (plan_download {} m'). (dw_table_key i, dw_disk_name i, dw_part i) \<noteq> (k, d, p))"
proof -
  obtain plan rs where plan: "plan_upload env completed (after_diff diff m) = Inr plan" and rs: "run_uploads env put copy plan = Inr rs"
    and m': "live_parts m' = live_parts (apply_results rs (after_diff diff m))" using assms(3) by (rule upload_innerE)
  have "(k, d, p) \<in> set (live_parts m')"
    unfolding m' in_uploaded[OF assms(1,2) plan rs] using assms(4,5) by simp
  moreover have "(k, d, p) \<notin> set (map (\<lambda>i. (dw_table_key i, dw_disk_name i, dw_part i)) (plan_download {} m'))"
    unfolding plan_download_parts using assms(6) by simp
  ultimately show ?thesis by force
qed

theorem resumed_upload_loses_parts_witness:
  "(''db.t'', ''default'', PartInfo_new ''all_1_1_0'' 10 7)
     \<in> set (live_parts (sample_published {''b/data/db/t/all_1_1_0.tar.lz4''}))"
proof -
  have up: "upload_inner sample_env (\<lambda>_. Inr 5) (\<lambda>_. Inr ()) None {''b/data/db/t/all_1_1_0.tar.lz4''} sample_manifest
      = Inr (sample_published {''b/data/db/t/all_1_1_0.tar.lz4''})"
    by (simp add: sample_published_def sample_upload(2))
  have "(''db.t'', ''default'', PartInfo_new ''all_1_1_0'' 10 7) \<in> set (live_parts (after_diff None sample_manifest))"
    and "plan_part sample_env {''b/data/db/t/all_1_1_0.tar.lz4''} (after_diff None sample_manifest)
        (''db.t'', ''default'', PartInfo_new ''all_1_1_0'' 10 7) = Inr ResumeSkip"
    and "pi_backup_key (PartInfo_new ''all_1_1_0'' 10 7) = []" by code_simp+
  from conjunct1[OF resumed_upload_loses_parts[OF sample_ok up this]] show ?thesis .
qed

end
