(* ===== verification/Lock.thy ===== *)
theory Lock
  imports Prelude
begin

text \<open>
  Model of \<^verbatim>\<open>src/lock.rs\<close>: PID lock files, the liveness of their holders, the two
  mutually exclusive tiers and the gate that serialises acquisitions.

  The lock directory is an association list from file names to contents; what serde makes of a
  file is the datatype \<open>contents\<close>. The operating system is the record \<open>os\<close>: the answer of
  \<^verbatim>\<open>kill(pid, 0)\<close> and the line of \<^verbatim>\<open>/proc/<pid>/stat\<close>. \<^verbatim>\<open>PidLock::acquire\<close> takes
  a parameter \<open>others\<close>, what other processes do to the directory before its n-th system call, so
  that interference between its steps is visible; the publish step is one atomic \<^verbatim>\<open>link(2)\<close>.
  Unexpected I/O errors are not modelled.
\<close>

section \<open>Definitions\<close>

subsection \<open>Processes\<close>

datatype kill_reply = KillOk | Eperm | OtherErrno

record os =
  os_kill :: "int \<Rightarrow> kill_reply"
  os_stat :: "u32 \<Rightarrow> string option"

text \<open>\<^verbatim>\<open>str::split_whitespace\<close>; \<open>cur\<close> is the current word, reversed.\<close>

function split_ws :: "string \<Rightarrow> string \<Rightarrow> string list" where
  "split_ws cur [] = (if cur = [] then [] else [rev cur])"
| "split_ws cur (c # cs) =
     (case find (\<lambda>w. w \<noteq> [] \<and> prefix w (c # cs)) ws_strings of
        Some w \<Rightarrow> (if cur = [] then [] else [rev cur]) @ split_ws [] (drop (length w) (c # cs))
      | None \<Rightarrow> split_ws (c # cur) cs)"
  by pat_completeness auto
termination
proof (relation "measure (\<lambda>(_, s). length s)")
  fix cur :: string and c cs w
  assume "find (\<lambda>w. w \<noteq> [] \<and> prefix w (c # cs)) ws_strings = Some w"
  then have "w \<noteq> []" by (auto dest: find_SomeD)
  then show "(([], drop (length w) (c # cs)), cur, c # cs) \<in> measure (\<lambda>(_, s). length s)"
    by (cases w) auto
qed auto

definition rsplit_once_snd :: "char \<Rightarrow> string \<Rightarrow> string option" where
  "rsplit_once_snd c s = (if c \<in> set s then Some (rev (takeWhile (\<lambda>x. x \<noteq> c) (rev s))) else None)"

definition parse_proc_start_time :: "string \<Rightarrow> string option" where
  "parse_proc_start_time stat_line =
     (case rsplit_once_snd CHR '')'' stat_line of
        None \<Rightarrow> None
      | Some after_comm \<Rightarrow>
          (let fields = split_ws [] after_comm in if 19 < length fields then Some (fields ! 19) else None))"

definition process_start_token :: "os \<Rightarrow> u32 \<Rightarrow> string option" where
  "process_start_token os pid =
     (case os_stat os pid of None \<Rightarrow> None | Some content \<Rightarrow> parse_proc_start_time content)"

text \<open>\<^verbatim>\<open>pid as pid_t\<close> reinterprets the 32 bits as a signed number.\<close>

definition is_pid_alive :: "os \<Rightarrow> u32 \<Rightarrow> bool" where
  "is_pid_alive os pid = (if pid = 0 then False else os_kill os (sint pid) \<noteq> OtherErrno)"

definition holder_is_live :: "os \<Rightarrow> u32 \<Rightarrow> string option \<Rightarrow> bool" where
  "holder_is_live os pid token =
     (if \<not> is_pid_alive os pid then False
      else case token of
        None \<Rightarrow> True
      | Some recorded \<Rightarrow>
          (case process_start_token os pid of Some current \<Rightarrow> current = recorded | None \<Rightarrow> True))"

subsection \<open>Lock files\<close>

record LockInfo =
  li_pid :: u32
  li_command :: string
  li_timestamp :: string
  li_token :: "string option"

datatype contents = Info LockInfo | PidOnly u64 "string option" | Garbage

type_synonym dir = "(string \<times> contents) list"

definition dir_write :: "string \<Rightarrow> contents \<Rightarrow> dir \<Rightarrow> dir" where
  "dir_write f c d = (f, c) # filter (\<lambda>(g, _). g \<noteq> f) d"

definition dir_remove :: "string \<Rightarrow> dir \<Rightarrow> dir" where
  "dir_remove f d = filter (\<lambda>(g, _). g \<noteq> f) d"

datatype ExistingLock = Live LockInfo | Stale | Gone | Unreadable

definition inspect_lock_file :: "os \<Rightarrow> dir \<Rightarrow> string \<Rightarrow> ExistingLock" where
  "inspect_lock_file os d path =
     (case map_of d path of
        None \<Rightarrow> Gone
      | Some (Info info) \<Rightarrow> if holder_is_live os (li_pid info) (li_token info) then Live info else Stale
      | Some _ \<Rightarrow> Unreadable)"

definition publish_lock_file :: "string \<Rightarrow> LockInfo \<Rightarrow> dir \<Rightarrow> dir option" where
  "publish_lock_file path info d =
     (case map_of d path of None \<Rightarrow> Some (dir_write path (Info info) d) | Some _ \<Rightarrow> None)"

datatype lock_error =
  HeldBy LockInfo | KeepsReappearing | GateTimeout | GlobalBlockedBy string LockInfo
| BlockedByGlobal LockInfo | NoLockFile

definition CORRUPT_LOCK_MAX_READS :: nat where "CORRUPT_LOCK_MAX_READS = 3"
definition ACQUIRE_MAX_ATTEMPTS :: nat where "ACQUIRE_MAX_ATTEMPTS = 6"

fun acquire_loop ::
    "os \<Rightarrow> (nat \<Rightarrow> dir \<Rightarrow> dir) \<Rightarrow> string \<Rightarrow> LockInfo \<Rightarrow> nat \<Rightarrow> nat \<Rightarrow> nat \<Rightarrow> dir \<Rightarrow> (lock_error + unit) \<times> dir" where
  "acquire_loop os others path info t corrupt_reads 0 d = (Inl KeepsReappearing, d)"
| "acquire_loop os others path info t corrupt_reads (Suc n) d =
     (let d0 = others t d in
      case publish_lock_file path info d0 of
        Some d1 \<Rightarrow> (Inr (), d1)
      | None \<Rightarrow>
          (let d1 = others (t + 1) d0 in
           case inspect_lock_file os d1 path of
             Live existing \<Rightarrow> (Inl (HeldBy existing), d1)
           | Stale \<Rightarrow>
               acquire_loop os others path info (t + 3) corrupt_reads n (dir_remove path (others (t + 2) d1))
           | Gone \<Rightarrow> acquire_loop os others path info (t + 3) corrupt_reads n d1
           | Unreadable \<Rightarrow>
               if corrupt_reads < CORRUPT_LOCK_MAX_READS
               then acquire_loop os others path info (t + 3) (corrupt_reads + 1) n d1
               else acquire_loop os others path info (t + 3) corrupt_reads n
                      (dir_remove path (others (t + 2) d1))))"

definition PidLock_acquire ::
    "os \<Rightarrow> (nat \<Rightarrow> dir \<Rightarrow> dir) \<Rightarrow> string \<Rightarrow> LockInfo \<Rightarrow> dir \<Rightarrow> (lock_error + unit) \<times> dir" where
  "PidLock_acquire os others path info d = acquire_loop os others path info 0 0 ACQUIRE_MAX_ATTEMPTS d"

definition PidLock_drop :: "string \<Rightarrow> dir \<Rightarrow> dir" where
  "PidLock_drop path d = dir_remove path d"

definition is_lock_file_active :: "os \<Rightarrow> dir \<Rightarrow> string \<Rightarrow> bool" where
  "is_lock_file_active os d path =
     (case map_of d path of
        Some (Info info) \<Rightarrow> holder_is_live os (li_pid info) (li_token info)
      | Some (PidOnly pid token) \<Rightarrow> holder_is_live os (ucast pid) token
      | _ \<Rightarrow> False)"

subsection \<open>Scopes\<close>

datatype LockScope = Backup string | Global | NoScope

definition lock_for_command :: "string \<Rightarrow> string option \<Rightarrow> LockScope" where
  "lock_for_command command backup_name =
     (if command \<in> {''create'', ''upload'', ''download'', ''restore'', ''create_remote'', ''restore_remote'',
                    ''release-deferred''}
      then (case backup_name of Some name \<Rightarrow> if name \<noteq> [] then Backup name else Global | None \<Rightarrow> Global)
      else if command \<in> {''clean'', ''clean_broken'', ''clean_broken_remote'', ''clean_broken_local'', ''delete''}
      then Global else NoScope)"

definition LOCK_PREFIX :: string where "LOCK_PREFIX = ''chbackup.''"
definition LOCK_SUFFIX :: string where "LOCK_SUFFIX = ''.pid''"
definition GLOBAL_STEM :: string where "GLOBAL_STEM = ''global''"
definition GATE_LOCK_FILE :: string where "GATE_LOCK_FILE = ''chbackup.acquire.lock''"
definition GATE_MAX_ATTEMPTS :: nat where "GATE_MAX_ATTEMPTS = 40"

definition lock_path_for_scope :: "LockScope \<Rightarrow> string option" where
  "lock_path_for_scope scope =
     (case scope of
        Backup name \<Rightarrow> Some (LOCK_PREFIX @ name @ LOCK_SUFFIX)
      | Global \<Rightarrow> Some (LOCK_PREFIX @ GLOBAL_STEM @ LOCK_SUFFIX)
      | NoScope \<Rightarrow> None)"

definition backup_name_from_lock_file :: "string \<Rightarrow> string option" where
  "backup_name_from_lock_file file_name =
     (case strip_prefix LOCK_PREFIX file_name of
        None \<Rightarrow> None
      | Some rest \<Rightarrow>
          (case strip_suffix LOCK_SUFFIX rest of
             None \<Rightarrow> None
           | Some stem \<Rightarrow> if stem \<noteq> [] \<and> stem \<noteq> GLOBAL_STEM then Some stem else None))"

definition live_lock_holder :: "os \<Rightarrow> dir \<Rightarrow> string \<Rightarrow> LockInfo option" where
  "live_lock_holder os d path =
     (case map_of d path of
        Some (Info info) \<Rightarrow> if holder_is_live os (li_pid info) (li_token info) then Some info else None
      | _ \<Rightarrow> None)"

definition check_cross_tier_exclusion :: "os \<Rightarrow> dir \<Rightarrow> LockScope \<Rightarrow> lock_error + unit" where
  "check_cross_tier_exclusion os d scope =
     (case scope of
        Global \<Rightarrow>
          (case List.map_filter (\<lambda>f. case backup_name_from_lock_file f of
                  None \<Rightarrow> None
                | Some backup \<Rightarrow> map_option (Pair backup) (live_lock_holder os d f)) (map fst d) of
             [] \<Rightarrow> Inr ()
           | (backup, holder) # _ \<Rightarrow> Inl (GlobalBlockedBy backup holder))
      | Backup name \<Rightarrow>
          (case live_lock_holder os d (LOCK_PREFIX @ GLOBAL_STEM @ LOCK_SUFFIX) of
             Some holder \<Rightarrow> Inl (BlockedByGlobal holder)
           | None \<Rightarrow> Inr ())
      | NoScope \<Rightarrow> Inr ())"

text \<open>The gate loop; each attempt of the gate sees what others did since the last.\<close>

fun acquire_gate :: "os \<Rightarrow> (nat \<Rightarrow> nat \<Rightarrow> dir \<Rightarrow> dir) \<Rightarrow> LockInfo \<Rightarrow> nat \<Rightarrow> dir \<Rightarrow> (lock_error + unit) \<times> dir" where
  "acquire_gate os others info 0 d = (Inl GateTimeout, d)"
| "acquire_gate os others info (Suc n) d =
     (case PidLock_acquire os (others n) GATE_LOCK_FILE info d of
        (Inr _, d1) \<Rightarrow> (Inr (), d1)
      | (Inl e, d1) \<Rightarrow> acquire_gate os others info n d1)"

text \<open>
  \<^verbatim>\<open>acquire_scoped\<close>: \<open>others n k\<close> is what other processes do before a system call, in the
  \<open>n\<close>-th attempt at the gate, before the scan (40), during the acquisition (41) and before the gate is
  dropped (42). A caller that is \<open>alone\<close> sees no interference.
\<close>

definition acquire_scoped :: "os \<Rightarrow> (nat \<Rightarrow> nat \<Rightarrow> dir \<Rightarrow> dir) \<Rightarrow> LockScope \<Rightarrow> LockInfo \<Rightarrow> dir \<Rightarrow> (lock_error + unit) \<times> dir" where
  "acquire_scoped os others scope info d =
     (case lock_path_for_scope scope of
        None \<Rightarrow> (Inl NoLockFile, d)
      | Some path \<Rightarrow>
          (case acquire_gate os others info GATE_MAX_ATTEMPTS d of
             (Inl e, d1) \<Rightarrow> (Inl e, d1)
           | (Inr _, d1) \<Rightarrow>
               (let d1 = others 40 0 d1 in
                case check_cross_tier_exclusion os d1 scope of
                  Inl e \<Rightarrow> (Inl e, PidLock_drop GATE_LOCK_FILE (others 42 0 d1))
                | Inr _ \<Rightarrow>
                    (let (r, d2) = PidLock_acquire os (others 41) path info d1
                     in (r, PidLock_drop GATE_LOCK_FILE (others 42 0 d2))))))"

abbreviation alone :: "nat \<Rightarrow> nat \<Rightarrow> dir \<Rightarrow> dir" where
  "alone \<equiv> \<lambda>_ _ d. d"

subsection \<open>One system call at a time\<close>

text \<open>
  Where a call of \<^verbatim>\<open>PidLock::acquire\<close> is: about to publish, about to read the file that was in the way, or
  about to remove it, each with the corrupt reads so far and the attempts left; or done.
\<close>

datatype acq = Publish nat nat | Inspect nat nat | Remove nat nat | Acquired | Refused lock_error

fun acq_step :: "os \<Rightarrow> string \<Rightarrow> LockInfo \<Rightarrow> acq \<Rightarrow> dir \<Rightarrow> acq \<times> dir" where
  "acq_step os path info (Publish c 0) d = (Refused KeepsReappearing, d)"
| "acq_step os path info (Publish c (Suc n)) d =
     (case publish_lock_file path info d of Some d1 \<Rightarrow> (Acquired, d1) | None \<Rightarrow> (Inspect c n, d))"
| "acq_step os path info (Inspect c n) d =
     (case inspect_lock_file os d path of
        Live existing \<Rightarrow> (Refused (HeldBy existing), d)
      | Stale \<Rightarrow> (Remove c n, d)
      | Gone \<Rightarrow> (Publish c n, d)
      | Unreadable \<Rightarrow> if c < CORRUPT_LOCK_MAX_READS then (Publish (c + 1) n, d) else (Remove c n, d))"
| "acq_step os path info (Remove c n) d = (Publish c n, dir_remove path d)"
| "acq_step os path info Acquired d = (Acquired, d)"
| "acq_step os path info (Refused e) d = (Refused e, d)"

text \<open>
  Where a task is in \<^verbatim>\<open>acquire_scoped\<close>: at the gate (with the attempts left after this one), about to list
  the directory, reading the listed lock files, taking the lock of its scope, about to drop the gate (with
  the lock or without it), or past it and holding the lock.
\<close>

datatype pc =
  Idle
| Gating LockScope LockInfo nat acq
| Scanning LockScope LockInfo "string list option"
| Taking LockScope LockInfo acq
| Leaving LockScope LockInfo bool
| Holding LockScope LockInfo

definition scope_file :: "LockScope \<Rightarrow> string" where
  "scope_file scope = (case lock_path_for_scope scope of Some path \<Rightarrow> path | None \<Rightarrow> [])"

text \<open>The files that the cross-tier check reads.\<close>

definition scan_files :: "LockScope \<Rightarrow> dir \<Rightarrow> string list" where
  "scan_files scope d =
     (case scope of
        Global \<Rightarrow> filter (\<lambda>f. backup_name_from_lock_file f \<noteq> None) (map fst d)
      | Backup _ \<Rightarrow> [LOCK_PREFIX @ GLOBAL_STEM @ LOCK_SUFFIX]
      | NoScope \<Rightarrow> [])"

definition fresh_acq :: acq where
  "fresh_acq = Publish 0 ACQUIRE_MAX_ATTEMPTS"

fun pc_step :: "os \<Rightarrow> pc \<Rightarrow> dir \<Rightarrow> pc \<times> dir" where
  "pc_step os Idle d = (Idle, d)"
| "pc_step os (Gating scope info n a) d =
     (case acq_step os GATE_LOCK_FILE info a d of
        (Acquired, d1) \<Rightarrow> (Scanning scope info None, d1)
      | (Refused e, d1) \<Rightarrow> (case n of 0 \<Rightarrow> Idle | Suc m \<Rightarrow> Gating scope info m fresh_acq, d1)
      | (a1, d1) \<Rightarrow> (Gating scope info n a1, d1))"
| "pc_step os (Scanning scope info None) d = (Scanning scope info (Some (scan_files scope d)), d)"
| "pc_step os (Scanning scope info (Some [])) d = (Taking scope info fresh_acq, d)"
| "pc_step os (Scanning scope info (Some (f # fs))) d =
     (if live_lock_holder os d f \<noteq> None then Leaving scope info False else Scanning scope info (Some fs), d)"
| "pc_step os (Taking scope info a) d =
     (case acq_step os (scope_file scope) info a d of
        (Acquired, d1) \<Rightarrow> (Leaving scope info True, d1)
      | (Refused e, d1) \<Rightarrow> (Leaving scope info False, d1)
      | (a1, d1) \<Rightarrow> (Taking scope info a1, d1))"
| "pc_step os (Leaving scope info got) d =
     (if got then Holding scope info else Idle, PidLock_drop GATE_LOCK_FILE d)"
| "pc_step os (Holding scope info) d = (Idle, PidLock_drop (scope_file scope) d)"

section \<open>The directory\<close>

lemma map_of_dir_remove [simp]: "map_of (dir_remove f d) g = (if g = f then None else map_of d g)"
  unfolding dir_remove_def by (induction d) auto

lemma map_of_dir_write [simp]: "map_of (dir_write f c d) g = (if g = f then Some c else map_of d g)"
  using map_of_dir_remove[of f d g] by (simp add: dir_write_def dir_remove_def)

lemma dir_write_remove [simp]: "dir_write f c (dir_remove f d) = dir_write f c d"
  by (simp add: dir_write_def dir_remove_def)

lemma dir_write_absent: "dir_write f c (dir_write f c' d) = dir_write f c d"
  by (simp add: dir_write_def filter_id_conv split: prod.splits)

lemma inspect_not_gone: "inspect_lock_file os d path \<noteq> Gone \<longleftrightarrow> map_of d path \<noteq> None"
  by (auto simp: inspect_lock_file_def split: option.splits contents.splits)

lemma live_lock_holder_inspect: "live_lock_holder os d path = Some i \<longleftrightarrow> inspect_lock_file os d path = Live i"
  by (auto simp: live_lock_holder_def inspect_lock_file_def split: option.splits contents.splits)

section \<open>Acquisition without interference\<close>

lemma publish_gone: "map_of d path = None \<Longrightarrow> publish_lock_file path info d = Some (dir_write path (Info info) d)"
  "map_of d path \<noteq> None \<Longrightarrow> publish_lock_file path info d = None"
  by (auto simp: publish_lock_file_def)

lemma acquire_loop_free:
  "map_of d path = None \<Longrightarrow>
     acquire_loop os (\<lambda>_ d. d) path info t c (Suc n) d = (Inr (), dir_write path (Info info) d)"
  by (simp add: publish_gone)

lemma acquire_loop_live:
  "inspect_lock_file os d path = Live e \<Longrightarrow> acquire_loop os (\<lambda>_ d. d) path info t c (Suc n) d = (Inl (HeldBy e), d)"
  using inspect_not_gone[of os d path] by (simp add: publish_gone)

lemma acquire_loop_removed:
  "acquire_loop os (\<lambda>_ d. d) path info t c (Suc n) (dir_remove path d) = (Inr (), dir_write path (Info info) d)"
  using acquire_loop_free[of "dir_remove path d" path os info t c n] by simp

lemma acquire_loop_stale:
  assumes "inspect_lock_file os d path = Stale"
  shows "acquire_loop os (\<lambda>_ d. d) path info t c (Suc (Suc n)) d = (Inr (), dir_write path (Info info) d)"
proof -
  have "map_of d path \<noteq> None" using assms inspect_not_gone[of os d path] by simp
  with assms show ?thesis
    using acquire_loop_removed[of os path info "t + 3" c n d]
    by (simp add: publish_gone del: acquire_loop.simps(2)
        add: acquire_loop.simps(2)[of os _ path info t c "Suc n" d])
qed

lemma acquire_loop_unreadable:
  assumes "inspect_lock_file os d path = Unreadable" and "c \<le> 3"
  shows "acquire_loop os (\<lambda>_ d. d) path info t c (5 - c + k) d = (Inr (), dir_write path (Info info) d)"
  using assms(2)
proof (induction "3 - c" arbitrary: c t)
  case 0
  then have c: "c = 3" by simp
  have "map_of d path \<noteq> None" using assms(1) inspect_not_gone[of os d path] by simp
  with assms(1) c show ?case
    using acquire_loop_removed[of os path info "t + 3" 3 k d]
    by (simp add: publish_gone CORRUPT_LOCK_MAX_READS_def del: acquire_loop.simps(2)
        add: acquire_loop.simps(2)[of os _ path info t 3 "Suc k" d])
next
  case (Suc x)
  then have c: "c < 3" and n: "5 - c + k = Suc (5 - (c + 1) + k)" by simp_all
  have "map_of d path \<noteq> None" using assms(1) inspect_not_gone[of os d path] by simp
  with assms(1) c show ?case
    unfolding n using Suc.hyps(1)[of "c + 1" "t + 3"] Suc.hyps(2) Suc.prems
    by (simp add: publish_gone CORRUPT_LOCK_MAX_READS_def)
qed

lemma PidLock_acquire_alone:
  "PidLock_acquire os (\<lambda>_ d. d) path info d =
     (case inspect_lock_file os d path of
        Live e \<Rightarrow> (Inl (HeldBy e), d)
      | _ \<Rightarrow> (Inr (), dir_write path (Info info) d))"
proof (cases "inspect_lock_file os d path")
  case (Live e)
  then show ?thesis
    using acquire_loop_live[OF Live, of info 0 0 5] by (simp add: PidLock_acquire_def ACQUIRE_MAX_ATTEMPTS_def eval_nat_numeral)
next
  case Stale
  then show ?thesis
    using acquire_loop_stale[OF Stale, of info 0 0 4] by (simp add: PidLock_acquire_def ACQUIRE_MAX_ATTEMPTS_def eval_nat_numeral)
next
  case Gone
  then have "map_of d path = None" using inspect_not_gone[of os d path] by blast
  then show ?thesis
    using Gone acquire_loop_free[of d path os info 0 0 5] by (simp add: PidLock_acquire_def ACQUIRE_MAX_ATTEMPTS_def eval_nat_numeral)
next
  case Unreadable
  then show ?thesis
    using acquire_loop_unreadable[OF Unreadable, of 0 info 0 1] by (simp add: PidLock_acquire_def ACQUIRE_MAX_ATTEMPTS_def)
qed

lemma acquire_gate_alone:
  "acquire_gate os alone info (Suc n) d =
     (case inspect_lock_file os d GATE_LOCK_FILE of
        Live e \<Rightarrow> (Inl GateTimeout, d)
      | _ \<Rightarrow> (Inr (), dir_write GATE_LOCK_FILE (Info info) d))"
  by (induction n) (auto simp: PidLock_acquire_alone split: ExistingLock.splits)

lemma GATE_MAX_ATTEMPTS_Suc: "GATE_MAX_ATTEMPTS = Suc 39"
  by (simp add: GATE_MAX_ATTEMPTS_def)

lemma inspect_cong: "map_of d path = map_of d' path \<Longrightarrow> inspect_lock_file os d path = inspect_lock_file os d' path"
  by (simp add: inspect_lock_file_def)

lemma scope_path_not_gate: "lock_path_for_scope scope = Some path \<Longrightarrow> path \<noteq> GATE_LOCK_FILE"
proof -
  assume "lock_path_for_scope scope = Some path"
  then have "suffix LOCK_SUFFIX path" by (auto simp: lock_path_for_scope_def suffix_def split: LockScope.splits)
  moreover have "\<not> suffix LOCK_SUFFIX GATE_LOCK_FILE" by code_simp
  ultimately show ?thesis by auto
qed

section \<open>Processes as the kernel reports them\<close>

text \<open>
  Running processes are a map from PIDs to start times. \<^verbatim>\<open>kill(pid, 0)\<close> succeeds exactly for
  them, and \<^verbatim>\<open>/proc/<pid>/stat\<close> has the documented shape, with the start time as field 22.
\<close>

type_synonym procs = "u32 \<Rightarrow> nat option"

definition stat_tail :: "nat \<Rightarrow> string" where
  "stat_tail start = '' S'' @ concat (replicate 18 '' 0'') @ '' '' @ nat_to_string start @ '' 0''"

definition stat_line :: "nat \<Rightarrow> string" where
  "stat_line start = ''1 (chbackup)'' @ stat_tail start"

definition kernel :: "procs \<Rightarrow> os" where
  "kernel procs = \<lparr>os_kill = (\<lambda>i. if procs (word_of_int i) = None then OtherErrno else KillOk),
                   os_stat = (\<lambda>pid. map_option stat_line (procs pid))\<rparr>"

definition plain :: "char \<Rightarrow> bool" where
  "plain c \<longleftrightarrow> list_all (\<lambda>w. w = [] \<or> hd w \<noteq> c) ws_strings"

lemma split_ws_plain: "plain c \<Longrightarrow> split_ws cur (c # s) = split_ws (c # cur) s"
proof -
  assume "plain c"
  then have "find (\<lambda>w. w \<noteq> [] \<and> prefix w (c # s)) ws_strings = None"
    by (auto simp: plain_def find_None_iff list_all_iff prefix_def Cons_eq_append_conv)
  then show ?thesis by simp
qed

lemma split_ws_word: "list_all plain w \<Longrightarrow> split_ws cur (w @ s) = split_ws (rev w @ cur) s"
  by (induction w arbitrary: cur) (simp_all add: split_ws_plain del: split_ws.simps(2))

lemma split_ws_space: "split_ws cur (CHR '' '' # s) = (if cur = [] then [] else [rev cur]) @ split_ws [] s"
proof -
  have "find (\<lambda>w. w \<noteq> [] \<and> prefix w (CHR '' '' # s)) ws_strings = Some '' ''"
  proof -
    have ws: "ws_strings = [[CHR 0x09], [CHR 0x0A], [CHR 0x0B], [CHR 0x0C], [CHR 0x0D]] @ '' '' # drop 6 ws_strings"
      by code_simp
    show ?thesis by (subst ws) simp
  qed
  then show ?thesis by simp
qed

lemma plain_chars: "plain (CHR ''0'')" "plain (CHR ''S'')"
  by code_simp+

lemma plain_digits: "is_digit c \<Longrightarrow> plain c"
  using ws_not_digit by (auto simp: plain_def list_all_iff)

lemma split_ws_zeros:
  "split_ws cur (concat (replicate n '' 0'') @ CHR '' '' # s) =
     (if cur = [] then [] else [rev cur]) @ replicate n ''0'' @ split_ws [] s"
proof (induction n arbitrary: cur)
  case (Suc n)
  have "split_ws cur (concat (replicate (Suc n) '' 0'') @ CHR '' '' # s)
      = (if cur = [] then [] else [rev cur]) @ split_ws ''0'' (concat (replicate n '' 0'') @ CHR '' '' # s)"
    by (simp add: split_ws_space split_ws_plain[OF plain_chars(1)] del: split_ws.simps(2))
  then show ?case by (simp add: Suc.IH del: split_ws.simps(2))
qed (simp add: split_ws_space del: split_ws.simps(2))

lemma parse_stat_line: "parse_proc_start_time (stat_line start) = Some (nat_to_string start)"
proof -
  have digits: "list_all plain (nat_to_string start)"
    using nat_to_string_digits[of start] by (auto simp: list_all_iff plain_digits)
  have words: "split_ws [] (stat_tail start) = ''S'' # replicate 18 ''0'' @ [nat_to_string start, ''0'']"
    unfolding stat_tail_def
    using split_ws_zeros[of "''S''" 18 "nat_to_string start @ '' 0''"] split_ws_word[OF digits, of "[]" "'' 0''"]
    by (simp add: split_ws_space split_ws_plain[OF plain_chars(2)] split_ws_plain[OF plain_chars(1)] del: split_ws.simps(2))
  have nd: "CHR '')'' \<notin> set (stat_tail start)"
  proof -
    have "\<not> is_digit (CHR '')'')" by code_simp
    then show ?thesis by (simp add: stat_tail_def not_digit_in_nat_to_string)
  qed
  have "takeWhile (\<lambda>x. x \<noteq> CHR '')'') (rev (stat_tail start) @ CHR '')'' # rev ''1 (chbackup'') = rev (stat_tail start)"
    using nd by (subst takeWhile_append2) auto
  then have "rsplit_once_snd CHR '')'' (stat_line start) = Some (stat_tail start)"
    by (simp add: rsplit_once_snd_def stat_line_def)
  with words show ?thesis by (simp add: parse_proc_start_time_def nth_append)
qed

lemma kernel_token [simp]: "process_start_token (kernel procs) pid = map_option nat_to_string (procs pid)"
  by (cases "procs pid") (simp_all add: process_start_token_def kernel_def parse_stat_line)

lemma kernel_alive [simp]: "is_pid_alive (kernel procs) pid \<longleftrightarrow> pid \<noteq> 0 \<and> procs pid \<noteq> None"
  by (simp add: is_pid_alive_def kernel_def)

lemma kernel_live [simp]:
  "holder_is_live (kernel procs) pid (Some (nat_to_string t)) \<longleftrightarrow> pid \<noteq> 0 \<and> procs pid = Some t"
proof -
  have "nat_to_string a = nat_to_string b \<longleftrightarrow> a = b" for a b by (metis nat_to_string_val)
  then show ?thesis by (auto simp: holder_is_live_def split: option.splits)
qed

section \<open>The tiers as a transition system\<close>

text \<open>
  Tasks of any number of processes, each where its program counter says, over one directory. Processes
  start and are killed at any time, leaving their files behind; a task of a running process starts to
  acquire the lock of a command; and any task makes its next system call. \<open>ls_crashed\<close> records that some
  process was killed while one of its tasks held the gate.
\<close>

record lock_state =
  ls_procs :: procs
  ls_dir :: dir
  ls_pc :: "nat \<Rightarrow> pc"
  ls_crashed :: bool

fun pc_info :: "pc \<Rightarrow> (LockScope \<times> LockInfo) option" where
  "pc_info Idle = None"
| "pc_info (Gating a f n q) = Some (a, f)"
| "pc_info (Scanning a f fs) = Some (a, f)"
| "pc_info (Taking a f q) = Some (a, f)"
| "pc_info (Leaving a f got) = Some (a, f)"
| "pc_info (Holding a f) = Some (a, f)"

definition pc_pid :: "pc \<Rightarrow> u32 option" where
  "pc_pid c = map_option (\<lambda>(_, f). li_pid f) (pc_info c)"

fun in_gate :: "pc \<Rightarrow> bool" where
  "in_gate (Scanning a f fs) = True"
| "in_gate (Taking a f q) = True"
| "in_gate (Leaving a f got) = True"
| "in_gate _ = False"

fun lock_held :: "pc \<Rightarrow> (LockScope \<times> LockInfo) option" where
  "lock_held (Leaving a f True) = Some (a, f)"
| "lock_held (Holding a f) = Some (a, f)"
| "lock_held _ = None"

inductive lock_step :: "lock_state \<Rightarrow> lock_state \<Rightarrow> bool" where
  spawn: "p \<noteq> 0 \<Longrightarrow> ls_procs s p = None \<Longrightarrow> lock_step s (s\<lparr>ls_procs := (ls_procs s)(p \<mapsto> t)\<rparr>)"
| kill: "lock_step s (s\<lparr>ls_procs := (ls_procs s)(p := None),
    ls_pc := (\<lambda>i. if pc_pid (ls_pc s i) = Some p then Idle else ls_pc s i),
    ls_crashed := ls_crashed s \<or> (\<exists>i. pc_pid (ls_pc s i) = Some p \<and> in_gate (ls_pc s i))\<rparr>)"
| start: "ls_pc s i = Idle \<Longrightarrow> ls_procs s p = Some t \<Longrightarrow> p \<noteq> 0 \<Longrightarrow> li_pid info = p \<Longrightarrow>
    li_token info = Some (nat_to_string t) \<Longrightarrow> lock_for_command command name = scope \<Longrightarrow> scope \<noteq> NoScope \<Longrightarrow>
    lock_step s (s\<lparr>ls_pc := (ls_pc s)(i := Gating scope info (GATE_MAX_ATTEMPTS - 1) fresh_acq)\<rparr>)"
| run: "pc_step (kernel (ls_procs s)) (ls_pc s i) (ls_dir s) = (c, d) \<Longrightarrow>
    lock_step s (s\<lparr>ls_pc := (ls_pc s)(i := c), ls_dir := d\<rparr>)"

inductive_cases lock_stepE: "lock_step s s'"

text \<open>No task runs yet and no gate is left from earlier; the directory may hold anything else.\<close>

definition lock_init :: "lock_state \<Rightarrow> bool" where
  "lock_init s \<longleftrightarrow> (\<forall>i. ls_pc s i = Idle) \<and> map_of (ls_dir s) GATE_LOCK_FILE = None"

text \<open>
  The invariant. A task that runs belongs to a live process; the gate file is there exactly when one task is
  behind the gate, and it names that task; nobody is about to remove it. The file of a held lock names its
  holder; locks held together are compatible. A task that reads lock files has still to read those that
  conflict with it, and a task that takes its lock meets no conflict in the other tier and removes no file
  of a holder.
\<close>

definition alive :: "procs \<Rightarrow> LockInfo \<Rightarrow> bool" where
  "alive procs f \<longleftrightarrow> li_pid f \<noteq> 0 \<and> (\<exists>t. li_token f = Some (nat_to_string t) \<and> procs (li_pid f) = Some t)"

definition compatible :: "LockScope \<Rightarrow> LockScope \<Rightarrow> bool" where
  "compatible a b \<longleftrightarrow> scope_file a \<noteq> scope_file b \<and> a \<noteq> Global \<and> b \<noteq> Global"

definition tiers_ok :: "LockScope \<Rightarrow> LockScope \<Rightarrow> bool" where
  "tiers_ok a b \<longleftrightarrow> scope_file a = scope_file b \<or> a \<noteq> Global \<and> b \<noteq> Global"

definition tasks_inv :: "procs \<Rightarrow> (nat \<Rightarrow> pc) \<Rightarrow> bool" where
  "tasks_inv procs pc \<longleftrightarrow>
     (\<forall>i a f. pc_info (pc i) = Some (a, f) \<longrightarrow> alive procs f \<and> a \<noteq> NoScope \<and> a \<noteq> Backup [])"

definition gate_inv :: "dir \<Rightarrow> (nat \<Rightarrow> pc) \<Rightarrow> bool" where
  "gate_inv d pc \<longleftrightarrow>
     (\<forall>i j. in_gate (pc i) \<longrightarrow> in_gate (pc j) \<longrightarrow> i = j)
     \<and> (\<forall>i a f. in_gate (pc i) \<longrightarrow> pc_info (pc i) = Some (a, f) \<longrightarrow> map_of d GATE_LOCK_FILE = Some (Info f))
     \<and> ((\<forall>i. \<not> in_gate (pc i)) \<longrightarrow> map_of d GATE_LOCK_FILE = None)
     \<and> (\<forall>i a f n c m. pc i \<noteq> Gating a f n (Remove c m))"

definition held_inv :: "dir \<Rightarrow> (nat \<Rightarrow> pc) \<Rightarrow> bool" where
  "held_inv d pc \<longleftrightarrow>
     (\<forall>i a f. lock_held (pc i) = Some (a, f) \<longrightarrow> map_of d (scope_file a) = Some (Info f))
     \<and> (\<forall>i j a f b g. lock_held (pc i) = Some (a, f) \<longrightarrow> lock_held (pc j) = Some (b, g) \<longrightarrow> i \<noteq> j \<longrightarrow> compatible a b)"

definition scan_inv :: "(nat \<Rightarrow> pc) \<Rightarrow> bool" where
  "scan_inv pc \<longleftrightarrow>
     (\<forall>i j a f fs b g. pc i = Scanning a f (Some fs) \<longrightarrow> lock_held (pc j) = Some (b, g) \<longrightarrow>
        tiers_ok a b \<or> scope_file b \<in> set fs)
     \<and> (\<forall>i j a f q b g. pc i = Taking a f q \<longrightarrow> lock_held (pc j) = Some (b, g) \<longrightarrow>
        tiers_ok a b)
     \<and> (\<forall>i j a f c m b g. pc i = Taking a f (Remove c m) \<longrightarrow> lock_held (pc j) = Some (b, g) \<longrightarrow>
        scope_file b \<noteq> scope_file a)"

definition acq_inv :: "(nat \<Rightarrow> pc) \<Rightarrow> bool" where
  "acq_inv pc \<longleftrightarrow> (\<forall>i a f n. pc i \<noteq> Gating a f n Acquired \<and> pc i \<noteq> Taking a f Acquired)"

definition lock_inv :: "lock_state \<Rightarrow> bool" where
  "lock_inv s \<longleftrightarrow> ls_crashed s \<or>
     tasks_inv (ls_procs s) (ls_pc s) \<and> gate_inv (ls_dir s) (ls_pc s) \<and> held_inv (ls_dir s) (ls_pc s)
     \<and> scan_inv (ls_pc s) \<and> acq_inv (ls_pc s)"

lemma scope_file_path: "a \<noteq> NoScope \<Longrightarrow> lock_path_for_scope a = Some (scope_file a)"
  by (cases a) (auto simp: scope_file_def lock_path_for_scope_def)

lemma scope_file_not_gate: "a \<noteq> NoScope \<Longrightarrow> scope_file a \<noteq> GATE_LOCK_FILE"
  using scope_file_path scope_path_not_gate by blast

lemma lock_for_command_named: "lock_for_command command name \<noteq> Backup []"
  by (auto simp: lock_for_command_def split: option.splits)

lemma alive_live:
  assumes "alive procs f" and "map_of d path = Some (Info f)"
  shows "inspect_lock_file (kernel procs) d path = Live f" and "live_lock_holder (kernel procs) d path = Some f"
    and "is_lock_file_active (kernel procs) d path"
  using assms by (auto simp: alive_def inspect_lock_file_def live_lock_holder_def is_lock_file_active_def)

lemma lock_held_info: "lock_held c = Some x \<Longrightarrow> pc_info c = Some x"
  by (cases c rule: lock_held.cases) auto

lemma compatible_sym: "compatible a b \<Longrightarrow> compatible b a"
  by (auto simp: compatible_def)

lemma tasks_invD: "tasks_inv procs pc \<Longrightarrow> pc_info (pc i) = Some (a, f) \<Longrightarrow> alive procs f \<and> a \<noteq> NoScope \<and> a \<noteq> Backup []"
  by (simp add: tasks_inv_def)

lemma held_invI:
  "(\<And>i a f. lock_held (pc i) = Some (a, f) \<Longrightarrow> map_of d (scope_file a) = Some (Info f)) \<Longrightarrow>
   (\<And>i j a f b g. lock_held (pc i) = Some (a, f) \<Longrightarrow> lock_held (pc j) = Some (b, g) \<Longrightarrow> i \<noteq> j \<Longrightarrow> compatible a b) \<Longrightarrow>
   held_inv d pc"
  unfolding held_inv_def by blast

lemma held_invD:
  assumes "held_inv d pc" and "lock_held (pc i) = Some (a, f)"
  shows "map_of d (scope_file a) = Some (Info f)"
    and "lock_held (pc j) = Some (b, g) \<Longrightarrow> i \<noteq> j \<Longrightarrow> compatible a b"
  using assms unfolding held_inv_def by blast+

lemma scan_invI:
  "(\<And>i j a f fs b g. pc i = Scanning a f (Some fs) \<Longrightarrow> lock_held (pc j) = Some (b, g) \<Longrightarrow> tiers_ok a b \<or> scope_file b \<in> set fs) \<Longrightarrow>
   (\<And>i j a f q b g. pc i = Taking a f q \<Longrightarrow> lock_held (pc j) = Some (b, g) \<Longrightarrow> tiers_ok a b) \<Longrightarrow>
   (\<And>i j a f c m b g. pc i = Taking a f (Remove c m) \<Longrightarrow> lock_held (pc j) = Some (b, g) \<Longrightarrow> scope_file b \<noteq> scope_file a) \<Longrightarrow>
   scan_inv pc"
  unfolding scan_inv_def by blast

lemma scan_invD:
  assumes "scan_inv pc" and "lock_held (pc j) = Some (b, g)"
  shows "pc i = Scanning a f (Some fs) \<Longrightarrow> tiers_ok a b \<or> scope_file b \<in> set fs"
    and "pc i = Taking a f q \<Longrightarrow> tiers_ok a b"
    and "pc i = Taking a f (Remove c m) \<Longrightarrow> scope_file b \<noteq> scope_file a"
  using assms unfolding scan_inv_def by metis+

lemma gate_invI:
  "(\<And>i j. in_gate (pc i) \<Longrightarrow> in_gate (pc j) \<Longrightarrow> i = j) \<Longrightarrow>
   (\<And>i a f. in_gate (pc i) \<Longrightarrow> pc_info (pc i) = Some (a, f) \<Longrightarrow> map_of d GATE_LOCK_FILE = Some (Info f)) \<Longrightarrow>
   (\<forall>i. \<not> in_gate (pc i) \<Longrightarrow> map_of d GATE_LOCK_FILE = None) \<Longrightarrow>
   (\<And>i a f n c m. pc i \<noteq> Gating a f n (Remove c m)) \<Longrightarrow> gate_inv d pc"
  unfolding gate_inv_def by blast

lemma gate_invD:
  assumes "gate_inv d pc"
  shows "in_gate (pc i) \<Longrightarrow> in_gate (pc j) \<Longrightarrow> i = j"
    and "in_gate (pc i) \<Longrightarrow> pc_info (pc i) = Some (a, f) \<Longrightarrow> map_of d GATE_LOCK_FILE = Some (Info f)"
    and "\<forall>i. \<not> in_gate (pc i) \<Longrightarrow> map_of d GATE_LOCK_FILE = None"
    and "pc i \<noteq> Gating a f n (Remove c m)"
  using assms unfolding gate_inv_def by blast+

text \<open>What the invariants need when one task moves on.\<close>

lemma tasks_keep:
  "tasks_inv procs pc \<Longrightarrow> pc_info c = None \<or> pc_info c = pc_info (pc i) \<Longrightarrow> tasks_inv procs (pc(i := c))"
  unfolding tasks_inv_def by (metis fun_upd_apply option.distinct(1))

lemma gate_keep:
  assumes inv: "gate_inv d pc" and g: "in_gate c = in_gate (pc i)" and f: "in_gate c \<longrightarrow> pc_info c = pc_info (pc i)"
    and d: "map_of d' GATE_LOCK_FILE = map_of d GATE_LOCK_FILE" and r: "\<forall>a f n k m. c \<noteq> Gating a f n (Remove k m)"
  shows "gate_inv d' (pc(i := c))"
proof -
  have same: "in_gate ((pc(i := c)) k) = in_gate (pc k)" for k using g by simp
  have info: "pc_info ((pc(i := c)) k) = pc_info (pc k)" if "in_gate (pc k)" for k
    using f g that by (cases "k = i") simp_all
  have no: "(pc(i := c)) k \<noteq> Gating a h n (Remove m l)" for k a h n m l using gate_invD(4)[OF inv] r by simp
  show ?thesis
    by (rule gate_invI) (unfold same d, (use gate_invD[OF inv] info no in metis)+)
qed

lemma lock_held_keep:
  "lock_held c = None \<or> lock_held c = lock_held (pc i) \<Longrightarrow> lock_held ((pc(i := c)) k) = Some x \<Longrightarrow> lock_held (pc k) = Some x"
  by (auto split: if_splits)

lemma held_keep:
  assumes inv: "held_inv d pc" and c: "lock_held c = None \<or> lock_held c = lock_held (pc i)"
    and d: "\<And>j b g. lock_held ((pc(i := c)) j) = Some (b, g) \<Longrightarrow> map_of d' (scope_file b) = map_of d (scope_file b)"
  shows "held_inv d' (pc(i := c))"
proof -
  note k = lock_held_keep[of c pc i, OF c]
  show ?thesis using held_invD[OF inv k] k d by (intro held_invI) metis+
qed

lemma scan_keep:
  assumes inv: "scan_inv pc" and c: "lock_held c = None \<or> lock_held c = lock_held (pc i)"
    and n: "\<forall>a f fs. c \<noteq> Scanning a f (Some fs)" "\<forall>a f q. c \<noteq> Taking a f q"
  shows "scan_inv (pc(i := c))"
proof -
  have "(pc(i := c)) k = Scanning a f (Some fs) \<Longrightarrow> pc k = Scanning a f (Some fs)"
    "(pc(i := c)) k = Taking a f q \<Longrightarrow> pc k = Taking a f q" for k a f fs q
    using n by (auto split: if_splits)
  then show ?thesis using scan_invD[OF inv lock_held_keep[of c pc i, OF c]] by (intro scan_invI) metis+
qed

text \<open>At the gate: the file, when there is one, names the live task behind the gate, so nobody removes it.\<close>

lemma gate_file:
  assumes "tasks_inv procs pc" and "gate_inv d pc" and "map_of d GATE_LOCK_FILE \<noteq> None"
  obtains g where "inspect_lock_file (kernel procs) d GATE_LOCK_FILE = Live g"
proof -
  obtain i where "in_gate (pc i)" using gate_invD(3)[OF assms(2)] assms(3) by blast
  moreover then obtain a f where "pc_info (pc i) = Some (a, f)" by (cases "pc i") auto
  ultimately show thesis using that alive_live(1)[of procs f d] tasks_invD[OF assms(1)] gate_invD(2)[OF assms(2)] by blast
qed

text \<open>A step other than \<^verbatim>\<open>Acquired\<close> at a file whose holder, if it is there, lives changes nothing.\<close>

lemma acq_step_live_file:
  assumes "map_of d path \<noteq> None \<longrightarrow> (\<exists>g. inspect_lock_file os d path = Live g)" and "\<forall>c m. a \<noteq> Remove c m"
    and "a \<noteq> Acquired" and "acq_step os path info a d = (a1, d1)"
  shows "a1 = Acquired \<and> map_of d path = None \<and> d1 = dir_write path (Info info) d
    \<or> a1 \<noteq> Acquired \<and> (\<forall>c m. a1 \<noteq> Remove c m) \<and> d1 = d"
  using assms inspect_not_gone[of os d path]
  by (cases "(os, path, info, a, d)" rule: acq_step.cases)
    (auto simp: publish_lock_file_def split: option.splits ExistingLock.splits if_splits)

lemma acq_step_scope_file:
  assumes "acq_step os path info a d = (a1, d1)" and "a \<noteq> Acquired"
  shows "a1 = Acquired \<Longrightarrow> map_of d path = None \<and> d1 = dir_write path (Info info) d"
    and "a1 \<noteq> Acquired \<Longrightarrow> \<forall>c m. a \<noteq> Remove c m \<Longrightarrow> d1 = d"
    and "a = Remove c m \<Longrightarrow> d1 = dir_remove path d"
    and "a1 = Remove c m \<Longrightarrow> \<forall>g. inspect_lock_file os d path \<noteq> Live g"
  using assms
  by (cases "(os, path, info, a, d)" rule: acq_step.cases;
      auto simp: publish_lock_file_def split: option.splits ExistingLock.splits if_splits)+

lemma fresh_acq_simps [simp]: "fresh_acq \<noteq> Acquired" "fresh_acq \<noteq> Remove c m" "Remove c m \<noteq> fresh_acq" "Acquired \<noteq> fresh_acq"
  by (simp_all add: fresh_acq_def)

lemma acq_invD: "acq_inv pc \<Longrightarrow> pc i \<noteq> Gating a f n Acquired" "acq_inv pc \<Longrightarrow> pc i \<noteq> Taking a f Acquired"
  unfolding acq_inv_def by blast+

lemma acq_keep: "acq_inv pc \<Longrightarrow> \<forall>a f n. c \<noteq> Gating a f n Acquired \<and> c \<noteq> Taking a f Acquired \<Longrightarrow> acq_inv (pc(i := c))"
  by (simp add: acq_inv_def)

text \<open>The invariants of a directory and the tasks over it, for one set of running processes.\<close>

definition tier_inv :: "procs \<Rightarrow> dir \<Rightarrow> (nat \<Rightarrow> pc) \<Rightarrow> bool" where
  "tier_inv procs d pc \<longleftrightarrow> tasks_inv procs pc \<and> gate_inv d pc \<and> held_inv d pc \<and> scan_inv pc \<and> acq_inv pc"

lemma tier_invD:
  assumes "tier_inv procs d pc"
  shows "tasks_inv procs pc" "gate_inv d pc" "held_inv d pc" "scan_inv pc" "acq_inv pc"
  using assms by (simp_all add: tier_inv_def)

lemma held_scope: "tasks_inv procs pc \<Longrightarrow> lock_held (pc j) = Some (b, g) \<Longrightarrow> b \<noteq> NoScope \<and> b \<noteq> Backup [] \<and> alive procs g"
  using lock_held_info tasks_invD by blast

lemma tier_keep:
  assumes inv: "tier_inv procs d pc" and "pc_info c = None \<or> pc_info c = pc_info (pc i)"
    and "in_gate c = in_gate (pc i)" and "lock_held c = None \<or> lock_held c = lock_held (pc i)"
    and "map_of d' GATE_LOCK_FILE = map_of d GATE_LOCK_FILE"
    and "\<And>j b g. lock_held ((pc(i := c)) j) = Some (b, g) \<Longrightarrow> map_of d' (scope_file b) = map_of d (scope_file b)"
    and "\<forall>a f n k m. c \<noteq> Gating a f n (Remove k m)" and "\<forall>a f n. c \<noteq> Gating a f n Acquired \<and> c \<noteq> Taking a f Acquired"
    and "scan_inv (pc(i := c))"
  shows "tier_inv procs d' (pc(i := c))"
proof -
  have "pc_info c = pc_info (pc i)" if "in_gate c" using that assms(2) by (cases c) auto
  then show ?thesis
    using tasks_keep[OF tier_invD(1)[OF inv] assms(2)] gate_keep[OF tier_invD(2)[OF inv] assms(3) _ assms(5,7)]
      held_keep[OF tier_invD(3)[OF inv] assms(4,6)] acq_keep[OF tier_invD(5)[OF inv] assms(8)] assms(9)
    by (simp add: tier_inv_def)
qed

lemma gate_step:
  assumes inv: "tier_inv procs d pc" and pc: "pc i = Gating a f n q" and step: "pc_step (kernel procs) (pc i) d = (c, d')"
  shows "tier_inv procs d' (pc(i := c))"
proof -
  obtain q1 d1 where q: "acq_step (kernel procs) GATE_LOCK_FILE f q d = (q1, d1)" by fastforce
  have n: "\<forall>k m. q \<noteq> Remove k m" "q \<noteq> Acquired"
    using gate_invD(4)[OF tier_invD(2)[OF inv]] acq_invD(1)[OF tier_invD(5)[OF inv]] pc by metis+
  have l: "map_of d GATE_LOCK_FILE \<noteq> None \<longrightarrow> (\<exists>g. inspect_lock_file (kernel procs) d GATE_LOCK_FILE = Live g)"
    using gate_file[OF tier_invD(1,2)[OF inv]] by blast
  consider (got) "q1 = Acquired" "map_of d GATE_LOCK_FILE = None" "d1 = dir_write GATE_LOCK_FILE (Info f) d"
    | (not) "q1 \<noteq> Acquired" "\<forall>c m. q1 \<noteq> Remove c m" "d1 = d"
    using acq_step_live_file[OF l n q] by (elim disjE conjE)
  then show ?thesis
  proof cases
    case got
    have c: "c = Scanning a f None" "d' = dir_write GATE_LOCK_FILE (Info f) d" using step pc q got by simp_all
    have out: "\<not> in_gate (pc j)" for j
    proof
      assume "in_gate (pc j)"
      moreover then obtain b g where "pc_info (pc j) = Some (b, g)" by (cases "pc j") auto
      ultimately show False using gate_invD(2)[OF tier_invD(2)[OF inv]] got(2) by fastforce
    qed
    have "gate_inv d' (pc(i := c))"
      using out gate_invD(4)[OF tier_invD(2)[OF inv]] by (intro gate_invI) (auto simp: c split: if_splits)
    moreover have "held_inv d' (pc(i := c))"
      using held_scope[OF tier_invD(1)[OF inv]] scope_file_not_gate
      by (intro held_keep[OF tier_invD(3)[OF inv]]) (auto simp: c split: if_splits)
    moreover have "scan_inv (pc(i := c))" by (intro scan_keep[OF tier_invD(4)[OF inv]]) (simp_all add: c)
    moreover have "tasks_inv procs (pc(i := c))" by (intro tasks_keep[OF tier_invD(1)[OF inv]]) (simp add: c pc)
    moreover have "acq_inv (pc(i := c))" by (intro acq_keep[OF tier_invD(5)[OF inv]]) (simp add: c)
    ultimately show ?thesis by (simp add: tier_inv_def)
  next
    case not
    have d': "d' = d" and c: "c = Idle \<or> (\<exists>m. c = Gating a f m fresh_acq) \<or> c = Gating a f n q1"
      using step pc q not by (auto split: acq.splits nat.splits)
    show ?thesis
      by (intro tier_keep[OF inv] scan_keep[OF tier_invD(4)[OF inv]]) (use c not in \<open>auto simp: d' pc\<close>)
  qed
qed

text \<open>The files to be read include those of every holder in the other tier.\<close>

lemma scan_files_complete:
  assumes "map_of d (scope_file b) \<noteq> None" and "a \<noteq> NoScope" and "b \<noteq> NoScope" and "b \<noteq> Backup []"
  shows "tiers_ok a b \<or> scope_file b \<in> set (scan_files a d)"
proof (cases a)
  case (Backup n)
  then show ?thesis by (cases b) (auto simp: tiers_ok_def scan_files_def scope_file_def lock_path_for_scope_def)
next
  case Global
  show ?thesis
  proof (cases b)
    case (Backup n)
    have "scope_file b \<in> set (map fst d)"
      using assms(1) by (simp only: map_of_eq_None_iff not_not set_map)
    moreover have "backup_name_from_lock_file (scope_file b) = Some n" if "n \<noteq> GLOBAL_STEM"
      using that Backup assms(4) by (simp add: scope_file_def lock_path_for_scope_def backup_name_from_lock_file_def)
    ultimately show ?thesis
      using Global Backup by (cases "n = GLOBAL_STEM") (auto simp: tiers_ok_def scan_files_def scope_file_def lock_path_for_scope_def)
  qed (use Global assms in \<open>simp_all add: tiers_ok_def\<close>)
qed (use assms in simp)

text \<open>Only one task is behind the gate, so no other one scans or takes a lock.\<close>

lemma scan_alone:
  assumes "gate_inv d pc" and "in_gate (pc i)"
    and "\<And>a f fs j b g. c = Scanning a f (Some fs) \<Longrightarrow> lock_held (pc j) = Some (b, g) \<Longrightarrow> j \<noteq> i \<Longrightarrow> tiers_ok a b \<or> scope_file b \<in> set fs"
    and "\<And>a f q j b g. c = Taking a f q \<Longrightarrow> lock_held (pc j) = Some (b, g) \<Longrightarrow> j \<noteq> i \<Longrightarrow> tiers_ok a b"
    and "\<And>a f k m j b g. c = Taking a f (Remove k m) \<Longrightarrow> lock_held (pc j) = Some (b, g) \<Longrightarrow> j \<noteq> i \<Longrightarrow> scope_file b \<noteq> scope_file a"
  shows "scan_inv (pc(i := c))"
proof -
  have only: "k = i \<and> c = x" if "(pc(i := c)) k = x" "in_gate x" for k x
  proof (cases "k = i")
    case False
    then have "pc k = x" using that(1) by simp
    then show ?thesis using False gate_invD(1)[OF assms(1), of k i] assms(2) that(2) by simp
  qed (use that in simp)
  have other: "lock_held (pc j) = Some y" "j \<noteq> i" if "lock_held ((pc(i := c)) j) = Some y" "lock_held c = None" for j y
    using that by (auto split: if_splits)
  show ?thesis
  proof (rule scan_invI, goal_cases)
    case (1 k j a f fs b g)
    then have c: "c = Scanning a f (Some fs)" using only[OF 1(1)] by simp
    then have "lock_held c = None" by simp
    from assms(3)[OF c other[OF 1(2) this]] show ?case .
  next
    case (2 k j a f q b g)
    then have c: "c = Taking a f q" using only[OF 2(1)] by simp
    then have "lock_held c = None" by simp
    from assms(4)[OF c other[OF 2(2) this]] show ?case .
  next
    case (3 k j a f k' m b g)
    then have c: "c = Taking a f (Remove k' m)" using only[OF 3(1)] by simp
    then have "lock_held c = None" by simp
    from assms(5)[OF c other[OF 3(2) this]] show ?case .
  qed
qed

lemma scan_step:
  assumes inv: "tier_inv procs d pc" and pc: "pc i = Scanning a f fs" and step: "pc_step (kernel procs) (pc i) d = (c, d')"
  shows "tier_inv procs d' (pc(i := c))"
proof -
  note T = tier_invD[OF inv]
  have d': "d' = d" using step pc by (cases "(kernel procs, pc i, d)" rule: pc_step.cases) auto
  have a: "a \<noteq> NoScope" using tasks_invD[OF T(1), of i a f] pc by simp
  have owner: "map_of d (scope_file b) \<noteq> None" "b \<noteq> NoScope" "b \<noteq> Backup []" "live_lock_holder (kernel procs) d (scope_file b) \<noteq> None"
    if "lock_held (pc j) = Some (b, g)" for j b g
    using held_invD(1)[OF T(3) that] held_scope[OF T(1) that] alive_live(2) by auto
  have old: "fs = Some l \<Longrightarrow> lock_held (pc j) = Some (b, g) \<Longrightarrow> tiers_ok a b \<or> scope_file b \<in> set l" for l j b g
    using scan_invD(1)[OF T(4)] pc by blast
  have c: "c = (case fs of None \<Rightarrow> Scanning a f (Some (scan_files a d)) | Some [] \<Rightarrow> Taking a f fresh_acq
     | Some (x # l) \<Rightarrow> if live_lock_holder (kernel procs) d x \<noteq> None then Leaving a f False else Scanning a f (Some l))"
    using step pc by (cases "(kernel procs, pc i, d)" rule: pc_step.cases) auto
  have "scan_inv (pc(i := c))"
  proof (rule scan_alone[OF T(2)], goal_cases)
    case 1
    then show ?case by (simp add: pc)
  next
    case (2 a' f' l j b g)
    then show ?case
      using scan_files_complete[OF owner(1)[OF 2(2)] a owner(2,3)[OF 2(2)]] old[OF _ 2(2)] owner(4)[OF 2(2)]
      by (auto simp: c split: option.splits list.splits if_splits)
  next
    case (3 a' f' q j b g)
    then show ?case using old[OF _ 3(2)] by (auto simp: c split: option.splits list.splits if_splits)
  next
    case (4 a' f' k m j b g)
    then show ?case by (auto simp: c split: option.splits list.splits if_splits)
  qed
  then show ?thesis
    by (intro tier_keep[OF inv]) (auto simp: c d' pc split: option.splits list.splits)
qed

lemma take_step:
  assumes inv: "tier_inv procs d pc" and pc: "pc i = Taking a f q" and step: "pc_step (kernel procs) (pc i) d = (c, d')"
  shows "tier_inv procs d' (pc(i := c))"
proof -
  note T = tier_invD[OF inv]
  obtain q1 d1 where q: "acq_step (kernel procs) (scope_file a) f q d = (q1, d1)" by fastforce
  have qa: "q \<noteq> Acquired" using acq_invD(2)[OF T(5)] pc by metis
  note S = acq_step_scope_file[OF q qa]
  have a: "a \<noteq> NoScope" using tasks_invD[OF T(1), of i a f] pc by simp
  have tier: "lock_held (pc j) = Some (b, g) \<Longrightarrow> tiers_ok a b" for j b g
    using scan_invD(2)[OF T(4)] pc by blast
  have live: "inspect_lock_file (kernel procs) d (scope_file b) = Live g" if "lock_held (pc j) = Some (b, g)" for j b g
    using held_invD(1)[OF T(3) that] held_scope[OF T(1) that] alive_live(1) by blast
  have d': "d' = d1" using step pc q by (auto split: acq.splits)
  show ?thesis
  proof (cases "q1 = Acquired")
    case True
    have c: "c = Leaving a f True" using step pc q True by simp
    have w: "map_of d (scope_file a) = None" "d' = dir_write (scope_file a) (Info f) d" using S(1)[OF True] d' by simp_all
    have ne: "scope_file b \<noteq> scope_file a" if "lock_held (pc j) = Some (b, g)" for j b g
      using held_invD(1)[OF T(3) that] w(1) by auto
    then have comp: "compatible a b" if "lock_held (pc j) = Some (b, g)" for j b g
      using tier[OF that] that by (metis compatible_def tiers_ok_def)
    have "held_inv d' (pc(i := c))"
      using held_invD[OF T(3)] ne comp compatible_sym by (intro held_invI) (auto simp: c w(2) split: if_splits)
    moreover have "gate_inv d' (pc(i := c))"
      using scope_file_not_gate[OF a] by (intro gate_keep[OF T(2)]) (auto simp: c pc w(2))
    moreover have "scan_inv (pc(i := c))" by (rule scan_alone[OF T(2)]) (auto simp: c pc)
    ultimately show ?thesis
      using tasks_keep[OF T(1), of c i] acq_keep[OF T(5), of c i] by (simp add: tier_inv_def c pc)
  next
    case False
    have c: "c = Leaving a f False \<or> c = Taking a f q1" using step pc q False by (auto split: acq.splits)
    have free: "scope_file b \<noteq> scope_file a" if "lock_held (pc j) = Some (b, g)" "q1 = Remove k m" for j b g k m
      using live[OF that(1)] S(4)[OF that(2)] by metis
    have same: "map_of d' (scope_file b) = map_of d (scope_file b)" if h: "lock_held (pc j) = Some (b, g)" for j b g
    proof (cases "\<exists>k m. q = Remove k m")
      case True
      then show ?thesis using S(3) scan_invD(3)[OF T(4) h, of i a f] pc d' by auto
    qed (use S(2)[OF False] d' in auto)
    have gate: "map_of d' GATE_LOCK_FILE = map_of d GATE_LOCK_FILE"
      using S(2)[OF False] S(3) d' scope_file_not_gate[OF a] by (cases "\<exists>k m. q = Remove k m") auto
    have "scan_inv (pc(i := c))"
      by (rule scan_alone[OF T(2)]) (use c tier free in \<open>auto simp: pc\<close>)
    then show ?thesis
      using c same gate False by (intro tier_keep[OF inv]) (auto simp: pc split: if_splits)
  qed
qed

lemma leave_step:
  assumes inv: "tier_inv procs d pc" and pc: "pc i = Leaving a f got" and step: "pc_step (kernel procs) (pc i) d = (c, d')"
  shows "tier_inv procs d' (pc(i := c))"
proof -
  note T = tier_invD[OF inv]
  have c: "c = (if got then Holding a f else Idle)" and d': "d' = dir_remove GATE_LOCK_FILE d"
    using step pc by (simp_all add: PidLock_drop_def)
  have "\<not> in_gate ((pc(i := c)) j)" for j
    using gate_invD(1)[OF T(2), of i j] by (auto simp: c pc)
  then have "gate_inv d' (pc(i := c))"
    using gate_invD(4)[OF T(2)] by (intro gate_invI) (auto simp: c d' split: if_splits)
  moreover have "held_inv d' (pc(i := c))"
  proof (rule held_keep[OF T(3)])
    show k: "lock_held c = None \<or> lock_held c = lock_held (pc i)" by (simp add: c pc)
    show "map_of d' (scope_file b) = map_of d (scope_file b)" if "lock_held ((pc(i := c)) j) = Some (b, g)" for j b g
      using held_scope[OF T(1) lock_held_keep[of c pc i, OF k that]] scope_file_not_gate d' by simp
  qed
  moreover have "scan_inv (pc(i := c))" by (intro scan_keep[OF T(4)]) (simp_all add: c pc)
  ultimately show ?thesis
    using tasks_keep[OF T(1), of c i] acq_keep[OF T(5), of c i] by (simp add: tier_inv_def c pc)
qed

lemma release_step:
  assumes inv: "tier_inv procs d pc" and pc: "pc i = Holding a f" and step: "pc_step (kernel procs) (pc i) d = (c, d')"
  shows "tier_inv procs d' (pc(i := c))"
proof -
  note T = tier_invD[OF inv]
  have c: "c = Idle" and d': "d' = dir_remove (scope_file a) d" using step pc by (simp_all add: PidLock_drop_def)
  have "scope_file b \<noteq> scope_file a" if "lock_held (pc j) = Some (b, g)" "j \<noteq> i" for j b g
    using held_invD(2)[OF T(3) that(1), of i a f] that(2) pc by (simp add: compatible_def)
  moreover have "scope_file a \<noteq> GATE_LOCK_FILE" using scope_file_not_gate tasks_invD[OF T(1), of i a f] pc by simp
  ultimately show ?thesis
    by (intro tier_keep[OF inv] scan_keep[OF T(4)]) (auto simp: c d' pc split: if_splits)
qed

lemma pc_step_inv:
  assumes "tier_inv procs d pc" and "pc_step (kernel procs) (pc i) d = (c, d')"
  shows "tier_inv procs d' (pc(i := c))"
proof (cases "pc i")
  case Idle
  then show ?thesis using assms by (simp add: fun_upd_idem)
qed (use gate_step[OF assms(1) _ assms(2)] scan_step[OF assms(1) _ assms(2)] take_step[OF assms(1) _ assms(2)]
  leave_step[OF assms(1) _ assms(2)] release_step[OF assms(1) _ assms(2)] in simp_all)

text \<open>Processes come and go.\<close>

lemma alive_kill: "alive procs f \<Longrightarrow> li_pid f \<noteq> p \<Longrightarrow> alive (procs(p := x)) f"
  by (simp add: alive_def)

lemma tier_inv_spawn: "tier_inv procs d pc \<Longrightarrow> procs p = None \<Longrightarrow> tier_inv (procs(p \<mapsto> t)) d pc"
  by (force simp: tier_inv_def tasks_inv_def alive_def)

lemma tier_inv_kill:
  assumes inv: "tier_inv procs d pc" and out: "\<forall>i. pc_pid (pc i) = Some p \<longrightarrow> \<not> in_gate (pc i)"
  shows "tier_inv (procs(p := None)) d (\<lambda>i. if pc_pid (pc i) = Some p then Idle else pc i)"
proof -
  note T = tier_invD[OF inv]
  let ?pc = "\<lambda>i. if pc_pid (pc i) = Some p then Idle else pc i"
  have i: "pc_info (?pc i) = Some x \<Longrightarrow> pc_info (pc i) = Some x \<and> li_pid (snd x) \<noteq> p"
    and h: "lock_held (?pc i) = Some x \<Longrightarrow> lock_held (pc i) = Some x" for i x
    by (cases x, auto simp: pc_pid_def split: if_splits)+
  have g: "in_gate (?pc i) = in_gate (pc i)" for i using out by simp
  have "tasks_inv (procs(p := None)) ?pc"
    unfolding tasks_inv_def
  proof (intro allI impI)
    fix k a f assume "pc_info (?pc k) = Some (a, f)"
    then have k: "pc_info (pc k) = Some (a, f)" "li_pid f \<noteq> p" using i[of k "(a, f)"] by simp_all
    show "alive (procs(p := None)) f \<and> a \<noteq> NoScope \<and> a \<noteq> Backup []"
      using tasks_invD[OF T(1) k(1)] alive_kill[OF _ k(2)] by blast
  qed
  moreover have "gate_inv d ?pc"
  proof (rule gate_invI, goal_cases)
    case (1 k j)
    then show ?case using gate_invD(1)[OF T(2)] unfolding g by blast
  next
    case (2 k a f)
    then show ?case using gate_invD(2)[OF T(2)] i unfolding g by blast
  next
    case 3
    then show ?case using gate_invD(3)[OF T(2)] unfolding g by blast
  qed (use gate_invD(4)[OF T(2)] in simp)
  moreover have "held_inv d ?pc" using held_invD[OF T(3) h] h by (intro held_invI) metis+
  moreover have "scan_inv ?pc"
  proof -
    have "?pc k = Scanning a f l \<Longrightarrow> pc k = Scanning a f l" "?pc k = Taking a f q \<Longrightarrow> pc k = Taking a f q" for k a f l q
      by (auto split: if_splits)
    then show ?thesis using scan_invD[OF T(4) h] by (intro scan_invI) metis+
  qed
  moreover have "acq_inv ?pc" using T(5) by (simp add: acq_inv_def)
  ultimately show ?thesis by (simp add: tier_inv_def)
qed

lemma lock_inv_tier: "lock_inv s \<longleftrightarrow> ls_crashed s \<or> tier_inv (ls_procs s) (ls_dir s) (ls_pc s)"
  by (simp add: lock_inv_def tier_inv_def)

lemma tier_inv_start:
  assumes inv: "tier_inv procs d pc" and "pc i = Idle" and "alive procs f" and "a \<noteq> NoScope" and "a \<noteq> Backup []"
  shows "tier_inv procs d (pc(i := Gating a f n fresh_acq))"
proof -
  note T = tier_invD[OF inv]
  have "tasks_inv procs (pc(i := Gating a f n fresh_acq))" using T(1) assms(3-5) by (auto simp: tasks_inv_def)
  moreover have "gate_inv d (pc(i := Gating a f n fresh_acq))" by (intro gate_keep[OF T(2)]) (simp_all add: assms(2))
  moreover have "held_inv d (pc(i := Gating a f n fresh_acq))" by (intro held_keep[OF T(3)]) simp_all
  moreover have "scan_inv (pc(i := Gating a f n fresh_acq))" by (intro scan_keep[OF T(4)]) simp_all
  moreover have "acq_inv (pc(i := Gating a f n fresh_acq))" by (intro acq_keep[OF T(5)]) simp
  ultimately show ?thesis by (simp add: tier_inv_def)
qed

lemma lock_step_inv: "lock_inv s \<Longrightarrow> lock_step s s' \<Longrightarrow> lock_inv s'"
proof (erule lock_stepE, goal_cases)
  case (1 p t)
  then show ?case using tier_inv_spawn by (auto simp: lock_inv_tier)
next
  case (2 p)
  then show ?case using tier_inv_kill[of "ls_procs s" "ls_dir s" "ls_pc s" p] by (auto simp: lock_inv_tier)
next
  case (3 i t info command name)
  then have "alive (ls_procs s) info" by (auto simp: alive_def)
  then show ?case using 3 tier_inv_start[of "ls_procs s" "ls_dir s" "ls_pc s" i info] lock_for_command_named
    by (auto simp: lock_inv_tier)
next
  case (4 i c d)
  then show ?case using pc_step_inv by (auto simp: lock_inv_tier)
qed

interpretation tiers: inv_system lock_init lock_step lock_inv
proof unfold_locales
  show "lock_inv s" if "lock_init s" for s
    using that by (auto simp: lock_init_def lock_inv_tier tier_inv_def tasks_inv_def gate_inv_def held_inv_def scan_inv_def acq_inv_def)
  show "lock_inv t" if "lock_inv s" "lock_step s t" for s t using that by (rule lock_step_inv)
qed

text \<open>The functional form of an acquisition is a run of these steps, with the interference it is given.\<close>

inductive acq_run :: "os \<Rightarrow> string \<Rightarrow> LockInfo \<Rightarrow> acq \<Rightarrow> dir \<Rightarrow> acq \<Rightarrow> dir \<Rightarrow> bool" for os path info where
  stop: "acq_run os path info a d a d"
| step: "acq_step os path info a (f d) = (a1, d1) \<Longrightarrow> acq_run os path info a1 d1 a2 d2 \<Longrightarrow> acq_run os path info a d a2 d2"

lemma acquire_loop_steps:
  "acquire_loop os others path info t c n d = (r, d') \<Longrightarrow>
   acq_run os path info (Publish c n) d (case r of Inr _ \<Rightarrow> Acquired | Inl e \<Rightarrow> Refused e) d'"
proof (induction os others path info t c n d rule: acquire_loop.induct)
  case (1 os others path info t c d)
  have "acq_step os path info (Publish c 0) d = (Refused KeepsReappearing, d)" by simp
  then show ?case using 1 acq_run.step[where f = "\<lambda>d. d", OF _ acq_run.stop] by fastforce
next
  case (2 os others path info t c n d)
  let ?d0 = "others t d" and ?d1 = "others (t + 1) (others t d)"
  have publish: "acq_run os path info (Publish c (Suc n)) d a2 d2"
    if "publish_lock_file path info ?d0 = None" "acq_run os path info (Inspect c n) ?d0 a2 d2" for a2 d2
    using acq_run.step[where f = "others t" and d = d, OF _ that(2)] that(1) by simp
  have inspect: "acq_run os path info (Inspect c n) ?d0 a2 d2"
    if "acq_step os path info (Inspect c n) ?d1 = (a1, ?d1)" "acq_run os path info a1 ?d1 a2 d2" for a1 a2 d2
    using acq_run.step[where f = "others (t + 1)" and d = ?d0, OF that] .
  have remove: "acq_run os path info (Remove c n) ?d1 a2 d2"
    if "acq_run os path info (Publish c n) (dir_remove path (others (t + 2) ?d1)) a2 d2" for a2 d2
    using acq_run.step[where f = "others (t + 2)" and d = ?d1, OF _ that] by simp
  show ?case
  proof (cases "publish_lock_file path info ?d0")
    case (Some d1)
    then have "acq_step os path info (Publish c (Suc n)) (others t d) = (Acquired, d1)" by simp
    then show ?thesis using 2(5) Some acq_run.step[where f = "others t" and d = d, OF _ acq_run.stop] by fastforce
  next
    case None
    show ?thesis
    proof (cases "inspect_lock_file os ?d1 path")
      case (Live e)
      then show ?thesis using 2(5) None publish[OF None inspect[OF _ acq_run.stop]] by auto
    next
      case Stale
      then show ?thesis using 2(1)[OF refl None refl Stale] 2(5) None publish[OF None inspect[OF _ remove]] by simp
    next
      case Gone
      then show ?thesis using 2(2)[OF refl None refl Gone] 2(5) None publish[OF None inspect] by simp
    next
      case Unreadable
      show ?thesis
      proof (cases "c < CORRUPT_LOCK_MAX_READS")
        case True
        then show ?thesis using 2(3)[OF refl None refl Unreadable True] 2(5) None Unreadable publish[OF None inspect] by simp
      next
        case False
        then show ?thesis
          using 2(4)[OF refl None refl Unreadable False] 2(5) None Unreadable publish[OF None inspect[OF _ remove]] by simp
      qed
    qed
  qed
qed

section \<open>Properties\<close>


definition sample_info :: "u32 \<Rightarrow> nat \<Rightarrow> LockInfo" where
  "sample_info p t = \<lparr>li_pid = p, li_command = ''create'', li_timestamp = '''', li_token = Some (nat_to_string t)\<rparr>"

definition sample_procs :: procs where
  "sample_procs = (\<lambda>_. None)(1 \<mapsto> 7, 2 \<mapsto> 8)"

definition sample_dir :: dir where
  "sample_dir = [(''chbackup.b2.pid'', Info (sample_info 2 8)), (''chbackup.b1.pid'', Info (sample_info 1 7)),
     (''chbackup.global.pid'', Info (sample_info 1 3))]"

text \<open>Runs of tasks that are started, by the numbers of the tasks that move.\<close>

definition run_task :: "lock_state \<Rightarrow> nat \<Rightarrow> lock_state" where
  "run_task s i = (case pc_step (kernel (ls_procs s)) (ls_pc s i) (ls_dir s) of
     (c, d) \<Rightarrow> s\<lparr>ls_pc := (ls_pc s)(i := c), ls_dir := d\<rparr>)"

definition start_task :: "LockScope \<Rightarrow> LockInfo \<Rightarrow> nat \<Rightarrow> lock_state \<Rightarrow> lock_state" where
  "start_task scope info i s = s\<lparr>ls_pc := (ls_pc s)(i := Gating scope info (GATE_MAX_ATTEMPTS - 1) fresh_acq)\<rparr>"

lemma reach_runs: "reach lock_init lock_step s \<Longrightarrow> reach lock_init lock_step (foldl run_task s is)"
proof (induction "is" arbitrary: s)
  case (Cons i "is")
  have "lock_step s (run_task s i)"
    by (auto simp: run_task_def split: prod.split intro: lock_step.run)
  then show ?case using Cons reach_step by fastforce
qed simp

lemma reach_spawn:
  "reach lock_init lock_step s \<Longrightarrow> p \<noteq> 0 \<Longrightarrow> ls_procs s p = None \<Longrightarrow> reach lock_init lock_step (s\<lparr>ls_procs := (ls_procs s)(p \<mapsto> t)\<rparr>)"
  by (erule reach_step) (rule lock_step.spawn)

lemma reach_start_task:
  assumes "reach lock_init lock_step s" and "ls_pc s i = Idle" and "ls_procs s (li_pid info) = Some t" and "li_pid info \<noteq> 0"
    and "li_token info = Some (nat_to_string t)" and "lock_for_command command name = scope" and "scope \<noteq> NoScope"
  shows "reach lock_init lock_step (start_task scope info i s)"
  unfolding start_task_def using assms(1) by (rule reach_step) (rule lock_step.start[OF assms(2,3,4) refl assms(5-7)])

lemma sample_commands:
  "lock_for_command ''create'' (Some ''b1'') = Backup ''b1''" "lock_for_command ''upload'' (Some ''b2'') = Backup ''b2''"
  "lock_for_command ''create'' (Some ''b3'') = Backup ''b3''" "lock_for_command ''clean'' None = Global"
  by (simp_all add: lock_for_command_def)

definition sample_start :: lock_state where
  "sample_start = \<lparr>ls_procs = sample_procs, ls_dir = [(''chbackup.b0.pid'', Garbage)], ls_pc = (\<lambda>_. Idle), ls_crashed = False\<rparr>"

lemma reach_start:
  "reach lock_init lock_step (start_task (Backup ''b2'') (sample_info 2 8) 1 (start_task (Backup ''b1'') (sample_info 1 7) 0 sample_start))"
proof -
  have "map_of (ls_dir sample_start) GATE_LOCK_FILE = None" by code_simp
  then have "reach lock_init lock_step (sample_start\<lparr>ls_procs := (\<lambda>_. None)\<rparr>)"
    by (intro reach_init) (simp add: lock_init_def sample_start_def)
  from reach_spawn[OF reach_spawn[OF this, of 1 7], of 2 8] have "reach lock_init lock_step sample_start"
    by (simp add: sample_start_def sample_procs_def)
  from reach_start_task[OF this _ _ _ _ sample_commands(1), of 0 "sample_info 1 7" 7]
  have "reach lock_init lock_step (start_task (Backup ''b1'') (sample_info 1 7) 0 sample_start)"
    by (simp add: sample_start_def sample_info_def sample_procs_def)
  from reach_start_task[OF this _ _ _ _ sample_commands(2), of 1 "sample_info 2 8" 8] show ?thesis
    by (simp add: start_task_def sample_start_def sample_info_def sample_procs_def)
qed

text \<open>The same runs with the program counters in a list, for evaluation.\<close>

definition run_listed :: "procs \<Rightarrow> pc list \<times> dir \<Rightarrow> nat \<Rightarrow> pc list \<times> dir" where
  "run_listed procs = (\<lambda>(cs, d) i. case pc_step (kernel procs) (cs ! i) d of (c, d') \<Rightarrow> (cs[i := c], d'))"

lemma run_listed:
  assumes "foldl (run_listed procs) (cs, d) is = (cs', d')" and "\<forall>i\<in>set is. i < length cs"
    and "\<forall>i<length cs. ls_pc s i = cs ! i" and "ls_procs s = procs" and "ls_dir s = d"
  shows "ls_dir (foldl run_task s is) = d' \<and> (\<forall>i<length cs. ls_pc (foldl run_task s is) i = cs' ! i)
    \<and> ls_procs (foldl run_task s is) = procs \<and> ls_crashed (foldl run_task s is) = ls_crashed s"
  using assms
proof (induction "is" arbitrary: s cs d)
  case (Cons i "is")
  obtain c d1 where step: "pc_step (kernel procs) (cs ! i) d = (c, d1)" by fastforce
  then have "ls_procs (run_task s i) = procs" "ls_dir (run_task s i) = d1" "ls_crashed (run_task s i) = ls_crashed s"
    "\<forall>k<length cs. ls_pc (run_task s i) k = cs[i := c] ! k"
    using Cons.prems by (auto simp: run_task_def nth_list_update)
  then show ?case using Cons.IH[of "cs[i := c]" d1 "run_task s i"] Cons.prems step by (simp add: run_listed_def)
qed simp

definition sample_end :: lock_state where
  "sample_end = foldl run_task (start_task (Backup ''b2'') (sample_info 2 8) 1 (start_task (Backup ''b1'') (sample_info 1 7) 0 sample_start))
     [0, 0, 0, 0, 0, 0, 1, 1, 1, 1, 1, 1]"

definition taken_dir :: dir where
  "taken_dir = [(''chbackup.b2.pid'', Info (sample_info 2 8)), (''chbackup.b1.pid'', Info (sample_info 1 7)), (''chbackup.b0.pid'', Garbage)]"

lemma sample_run:
  "foldl (run_listed sample_procs) ([Gating (Backup ''b1'') (sample_info 1 7) 39 fresh_acq, Gating (Backup ''b2'') (sample_info 2 8) 39 fresh_acq],
       [(''chbackup.b0.pid'', Garbage)]) [0, 0, 0, 0, 0, 0, 1, 1, 1, 1, 1, 1]
   = ([Holding (Backup ''b1'') (sample_info 1 7), Holding (Backup ''b2'') (sample_info 2 8)], taken_dir)"
  by code_simp


text \<open>
  The proviso is needed. A process is killed behind the gate; two tasks find its gate file stale, and the
  second removes the file that the first has just published. Both are then behind the gate, and the global
  lock is taken together with the lock of a backup.
\<close>

definition kill_process :: "u32 \<Rightarrow> lock_state \<Rightarrow> lock_state" where
  "kill_process p s = s\<lparr>ls_procs := (ls_procs s)(p := None),
    ls_pc := (\<lambda>i. if pc_pid (ls_pc s i) = Some p then Idle else ls_pc s i),
    ls_crashed := ls_crashed s \<or> (\<exists>i. pc_pid (ls_pc s i) = Some p \<and> in_gate (ls_pc s i))\<rparr>"

lemma reach_kill: "reach lock_init lock_step s \<Longrightarrow> reach lock_init lock_step (kill_process p s)"
  unfolding kill_process_def by (erule reach_step) (rule lock_step.kill)

lemma crash_run:
  "foldl (run_listed sample_procs) ([Gating Global (sample_info 1 7) 39 fresh_acq, Gating (Backup ''b2'') (sample_info 2 8) 39 fresh_acq],
       [(GATE_LOCK_FILE, Info (sample_info 3 9))]) [0, 0, 1, 1, 0, 0, 1, 1, 0, 1, 0, 1, 1, 0, 1, 0, 1]
   = ([Holding Global (sample_info 1 7), Holding (Backup ''b2'') (sample_info 2 8)],
      [(''chbackup.b2.pid'', Info (sample_info 2 8)), (''chbackup.global.pid'', Info (sample_info 1 7))])"
  by code_simp

theorem gate_crash_breaks_tiers:
  "\<exists>s f g. reach lock_init lock_step s \<and> lock_held (ls_pc s 0) = Some (Global, f) \<and> lock_held (ls_pc s 1) = Some (Backup ''b2'', g)"
proof -
  define s0 where "s0 = \<lparr>ls_procs = sample_procs(3 \<mapsto> 9), ls_dir = [], ls_pc = (\<lambda>_. Idle), ls_crashed = False\<rparr>"
  have "reach lock_init lock_step (s0\<lparr>ls_procs := (\<lambda>_. None)\<rparr>)" by (rule reach_init) (simp add: lock_init_def s0_def)
  from reach_spawn[OF reach_spawn[OF reach_spawn[OF this, of 1 7], of 2 8], of 3 9] have "reach lock_init lock_step s0"
    by (simp add: s0_def sample_procs_def)
  from reach_start_task[OF this _ _ _ _ sample_commands(3), of 2 "sample_info 3 9" 9]
  have "reach lock_init lock_step (start_task (Backup ''b3'') (sample_info 3 9) 2 s0)"
    by (simp add: s0_def sample_info_def sample_procs_def)
  note reach_kill[OF reach_runs[OF this, of "[2]"], of 3]
  moreover define s2 where "s2 = kill_process 3 (foldl run_task (start_task (Backup ''b3'') (sample_info 3 9) 2 s0) [2])"
  ultimately have r2: "reach lock_init lock_step s2" by simp
  have "run_task (start_task (Backup ''b3'') (sample_info 3 9) 2 s0) 2
      = s0\<lparr>ls_pc := (\<lambda>_. Idle)(2 := Scanning (Backup ''b3'') (sample_info 3 9) None), ls_dir := [(GATE_LOCK_FILE, Info (sample_info 3 9))]\<rparr>"
    by (simp add: s0_def run_task_def start_task_def fresh_acq_def ACQUIRE_MAX_ATTEMPTS_def publish_lock_file_def dir_write_def eval_nat_numeral)
  then have s2: "ls_procs s2 = sample_procs" "ls_dir s2 = [(GATE_LOCK_FILE, Info (sample_info 3 9))]" "ls_pc s2 = (\<lambda>_. Idle)"
    by (auto simp: s2_def s0_def kill_process_def sample_procs_def pc_pid_def sample_info_def fun_eq_iff)
  define s3 where "s3 = start_task (Backup ''b2'') (sample_info 2 8) 1 (start_task Global (sample_info 1 7) 0 s2)"
  from reach_start_task[OF r2 _ _ _ _ sample_commands(4), of 0 "sample_info 1 7" 7]
  have "reach lock_init lock_step (start_task Global (sample_info 1 7) 0 s2)"
    by (simp add: s2 sample_info_def sample_procs_def)
  from reach_start_task[OF this _ _ _ _ sample_commands(2), of 1 "sample_info 2 8" 8] have r3: "reach lock_init lock_step s3"
    by (simp add: s2 s3_def start_task_def sample_info_def sample_procs_def)
  have "\<forall>i<2. ls_pc (foldl run_task s3 [0, 0, 1, 1, 0, 0, 1, 1, 0, 1, 0, 1, 1, 0, 1, 0, 1]) i
      = [Holding Global (sample_info 1 7), Holding (Backup ''b2'') (sample_info 2 8)] ! i"
    using run_listed[OF crash_run, of s3] s2 by (simp add: s3_def start_task_def GATE_MAX_ATTEMPTS_def less_Suc_eq numeral_2_eq_2)
  moreover note reach_runs[OF r3, of "[0, 0, 1, 1, 0, 0, 1, 1, 0, 1, 0, 1, 1, 0, 1, 0, 1]"]
  ultimately show ?thesis
    by (intro exI[of _ "foldl run_task s3 [0, 0, 1, 1, 0, 0, 1, 1, 0, 1, 0, 1, 1, 0, 1, 0, 1]"] exI[of _ "sample_info 1 7"] exI[of _ "sample_info 2 8"])
      (simp del: foldl_Cons)
qed

text \<open>
  With no other process touching the directory, acquiring a PID lock always ends within its
  bounded attempts: it is refused exactly when the file names a live holder, whom the error
  reports, leaving the directory alone; a stale, unreadable or absent file is replaced by the lock
  of the caller, and no other file changes.
\<close>

theorem PidLock_acquire_sequential:
  "PidLock_acquire os (\<lambda>_ d. d) path info d =
     (case inspect_lock_file os d path of
        Live e \<Rightarrow> (Inl (HeldBy e), d)
      | _ \<Rightarrow> (Inr (), dir_write path (Info info) d))"
  by (rule PidLock_acquire_alone)

text \<open>
  Stale-lock takeover is not atomic. Between reading a stale lock and removing it, another
  process may complete its own takeover; the removal then deletes the fresh lock and both
  processes report that they hold it. The gate, which is itself such a lock, is exposed too.
\<close>

theorem lock_takeover_race:
  assumes "inspect_lock_file os d path = Stale"
  shows "PidLock_acquire os (\<lambda>_ d. d) path info_b d = (Inr (), dir_write path (Info info_b) d)
    \<and> PidLock_acquire os (\<lambda>t d. if t = 2 then snd (PidLock_acquire os (\<lambda>_ d. d) path info_b d) else d) path info_a d
        = (Inr (), dir_write path (Info info_a) d)"
proof -
  let ?others = "\<lambda>t d. if t = 2 then snd (PidLock_acquire os (\<lambda>_ d. d) path info_b d) else d"
  have b: "PidLock_acquire os (\<lambda>_ d. d) path info_b d = (Inr (), dir_write path (Info info_b) d)"
    using assms by (simp add: PidLock_acquire_alone)
  have there: "map_of d path \<noteq> None" using assms inspect_not_gone[of os d path] by simp
  have six: "ACQUIRE_MAX_ATTEMPTS = Suc (Suc 4)" by (simp add: ACQUIRE_MAX_ATTEMPTS_def)
  have rm: "dir_remove path (dir_write path (Info info_b) d) = dir_remove path d"
    by (simp add: dir_remove_def dir_write_def)
  have "acquire_loop os ?others path info_a 3 0 (Suc 4) (dir_remove path d) = (Inr (), dir_write path (Info info_a) d)"
    by (subst acquire_loop.simps(2)) (simp add: publish_gone)
  then have "PidLock_acquire os ?others path info_a d = (Inr (), dir_write path (Info info_a) d)"
    using assms b there rm unfolding PidLock_acquire_def[of os ?others] six
    by (subst acquire_loop.simps(2)) (simp add: publish_gone)
  with b show ?thesis by blast
qed

theorem lock_takeover_race_witness:
  "inspect_lock_file (kernel sample_procs) sample_dir ''chbackup.global.pid'' = Stale
   \<and> fst (PidLock_acquire (kernel sample_procs) (\<lambda>t d. if t = 2
            then snd (PidLock_acquire (kernel sample_procs) (\<lambda>_ d. d) ''chbackup.global.pid'' (sample_info 2 8) d) else d)
          ''chbackup.global.pid'' (sample_info 1 7) sample_dir) = Inr ()"
proof -
  have "inspect_lock_file (kernel sample_procs) sample_dir ''chbackup.global.pid'' = Stale" by code_simp
  with lock_takeover_race[OF this, of "sample_info 2 8" "sample_info 1 7"] show ?thesis by simp
qed

end
