(* ===== verification/Topo.thy ===== *)
theory Topo
  imports Manifest
begin

text \<open>
  Model of \<^verbatim>\<open>src/restore/topo.rs\<close>: which phase of a restore creates a table, and in which
  order tables are created and dropped. \<^verbatim>\<open>HashMap\<close>s that are only read by key are maps, and
  \<^verbatim>\<open>sort_by_key\<close> is the stable sort of the prelude. The loop of Kahn's algorithm is a partial
  function: it is shown to return, not assumed to. \<^verbatim>\<open>to_uppercase\<close> acts on the bytes of UTF-8
  text; of the characters outside ASCII only the long s has an upper case that can take part in
  the word \<^verbatim>\<open>REFRESH\<close>, so every other one is left as it is.
\<close>

section \<open>Definitions\<close>

definition data_table_priority :: "string \<Rightarrow> nat" where
  "data_table_priority table_key =
     (let table_name = (case split_once CHR ''.'' table_key of Some (_, t) \<Rightarrow> t | None \<Rightarrow> table_key)
      in if prefix ''.inner'' table_name then 1 else 0)"

definition is_streaming_engine :: "string \<Rightarrow> bool" where
  "is_streaming_engine engine \<longleftrightarrow> engine \<in> {''Kafka'', ''NATS'', ''RabbitMQ'', ''S3Queue''}"

definition ascii_upper :: "char \<Rightarrow> char" where
  "ascii_upper c = (if 97 \<le> (of_char c :: nat) \<and> (of_char c :: nat) \<le> 122 then char_of (of_char c - 32 :: nat) else c)"

fun to_uppercase :: "string \<Rightarrow> string" where
  "to_uppercase [] = []"
| "to_uppercase [c] = [ascii_upper c]"
| "to_uppercase (c # d # cs) =
     (if c = CHR 0xC5 \<and> d = CHR 0xBF then CHR ''S'' # to_uppercase cs
      else ascii_upper c # to_uppercase (d # cs))"

definition is_refreshable_mv :: "TableManifest \<Rightarrow> bool" where
  "is_refreshable_mv tm =
     (if tm_engine tm \<noteq> ''MaterializedView'' then False
      else let ddl_upper = to_uppercase (tm_ddl tm)
           in str_contains ddl_upper '' REFRESH '' \<or> str_contains ddl_upper (CHR 0x0A # ''REFRESH ''))"

definition engine_restore_priority :: "string \<Rightarrow> nat" where
  "engine_restore_priority engine =
     (if engine = ''Dictionary'' then 0
      else if engine \<in> {''View'', ''MaterializedView'', ''LiveView'', ''WindowView''} then 1
      else if engine \<in> {''Distributed'', ''Merge''} then 2
      else 3)"

definition engine_drop_priority :: "string \<Rightarrow> nat" where
  "engine_drop_priority engine =
     (if engine \<in> {''Distributed'', ''Merge''} then 0
      else if engine \<in> {''View'', ''MaterializedView'', ''LiveView'', ''WindowView''} then 1
      else if engine = ''Dictionary'' then 2
      else 3)"

definition sort_tables_for_drop :: "BackupManifest \<Rightarrow> string list \<Rightarrow> string list" where
  "sort_tables_for_drop manifest table_keys =
     sort_by_key (\<lambda>k. case map_of (bm_tables manifest) k of
                        None \<Rightarrow> 3 | Some tm \<Rightarrow> engine_drop_priority (tm_engine tm)) table_keys"

record RestorePhases =
  data_tables :: "string list"
  postponed_tables :: "string list"
  ddl_only_tables :: "string list"

definition classify_one :: "TableManifest btree_map \<Rightarrow> string \<Rightarrow> RestorePhases \<Rightarrow> RestorePhases" where
  "classify_one tables key ph =
     (case map_of tables key of
        None \<Rightarrow> ph
      | Some tm \<Rightarrow>
          if is_streaming_engine (tm_engine tm) \<or> is_refreshable_mv tm
          then ph\<lparr>postponed_tables := postponed_tables ph @ [key]\<rparr>
          else if tm_metadata_only tm then ph\<lparr>ddl_only_tables := ddl_only_tables ph @ [key]\<rparr>
          else ph\<lparr>data_tables := data_tables ph @ [key]\<rparr>)"

definition classify_restore_tables :: "BackupManifest \<Rightarrow> string list \<Rightarrow> RestorePhases" where
  "classify_restore_tables manifest table_keys =
     (let ph = fold (classify_one (bm_tables manifest)) table_keys
                 \<lparr>data_tables = [], postponed_tables = [], ddl_only_tables = []\<rparr>
      in ph\<lparr>data_tables := sort_by_key data_table_priority (data_tables ph)\<rparr>)"

subsection \<open>Topological sort\<close>

definition ddl_priority :: "TableManifest btree_map \<Rightarrow> string \<Rightarrow> nat" where
  "ddl_priority tables k =
     (case map_of tables k of None \<Rightarrow> 3 | Some tm \<Rightarrow> engine_restore_priority (tm_engine tm))"

record graph =
  in_degree :: "string \<Rightarrow> nat option"
  adjacency :: "string \<Rightarrow> string list option"

definition or_insert :: "'v \<Rightarrow> 'k \<Rightarrow> ('k \<Rightarrow> 'v option) \<Rightarrow> ('k \<Rightarrow> 'v option)" where
  "or_insert v k m = (case m k of None \<Rightarrow> m(k \<mapsto> v) | Some _ \<Rightarrow> m)"

definition add_node :: "string \<Rightarrow> graph \<Rightarrow> graph" where
  "add_node key g = \<lparr>in_degree = or_insert 0 key (in_degree g), adjacency = or_insert [] key (adjacency g)\<rparr>"

definition add_edge :: "string set \<Rightarrow> string \<Rightarrow> string \<Rightarrow> graph \<Rightarrow> graph" where
  "add_edge key_set key dep g =
     (if dep \<in> key_set
      then \<lparr>in_degree = (let m = or_insert 0 key (in_degree g) in m(key \<mapsto> the (m key) + 1)),
            adjacency = (let m = or_insert [] dep (adjacency g) in m(dep \<mapsto> the (m dep) @ [key]))\<rparr>
      else g)"

definition add_edges :: "TableManifest btree_map \<Rightarrow> string set \<Rightarrow> string \<Rightarrow> graph \<Rightarrow> graph" where
  "add_edges tables key_set key g =
     (case map_of tables key of
        None \<Rightarrow> g
      | Some tm \<Rightarrow> fold (add_edge key_set key) (tm_dependencies tm) g)"

definition build_graph :: "TableManifest btree_map \<Rightarrow> string list \<Rightarrow> graph" where
  "build_graph tables keys =
     fold (add_edges tables (set keys)) keys
       (fold add_node keys \<lparr>in_degree = (\<lambda>_. None), adjacency = (\<lambda>_. None)\<rparr>)"

text \<open>One neighbour: its in-degree goes down, and it joins the queue when that reaches zero.\<close>

definition relax :: "string \<Rightarrow> (string \<Rightarrow> nat option) \<times> string list \<Rightarrow> (string \<Rightarrow> nat option) \<times> string list" where
  "relax neighbor st =
     (let (deg, queue) = st in
      case deg neighbor of
        None \<Rightarrow> st
      | Some n \<Rightarrow> (deg(neighbor \<mapsto> n - 1), if n - 1 = 0 then queue @ [neighbor] else queue))"

partial_function (option) kahn ::
    "(string \<Rightarrow> string list option) \<Rightarrow> (string \<Rightarrow> nat option) \<Rightarrow> string list \<Rightarrow> string list \<Rightarrow> string list option" where
  [code]: "kahn adj deg queue result =
     (case queue of
        [] \<Rightarrow> Some result
      | node # rest \<Rightarrow>
          (let (deg', queue') = (case adj node of None \<Rightarrow> (deg, rest) | Some neighbors \<Rightarrow> fold relax neighbors (deg, rest))
           in kahn adj deg' queue' (result @ [node])))"

definition topological_sort :: "TableManifest btree_map \<Rightarrow> string list \<Rightarrow> string list option" where
  "topological_sort tables keys =
     (if \<not> list_ex (\<lambda>k. case map_of tables k of None \<Rightarrow> False | Some tm \<Rightarrow> tm_dependencies tm \<noteq> []) keys
      then Some (sort_by_key (ddl_priority tables) keys)
      else
        (let g = build_graph tables keys;
             queue = sort_by_key (ddl_priority tables)
                       (filter (\<lambda>k. (case in_degree g k of None \<Rightarrow> 0 | Some n \<Rightarrow> n) = 0) keys)
         in case kahn (adjacency g) (in_degree g) queue [] of
              None \<Rightarrow> None
            | Some result \<Rightarrow>
                Some (if length result < length keys
                      then result @ sort_by_key (ddl_priority tables) (filter (\<lambda>k. k \<notin> set result) keys)
                      else result)))"

section \<open>The graph\<close>

text \<open>The dependencies of a table that are among the tables to order.\<close>

definition deps_within :: "TableManifest btree_map \<Rightarrow> string set \<Rightarrow> string \<Rightarrow> string list" where
  "deps_within tables K k =
     (case map_of tables k of None \<Rightarrow> [] | Some tm \<Rightarrow> filter (\<lambda>d. d \<in> K) (tm_dependencies tm))"

lemma deps_within_subset: "set (deps_within tables K k) \<subseteq> K"
  by (auto simp: deps_within_def split: option.splits)

lemma fold_add_node:
  "in_degree (fold add_node ks g) k = (if in_degree g k = None \<and> k \<in> set ks then Some 0 else in_degree g k)"
  "adjacency (fold add_node ks g) k = (if adjacency g k = None \<and> k \<in> set ks then Some [] else adjacency g k)"
  by (induction ks arbitrary: g) (auto simp: add_node_def or_insert_def split: option.splits)

lemma add_edge_degree:
  "in_degree g key = Some n \<Longrightarrow> in_degree (add_edge K key e g) = (in_degree g)(key \<mapsto> n + (if e \<in> K then 1 else 0))"
  by (auto simp: add_edge_def or_insert_def fun_upd_idem)

lemma add_edge_adjacency:
  "\<forall>d \<in> K. adjacency g d \<noteq> None \<Longrightarrow>
     adjacency (add_edge K key e g) d =
       (if d \<in> K then Some (the (adjacency g d) @ (if e = d then [key] else [])) else adjacency g d)"
  by (auto simp: add_edge_def or_insert_def Let_def split: option.splits)

lemma fold_add_edge_degree:
  "in_degree g key = Some n \<Longrightarrow>
     in_degree (fold (add_edge K key) ds g) = (in_degree g)(key \<mapsto> n + length (filter (\<lambda>d. d \<in> K) ds))"
proof (induction ds arbitrary: g n)
  case (Cons e ds)
  then show ?case
    using add_edge_degree[OF Cons.prems, of K e] Cons.IH[of "add_edge K key e g" "n + (if e \<in> K then 1 else 0)"]
    by (simp add: fun_upd_def fun_eq_iff)
qed (simp add: fun_upd_idem)

lemma fold_add_edge_adjacency:
  "\<forall>d \<in> K. adjacency g d \<noteq> None \<Longrightarrow>
     adjacency (fold (add_edge K key) ds g) d =
       (if d \<in> K then Some (the (adjacency g d) @ replicate (count_list ds d) key) else adjacency g d)"
proof (induction ds arbitrary: g)
  case (Cons e ds)
  then show ?case
    using add_edge_adjacency[OF Cons.prems, of key e] Cons.IH[of "add_edge K key e g"] by simp
qed auto

lemma count_list_filter_in: "count_list (filter (\<lambda>d. d \<in> K) ds) d = (if d \<in> K then count_list ds d else 0)"
  by (induction ds) auto

lemma add_edges_graph:
  assumes "in_degree g key = Some n" and "\<forall>d \<in> K. adjacency g d \<noteq> None"
  shows "in_degree (add_edges tables K key g) = (in_degree g)(key \<mapsto> n + length (deps_within tables K key))"
    and "adjacency (add_edges tables K key g) d =
      (if d \<in> K then Some (the (adjacency g d) @ replicate (count_list (deps_within tables K key) d) key) else adjacency g d)"
  using fold_add_edge_degree[OF assms(1)] fold_add_edge_adjacency[OF assms(2)] assms
  by (auto simp: add_edges_def deps_within_def count_list_filter_in fun_upd_idem split: option.splits)

lemma fold_add_edges:
  assumes "distinct ks" and "set ks \<subseteq> K" and "\<forall>k \<in> set ks. in_degree g k = Some 0" and "\<forall>d \<in> K. adjacency g d \<noteq> None"
  shows "(\<forall>k. in_degree (fold (add_edges tables K) ks g) k =
            (if k \<in> set ks then Some (length (deps_within tables K k)) else in_degree g k))
    \<and> (\<forall>d \<in> K. adjacency (fold (add_edges tables K) ks g) d =
         Some (the (adjacency g d) @ concat (map (\<lambda>k. replicate (count_list (deps_within tables K k) d) k) ks)))"
  using assms
proof (induction ks arbitrary: g)
  case (Cons k ks)
  let ?g = "add_edges tables K k g"
  have deg: "in_degree ?g = (in_degree g)(k \<mapsto> length (deps_within tables K k))"
    and adj: "\<forall>d \<in> K. adjacency ?g d = Some (the (adjacency g d) @ replicate (count_list (deps_within tables K k) d) k)"
    using add_edges_graph[of g k 0 K tables] Cons.prems by simp_all
  have "\<forall>k \<in> set ks. in_degree ?g k = Some 0" and "\<forall>d \<in> K. adjacency ?g d \<noteq> None"
    using Cons.prems deg adj by auto
  then show ?case using Cons.IH[of ?g] Cons.prems deg adj by auto
qed auto

lemma count_list_replicate: "count_list (replicate n y) x = (if x = y then n else 0)"
  by (induction n) auto

lemma count_list_replicates:
  "distinct ks \<Longrightarrow> count_list (concat (map (\<lambda>k. replicate (f k) k) ks)) x = (if x \<in> set ks then f x else 0)"
  by (induction ks) (auto simp: count_list_replicate)

lemma build_graph_correct:
  assumes "distinct keys"
  shows "in_degree (build_graph tables keys) =
      (\<lambda>k. if k \<in> set keys then Some (length (deps_within tables (set keys) k)) else None)"
    and "d \<in> set keys \<Longrightarrow> \<exists>ns. adjacency (build_graph tables keys) d = Some ns
      \<and> (\<forall>k. count_list ns k = (if k \<in> set keys then count_list (deps_within tables (set keys) k) d else 0))"
proof -
  let ?g = "fold add_node keys \<lparr>in_degree = (\<lambda>_. None), adjacency = (\<lambda>_. None)\<rparr>"
  have g: "\<forall>k \<in> set keys. in_degree ?g k = Some 0" "\<forall>k \<in> set keys. adjacency ?g k = Some []"
      "\<forall>k. k \<notin> set keys \<longrightarrow> in_degree ?g k = None"
    by (auto simp: fold_add_node)
  note built = fold_add_edges[OF assms order.refl g(1), of tables]
  show "in_degree (build_graph tables keys) =
      (\<lambda>k. if k \<in> set keys then Some (length (deps_within tables (set keys) k)) else None)"
    using built g by (auto simp: build_graph_def)
  show "\<exists>ns. adjacency (build_graph tables keys) d = Some ns
      \<and> (\<forall>k. count_list ns k = (if k \<in> set keys then count_list (deps_within tables (set keys) k) d else 0))"
    if "d \<in> set keys"
    using built g(2) that by (simp add: build_graph_def count_list_replicates[OF assms])
qed

section \<open>The loop\<close>

lemma fold_relax:
  assumes "\<forall>k \<in> set ns. \<exists>n. deg k = Some n \<and> count_list ns k \<le> n"
  shows "\<exists>qs. fold relax ns (deg, q) = ((\<lambda>k. map_option (\<lambda>n. n - count_list ns k) (deg k)), q @ qs)
    \<and> distinct qs \<and> set qs = {k \<in> set ns. deg k = Some (count_list ns k)}"
  using assms
proof (induction ns arbitrary: deg q)
  case Nil
  then show ?case by (auto simp: option.map_id0 map_option.identity)
next
  case (Cons m ns)
  obtain n where n: "deg m = Some n" "count_list ns m < n" using Cons.prems by fastforce
  let ?deg = "deg(m \<mapsto> n - 1)" and ?q = "if n - 1 = 0 then q @ [m] else q"
  have step: "relax m (deg, q) = (?deg, ?q)" using n(1) by (simp add: relax_def)
  have "\<forall>k \<in> set ns. \<exists>n. ?deg k = Some n \<and> count_list ns k \<le> n"
    using Cons.prems n by (auto split: if_splits)
  from Cons.IH[OF this, of ?q] obtain qs where
    qs: "fold relax ns (?deg, ?q) = ((\<lambda>k. map_option (\<lambda>n. n - count_list ns k) (?deg k)), ?q @ qs)"
      "distinct qs" "set qs = {k \<in> set ns. ?deg k = Some (count_list ns k)}" by blast
  have deg: "(\<lambda>k. map_option (\<lambda>n. n - count_list ns k) (?deg k)) =
      (\<lambda>k. map_option (\<lambda>n. n - count_list (m # ns) k) (deg k))"
    using n(1) by (auto simp: fun_eq_iff)
  have same: "k \<in> set ns \<Longrightarrow> k \<noteq> m \<Longrightarrow> ?deg k = Some (count_list ns k) \<longleftrightarrow> deg k = Some (count_list (m # ns) k)" for k
    by simp
  show ?case
  proof (cases "n - 1 = 0")
    case True
    then have zero: "n = 1" "count_list ns m = 0" "m \<notin> set ns" using n(2) count_list_0_iff[of ns m] by auto
    then have "set (m # qs) = {k \<in> set (m # ns). deg k = Some (count_list (m # ns) k)}"
      using qs(3) n(1) same by auto
    then show ?thesis using qs deg step True zero(3) by (intro exI[of _ "m # qs"]) simp
  next
    case False
    have m: "deg m = Some (count_list (m # ns) m) \<longleftrightarrow> ?deg m = Some (count_list ns m)" using n by auto
    have "m \<in> set ns" if "deg m = Some (count_list (m # ns) m)" using that n False count_list_0_iff[of ns m] by auto
    with m have mm: "m \<in> set qs \<longleftrightarrow> m \<in> set (m # ns) \<and> deg m = Some (count_list (m # ns) m)"
      unfolding qs(3) by auto
    have "k \<in> set qs \<longleftrightarrow> k \<in> set (m # ns) \<and> deg k = Some (count_list (m # ns) k)" for k
      using mm same[of k] by (cases "k = m") (auto simp: qs(3))
    then have "set qs = {k \<in> set (m # ns). deg k = Some (count_list (m # ns) k)}" by blast
    then show ?thesis using qs deg step False by (intro exI[of _ qs]) simp
  qed
qed

text \<open>
  The loop invariant. \<open>D k\<close> are the dependencies of \<open>k\<close> among the keys \<open>K\<close>. The nodes seen are
  exactly those whose dependencies are all in the result, every in-degree counts the others, and
  the result is in dependency order.
\<close>

definition in_order :: "(string \<Rightarrow> string list) \<Rightarrow> string list \<Rightarrow> bool" where
  "in_order D R \<longleftrightarrow> (\<forall>i < length R. set (D (R ! i)) \<subseteq> set (take i R))"

definition open_deps :: "string set \<Rightarrow> (string \<Rightarrow> string list) \<Rightarrow> string list \<Rightarrow> string \<Rightarrow> nat option" where
  "open_deps K D R = (\<lambda>k. if k \<in> K then Some (length (filter (\<lambda>d. d \<notin> set R) (D k))) else None)"

definition kahn_inv :: "string set \<Rightarrow> (string \<Rightarrow> string list) \<Rightarrow> string list \<Rightarrow> string list \<Rightarrow> bool" where
  "kahn_inv K D Q R \<longleftrightarrow> distinct (R @ Q) \<and> set (R @ Q) = {k \<in> K. set (D k) \<subseteq> set R} \<and> in_order D R"

lemma in_order_snoc: "in_order D R \<Longrightarrow> set (D x) \<subseteq> set R \<Longrightarrow> in_order D (R @ [x])"
  by (auto simp: in_order_def nth_append less_Suc_eq)

lemma open_deps_snoc:
  "x \<notin> set R \<Longrightarrow> length (filter (\<lambda>d. d \<notin> set R) ds) = length (filter (\<lambda>d. d \<notin> set (R @ [x])) ds) + count_list ds x"
  by (induction ds) auto

lemma open_deps_zero: "length (filter (\<lambda>d. d \<notin> set R) ds) = 0 \<longleftrightarrow> set ds \<subseteq> set R"
  by (auto simp: filter_empty_conv)

lemma kahn_step:
  assumes inv: "kahn_inv K D (x # Q) R" and adj: "\<forall>k. count_list ns k = (if k \<in> K then count_list (D k) x else 0)"
  shows "\<exists>qs. fold relax ns (open_deps K D R, Q) = (open_deps K D (R @ [x]), Q @ qs) \<and> kahn_inv K D (Q @ qs) (R @ [x])"
proof -
  have x: "x \<notin> set R" "x \<notin> set Q" using inv by (auto simp: kahn_inv_def)
  note snoc = open_deps_snoc[OF x(1)]
  have ns: "k \<in> set ns \<longleftrightarrow> k \<in> K \<and> x \<in> set (D k)" for k
    using adj count_list_0_iff[of ns k] count_list_0_iff[of "D k" x] by (auto split: if_splits)
  have "\<forall>k \<in> set ns. \<exists>n. open_deps K D R k = Some n \<and> count_list ns k \<le> n"
    using ns adj snoc by (auto simp: open_deps_def)
  from fold_relax[OF this, of Q] obtain qs where
    qs: "fold relax ns (open_deps K D R, Q) =
        ((\<lambda>k. map_option (\<lambda>n. n - count_list ns k) (open_deps K D R k)), Q @ qs)"
      "distinct qs" "set qs = {k \<in> set ns. open_deps K D R k = Some (count_list ns k)}" by blast
  have deg: "(\<lambda>k. map_option (\<lambda>n. n - count_list ns k) (open_deps K D R k)) = open_deps K D (R @ [x])"
    using adj by (simp add: open_deps_def fun_eq_iff snoc)
  have new: "k \<in> set qs \<longleftrightarrow> k \<in> K \<and> x \<in> set (D k) \<and> set (D k) \<subseteq> set (R @ [x])" for k
    using adj snoc[of "D k"] open_deps_zero[of "R @ [x]" "D k"] by (auto simp: qs(3) ns open_deps_def)
  have seen: "set R \<union> insert x (set Q) = {k \<in> K. set (D k) \<subseteq> set R}" using inv by (simp add: kahn_inv_def)
  then have "set qs \<inter> (set R \<union> insert x (set Q)) = {}" using new x(1) by auto
  then have "distinct ((R @ [x]) @ Q @ qs)" using inv qs(2) by (auto simp: kahn_inv_def)
  moreover have "set ((R @ [x]) @ Q @ qs) = {k \<in> K. set (D k) \<subseteq> set (R @ [x])}" (is "?l = ?r")
  proof -
    have "?l = {k \<in> K. set (D k) \<subseteq> set R} \<union> set qs" using seen by auto
    also have "\<dots> = ?r" using new by auto
    finally show ?thesis .
  qed
  moreover have "in_order D (R @ [x])"
    using inv seen by (intro in_order_snoc) (auto simp: kahn_inv_def)
  ultimately show ?thesis using qs(1) deg by (auto simp: kahn_inv_def)
qed

lemma kahn_returns:
  assumes "finite K"
    and adj: "\<And>x. x \<in> K \<Longrightarrow> \<exists>ns. adj x = Some ns \<and> (\<forall>k. count_list ns k = (if k \<in> K then count_list (D k) x else 0))"
  shows "kahn_inv K D Q R \<Longrightarrow> \<exists>R'. kahn adj (open_deps K D R) Q R = Some R' \<and> kahn_inv K D [] R'"
proof (induction "card K - length R" arbitrary: Q R rule: less_induct)
  case less
  show ?case
  proof (cases Q)
    case Nil
    then show ?thesis using less.prems by (subst kahn.simps) simp
  next
    case (Cons x Q')
    have dist: "distinct (R @ Q)" and sub: "set (R @ Q) \<subseteq> K" using less.prems by (auto simp: kahn_inv_def)
    then have "length (R @ Q) \<le> card K" using assms(1) by (metis card_mono distinct_card)
    then have smaller: "card K - length (R @ [x]) < card K - length R" using Cons by simp
    obtain ns where ns: "adj x = Some ns" "\<forall>k. count_list ns k = (if k \<in> K then count_list (D k) x else 0)"
      using adj[of x] sub Cons by auto
    obtain qs where qs: "fold relax ns (open_deps K D R, Q') = (open_deps K D (R @ [x]), Q' @ qs)"
        "kahn_inv K D (Q' @ qs) (R @ [x])"
      using kahn_step[OF _ ns(2), of Q' R] less.prems Cons by blast
    have "kahn adj (open_deps K D R) Q R = kahn adj (open_deps K D (R @ [x])) (Q' @ qs) (R @ [x])"
      using Cons ns(1) qs(1) by (subst kahn.simps) simp
    with less.hyps[OF smaller qs(2)] show ?thesis by simp
  qed
qed

lemma kahn_complete:
  assumes "finite K" and "acyclic {(d, k). k \<in> K \<and> d \<in> set (D k)}" and "\<And>k. k \<in> K \<Longrightarrow> set (D k) \<subseteq> K"
    and "kahn_inv K D [] R"
  shows "set R = K"
proof (rule ccontr)
  assume "set R \<noteq> K"
  then have ne: "K - set R \<noteq> {}" using assms(4) by (auto simp: kahn_inv_def)
  let ?E = "{(d, k). k \<in> K \<and> d \<in> set (D k)}"
  have "finite ?E" using assms(1,3) by (intro finite_subset[of ?E "K \<times> K"]) auto
  then have "wf ?E" using assms(2) by (rule finite_acyclic_wf)
  then obtain k where k: "k \<in> K - set R" "\<And>d. (d, k) \<in> ?E \<Longrightarrow> d \<notin> K - set R"
    using ne unfolding wf_eq_minimal by blast
  then have "set (D k) \<subseteq> set R" using assms(3) by auto
  then show False using k(1) assms(4) by (auto simp: kahn_inv_def)
qed

lemma kahn_on_keys:
  fixes tables keys
  defines "g \<equiv> build_graph tables keys" and "D \<equiv> deps_within tables (set keys)"
  assumes "distinct keys"
    and queue: "queue = sort_by_key (ddl_priority tables)
           (filter (\<lambda>k. (case in_degree g k of None \<Rightarrow> 0 | Some n \<Rightarrow> n) = 0) keys)"
  shows "\<exists>R. kahn (adjacency g) (in_degree g) queue [] = Some R \<and> kahn_inv (set keys) D [] R"
proof -
  have deg: "in_degree g = open_deps (set keys) D []"
    using build_graph_correct(1)[OF assms(3), of tables] by (auto simp: g_def D_def open_deps_def)
  have "kahn_inv (set keys) D queue []"
    using assms(3) by (auto simp: queue kahn_inv_def in_order_def deg open_deps_def)
  then show ?thesis
    unfolding deg unfolding g_def D_def using build_graph_correct(2)[OF assms(3), of _ tables]
    by (intro kahn_returns) simp_all
qed

text \<open>Sorting by a priority of two values is a stable split.\<close>

lemma insort_two_keys:
  fixes f :: "'a \<Rightarrow> nat"
  assumes "\<forall>y \<in> set A. f y = 0" and "\<forall>y \<in> set B. f y = 1"
  shows "f x = 0 \<Longrightarrow> insort_by (\<lambda>a b. f a \<le> f b) x (A @ B) = x # A @ B"
    and "f x = 1 \<Longrightarrow> insort_by (\<lambda>a b. f a \<le> f b) x (A @ B) = A @ x # B"
proof -
  show "insort_by (\<lambda>a b. f a \<le> f b) x (A @ B) = x # A @ B" if "f x = 0"
    using that by (cases "A @ B") simp_all
  show "insort_by (\<lambda>a b. f a \<le> f b) x (A @ B) = A @ x # B" if x: "f x = 1"
    using assms(1)
  proof (induction A)
    case Nil
    then show ?case using x assms(2) by (cases B) simp_all
  qed (use x in simp)
qed

lemma sort_by_priority:
  "sort_by_key data_table_priority xs = filter (\<lambda>k. data_table_priority k = 0) xs @ filter (\<lambda>k. data_table_priority k = 1) xs"
proof (induction xs)
  case (Cons x xs)
  let ?A = "filter (\<lambda>k. data_table_priority k = 0) xs" and ?B = "filter (\<lambda>k. data_table_priority k = 1) xs"
  have split: "\<forall>y \<in> set ?A. data_table_priority y = 0" "\<forall>y \<in> set ?B. data_table_priority y = 1" by simp_all
  have step: "sort_by_key data_table_priority (x # xs) =
      insort_by (\<lambda>a b. data_table_priority a \<le> data_table_priority b) x (?A @ ?B)"
    unfolding Cons[symmetric] by (simp add: sort_by_key_def sort_by_def)
  have "data_table_priority x = 0 \<or> data_table_priority x = 1"
    by (simp add: data_table_priority_def Let_def)
  then show ?case
  proof (elim disjE)
    assume x: "data_table_priority x = 0"
    then show ?thesis unfolding step insort_two_keys(1)[OF split x] by simp
  next
    assume x: "data_table_priority x = 1"
    then show ?thesis unfolding step insort_two_keys(2)[OF split x] by simp
  qed
qed (simp add: sort_by_key_def sort_by_def)

section \<open>Properties\<close>

text \<open>
  C16. The dependency sort of the DDL-only objects always returns, whatever the dependencies, cycles
  and references to missing tables included, and yields each of the (distinct) keys exactly once.
  If the dependencies among the keys have no cycle, every object comes after all of those it
  depends on.
\<close>

theorem topological_sort_correct:
  assumes "distinct keys"
  shows "\<exists>r. topological_sort tables keys = Some r \<and> mset r = mset keys
    \<and> (acyclic {(d, k). k \<in> set keys \<and> d \<in> set (deps_within tables (set keys) k)}
       \<longrightarrow> (\<forall>i < length r. set (deps_within tables (set keys) (r ! i)) \<subseteq> set (take i r)))"
proof (cases "list_ex (\<lambda>k. case map_of tables k of None \<Rightarrow> False | Some tm \<Rightarrow> tm_dependencies tm \<noteq> []) keys")
  case False
  then have "\<forall>k \<in> set keys. deps_within tables (set keys) k = []"
    by (auto simp: list_ex_iff deps_within_def split: option.splits)
  then have "\<forall>i < length keys. deps_within tables (set keys) (sort_by_key (ddl_priority tables) keys ! i) = []"
    by (metis length_sort_by_key nth_mem set_sort_by_key)
  then show ?thesis using False by (simp add: topological_sort_def)
next
  case True
  let ?D = "deps_within tables (set keys)" and ?rest = "\<lambda>R. filter (\<lambda>k. k \<notin> set R) keys"
  obtain R where R: "kahn (adjacency (build_graph tables keys)) (in_degree (build_graph tables keys))
      (sort_by_key (ddl_priority tables)
        (filter (\<lambda>k. (case in_degree (build_graph tables keys) k of None \<Rightarrow> 0 | Some n \<Rightarrow> n) = 0) keys)) [] = Some R"
      and inv: "kahn_inv (set keys) ?D [] R"
    using kahn_on_keys[OF assms refl] by blast
  have dist: "distinct R" and sub: "set R \<subseteq> set keys" and ord: "in_order ?D R" using inv by (auto simp: kahn_inv_def)
  have len: "length R < length keys \<longleftrightarrow> set R \<noteq> set keys"
    using dist sub assms by (metis List.finite_set card_subset_eq distinct_card nat_less_le card_mono)
  have perm: "mset (R @ ?rest R) = mset keys"
    using dist sub assms by (subst set_eq_iff_mset_eq_distinct[symmetric]) auto
  show ?thesis
  proof (cases "set R = set keys")
    case eq: True
    then have "mset R = mset keys" using dist assms by (simp add: set_eq_iff_mset_eq_distinct)
    then show ?thesis using True R len eq ord by (simp add: topological_sort_def in_order_def)
  next
    case ne: False
    then have "\<not> acyclic {(d, k). k \<in> set keys \<and> d \<in> set (?D k)}"
      using kahn_complete[OF _ _ _ inv] deps_within_subset by blast
    then show ?thesis using True R len ne perm by (simp add: topological_sort_def)
  qed
qed

definition sample_ddl :: "string \<Rightarrow> bool \<Rightarrow> string list \<Rightarrow> TableManifest" where
  "sample_ddl engine metadata_only deps =
     \<lparr>tm_ddl = '''', tm_uuid = None, tm_engine = engine, tm_total_bytes = 0, tm_parts = [],
      tm_pending_mutations = [], tm_metadata_only = metadata_only, tm_dependencies = deps\<rparr>"

definition sample_tables :: "TableManifest btree_map" where
  "sample_tables = [(''d.a'', sample_ddl ''View'' True [''d.c'', ''d.x'']), (''d.b'', sample_ddl ''Dictionary'' True [''d.a'']),
     (''d.c'', sample_ddl ''Merge'' True [])]"

definition sample_keys :: "string list" where
  "sample_keys = [''d.a'', ''d.b'', ''d.c'']"

definition sample_rank :: "string \<Rightarrow> nat" where
  "sample_rank k = (if k = ''d.b'' then 2 else if k = ''d.a'' then 1 else 0)"

lemma sample_tables_sorted: "topological_sort sample_tables sample_keys = Some [''d.c'', ''d.a'', ''d.b'']"
  by code_simp

lemma sample_tables_ranked:
  "list_all (\<lambda>k. list_all (\<lambda>d. sample_rank d < sample_rank k) (deps_within sample_tables (set sample_keys) k)) sample_keys"
  by code_simp

theorem topological_sort_correct_witness:
  "topological_sort sample_tables sample_keys = Some [''d.c'', ''d.a'', ''d.b'']
   \<and> set (deps_within sample_tables (set sample_keys) ([''d.c'', ''d.a'', ''d.b''] ! 2))
       \<subseteq> set (take 2 [''d.c'', ''d.a'', ''d.b''])"
proof -
  let ?r = "[''d.c'', ''d.a'', ''d.b'']"
  have "{(d, k). k \<in> set sample_keys \<and> d \<in> set (deps_within sample_tables (set sample_keys) k)} \<subseteq> measure sample_rank"
    using sample_tables_ranked by (auto simp: list_all_iff)
  then have "acyclic {(d, k). k \<in> set sample_keys \<and> d \<in> set (deps_within sample_tables (set sample_keys) k)}"
    by (rule acyclic_subset[OF wf_acyclic[OF wf_measure]])
  moreover have "distinct sample_keys" by (simp add: sample_keys_def)
  ultimately have "\<forall>i < length ?r. set (deps_within sample_tables (set sample_keys) (?r ! i)) \<subseteq> set (take i ?r)"
    using topological_sort_correct[of sample_keys sample_tables] unfolding sample_tables_sorted by blast
  then have "set (deps_within sample_tables (set sample_keys) (?r ! 2)) \<subseteq> set (take 2 ?r)" by (rule allE[of _ 2]) simp
  then show ?thesis using sample_tables_sorted by blast
qed

text \<open>
  The restore phases are a partition of the selected tables the manifest knows: streaming
  engines and refreshable materialized views are postponed, other DDL-only objects form the last
  phase, and everything else is a data table. Order within a phase is the order of the selection,
  except that the storage tables of materialized views come after the other data tables.
\<close>

theorem classify_restore_tables_partition:
  "classify_restore_tables m keys =
     (let late = (\<lambda>tm. is_streaming_engine (tm_engine tm) \<or> is_refreshable_mv tm);
          pick = (\<lambda>P. filter (\<lambda>k. case map_of (bm_tables m) k of None \<Rightarrow> False | Some tm \<Rightarrow> P tm) keys);
          data = pick (\<lambda>tm. \<not> late tm \<and> \<not> tm_metadata_only tm)
      in \<lparr>data_tables = filter (\<lambda>k. data_table_priority k = 0) data @ filter (\<lambda>k. data_table_priority k = 1) data,
          postponed_tables = pick late,
          ddl_only_tables = pick (\<lambda>tm. \<not> late tm \<and> tm_metadata_only tm)\<rparr>)"
proof -
  let ?late = "\<lambda>tm. is_streaming_engine (tm_engine tm) \<or> is_refreshable_mv tm"
  let ?pick = "\<lambda>P ks. filter (\<lambda>k. case map_of (bm_tables m) k of None \<Rightarrow> False | Some tm \<Rightarrow> P tm) ks"
  have "fold (classify_one (bm_tables m)) ks \<lparr>data_tables = a, postponed_tables = b, ddl_only_tables = c\<rparr> =
     \<lparr>data_tables = a @ ?pick (\<lambda>tm. \<not> ?late tm \<and> \<not> tm_metadata_only tm) ks,
      postponed_tables = b @ ?pick ?late ks,
      ddl_only_tables = c @ ?pick (\<lambda>tm. \<not> ?late tm \<and> tm_metadata_only tm) ks\<rparr>" for ks a b c
  proof (induction ks arbitrary: a b c)
    case (Cons k ks)
    show ?case
    proof (cases "map_of (bm_tables m) k")
      case None
      then show ?thesis using Cons.IH[of a b c] by (simp add: classify_one_def)
    next
      case (Some tm)
      consider "?late tm" | "\<not> ?late tm" "tm_metadata_only tm" | "\<not> ?late tm" "\<not> tm_metadata_only tm" by blast
      then show ?thesis
      proof cases
        case 1
        then show ?thesis using Some Cons.IH[of a "b @ [k]" c] by (simp add: classify_one_def)
      next
        case 2
        then show ?thesis using Some Cons.IH[of a b "c @ [k]"] by (simp add: classify_one_def)
      next
        case 3
        then show ?thesis using Some Cons.IH[of "a @ [k]" b c] by (simp add: classify_one_def)
      qed
    qed
  qed simp
  then show ?thesis by (simp add: classify_restore_tables_def sort_by_priority Let_def)
qed

end
