(* ===== verification/Server.thy ===== *)
theory Server
  imports Listing
begin

text \<open>
  Model of \<^verbatim>\<open>src/server/actions.rs\<close> and of the operation lifecycle of
  \<^verbatim>\<open>src/server/state.rs\<close>: the action log, the table of running operations, the semaphore and
  the requests that start, finish and kill operations.

  A method of \<^verbatim>\<open>AppState\<close> takes one lock after another and other tasks run in between, so each
  method is a sequence of atomic sections, one constructor of \<open>task\<close> each, and the server is a
  transition system that runs the sections of all requests in any order. \<open>choice\<close> resolves what
  the environment decides: whether a queued task sees its cancellation or a permit, and how the body
  of an operation ends. The clock is a parameter of every section. Ids are natural numbers: the
  \<^verbatim>\<open>u64\<close> counter starts at 1 and goes up by one per operation. Metrics, the HTTP layer and the
  replacement of the semaphore when the configuration is reloaded are not modelled.
\<close>

section \<open>The action log\<close>

datatype ActionStatus = Running | Completed | Failed string | Killed

record ActionEntry =
  ae_id :: nat
  ae_command :: string
  ae_start :: nat
  ae_finish :: "nat option"
  ae_status :: ActionStatus

record ActionLog =
  al_entries :: "ActionEntry list"
  al_capacity :: nat
  al_next_id :: nat

definition ActionLog_new :: "nat \<Rightarrow> ActionLog" where
  "ActionLog_new capacity = \<lparr>al_entries = [], al_capacity = capacity, al_next_id = 1\<rparr>"

definition ActionLog_start :: "nat \<Rightarrow> string \<Rightarrow> ActionLog \<Rightarrow> nat \<times> ActionLog" where
  "ActionLog_start now command log =
     (let oid = al_next_id log;
          kept = (if al_capacity log \<le> length (al_entries log) then drop 1 (al_entries log) else al_entries log)
      in (oid, log\<lparr>al_next_id := oid + 1,
                  al_entries := kept @ [\<lparr>ae_id = oid, ae_command = command, ae_start = now, ae_finish = None,
                                         ae_status = Running\<rparr>]\<rparr>))"

text \<open>\<^verbatim>\<open>iter_mut().find(..)\<close>: the first entry with the id is updated in place.\<close>

fun update_entry :: "nat \<Rightarrow> (ActionEntry \<Rightarrow> ActionEntry) \<Rightarrow> ActionEntry list \<Rightarrow> ActionEntry list" where
  "update_entry oid f [] = []"
| "update_entry oid f (e # es) = (if ae_id e = oid then f e # es else e # update_entry oid f es)"

definition settle :: "nat \<Rightarrow> ActionStatus \<Rightarrow> ActionEntry \<Rightarrow> ActionEntry" where
  "settle now st e = (if ae_status e = Killed then e else e\<lparr>ae_finish := Some now, ae_status := st\<rparr>)"

definition ActionLog_finish :: "nat \<Rightarrow> nat \<Rightarrow> ActionLog \<Rightarrow> ActionLog" where
  "ActionLog_finish now oid log = log\<lparr>al_entries := update_entry oid (settle now Completed) (al_entries log)\<rparr>"

definition ActionLog_fail :: "nat \<Rightarrow> nat \<Rightarrow> string \<Rightarrow> ActionLog \<Rightarrow> ActionLog" where
  "ActionLog_fail now oid error log = log\<lparr>al_entries := update_entry oid (settle now (Failed error)) (al_entries log)\<rparr>"

definition ActionLog_kill :: "nat \<Rightarrow> nat \<Rightarrow> ActionLog \<Rightarrow> ActionLog" where
  "ActionLog_kill now oid log =
     log\<lparr>al_entries := update_entry oid (\<lambda>e. e\<lparr>ae_finish := Some now, ae_status := Killed\<rparr>) (al_entries log)\<rparr>"

definition ActionLog_running :: "ActionLog \<Rightarrow> ActionEntry option" where
  "ActionLog_running log = find (\<lambda>e. ae_status e = Running) (al_entries log)"

section \<open>Operations\<close>

record RunningOp =
  ro_id :: nat
  ro_command :: string
  ro_backup_name :: "string option"
  ro_permit :: bool

definition MAX_PERMITS :: nat where
  "MAX_PERMITS = 2 ^ 61 - 1"

definition semaphore_permits :: "bool \<Rightarrow> nat" where
  "semaphore_permits allow_parallel = (if allow_parallel then MAX_PERMITS else 1)"

text \<open>The sections of the methods; a task whose section has run becomes the next one.\<close>

datatype task =
  TryPermit string "string option"
| TryLog string "string option"
| TryInsert nat string "string option"
| RejectLog nat
| QueueLog string "string option"
| QueueInsert nat string "string option"
| QueueWait nat "string option"
| QueueStore nat "string option"
| Body nat "string option" bool
| FinishLog nat
| FailLog nat string
| RemoveOp nat
| KillRemove "nat option"
| KillLog "nat list"

datatype choice = Go | SeeCancel | LockErr string | OpErr string

datatype reply = Started nat | Refused string | KillReply bool

record server =
  sv_log :: ActionLog
  sv_ops :: "(nat \<times> RunningOp) list"
  sv_available :: nat
  sv_cancelled :: "nat list"
  sv_cache :: ManifestCache
  sv_tasks :: "task list"
  sv_replies :: "reply list"

definition ops_release :: "RunningOp list \<Rightarrow> nat" where
  "ops_release ops = length (filter ro_permit ops)"

text \<open>Removing an operation drops it, which returns its permit.\<close>

definition remove_ops :: "(nat \<Rightarrow> bool) \<Rightarrow> server \<Rightarrow> server" where
  "remove_ops P s =
     s\<lparr>sv_ops := filter (\<lambda>(oid, _). \<not> P oid) (sv_ops s),
       sv_available := sv_available s + ops_release (map snd (filter (\<lambda>(oid, _). P oid) (sv_ops s)))\<rparr>"

definition insert_op :: "nat \<Rightarrow> RunningOp \<Rightarrow> server \<Rightarrow> server" where
  "insert_op oid op s = (let s1 = remove_ops (\<lambda>i. i = oid) s in s1\<lparr>sv_ops := (oid, op) # sv_ops s1\<rparr>)"

definition release_permit :: "server \<Rightarrow> server" where
  "release_permit s = s\<lparr>sv_available := sv_available s + 1\<rparr>"

definition answer_with :: "reply \<Rightarrow> server \<Rightarrow> server" where
  "answer_with r s = s\<lparr>sv_replies := sv_replies s @ [r]\<rparr>"

definition log_with :: "(ActionLog \<Rightarrow> ActionLog) \<Rightarrow> server \<Rightarrow> server" where
  "log_with f s = s\<lparr>sv_log := f (sv_log s)\<rparr>"

definition conflict_msg :: string where
  "conflict_msg = ''operation already in progress for this backup''"

text \<open>
  The atomic sections: each gives the state after it and the tasks that follow, \<open>None\<close> if it has to
  wait. First those of \<^verbatim>\<open>try_start_op\<close>: the permit, then the check and the insertion.
\<close>

type_synonym section_result = "(server \<times> task list) option"

definition try_start_permit :: "string \<Rightarrow> string option \<Rightarrow> server \<Rightarrow> section_result" where
  "try_start_permit command name s =
     (if sv_available s = 0 then Some (answer_with (Refused ''operation already in progress'') s, [])
      else Some (s\<lparr>sv_available := sv_available s - 1\<rparr>, [TryLog command name]))"

definition try_start_insert :: "(string \<Rightarrow> bool) \<Rightarrow> nat \<Rightarrow> string \<Rightarrow> string option \<Rightarrow> server \<Rightarrow> section_result" where
  "try_start_insert invalidates oid command name s =
     (if name \<noteq> None \<and> list_ex (\<lambda>(_, op). ro_backup_name op = name) (sv_ops s)
      then Some (release_permit s, [RejectLog oid])
      else Some (answer_with (Started oid)
                   (insert_op oid \<lparr>ro_id = oid, ro_command = command, ro_backup_name = name, ro_permit = True\<rparr> s),
                 [Body oid name (invalidates command)]))"

definition reject_log :: "nat \<Rightarrow> nat \<Rightarrow> server \<Rightarrow> section_result" where
  "reject_log now oid s =
     Some (answer_with (Refused conflict_msg) (log_with (ActionLog_fail now oid conflict_msg) s), [])"

text \<open>The sections of \<^verbatim>\<open>queue_start_op\<close>.\<close>

definition queue_insert :: "nat \<Rightarrow> string \<Rightarrow> string option \<Rightarrow> server \<Rightarrow> section_result" where
  "queue_insert oid command name s =
     Some (insert_op oid \<lparr>ro_id = oid, ro_command = command, ro_backup_name = name, ro_permit = False\<rparr> s, [QueueWait oid name])"

definition queue_wait :: "choice \<Rightarrow> nat \<Rightarrow> string option \<Rightarrow> server \<Rightarrow> section_result" where
  "queue_wait ch oid name s =
     (if ch = SeeCancel \<and> oid \<in> set (sv_cancelled s)
      then Some (answer_with (Refused ''killed while queued'') (remove_ops (\<lambda>i. i = oid) s), [])
      else if sv_available s = 0 then None
      else Some (s\<lparr>sv_available := sv_available s - 1\<rparr>, [QueueStore oid name]))"

definition queue_store :: "(string \<Rightarrow> bool) \<Rightarrow> nat \<Rightarrow> string option \<Rightarrow> server \<Rightarrow> section_result" where
  "queue_store invalidates oid name s =
     (case map_of (sv_ops s) oid of
        None \<Rightarrow> Some (answer_with (Refused ''killed while queued'') (release_permit s), [])
      | Some op \<Rightarrow>
          if oid \<in> set (sv_cancelled s)
          then Some (answer_with (Refused ''killed while queued'') (release_permit (remove_ops (\<lambda>i. i = oid) s)), [])
          else if name \<noteq> None \<and> list_ex (\<lambda>(_, other). ro_id other \<noteq> oid \<and> ro_backup_name other = name) (sv_ops s)
          then Some (release_permit (remove_ops (\<lambda>i. i = oid) s), [RejectLog oid])
          else Some (answer_with (Started oid) (insert_op oid (op\<lparr>ro_permit := True\<rparr>) s), [Body oid name (invalidates (ro_command op))]))"

text \<open>The task \<^verbatim>\<open>run_operation\<close> spawns, from the PID lock to the end of the operation.\<close>

definition operation_body :: "choice \<Rightarrow> nat \<Rightarrow> bool \<Rightarrow> server \<Rightarrow> section_result" where
  "operation_body ch oid invalidate s =
     (case ch of
        SeeCancel \<Rightarrow> (if oid \<in> set (sv_cancelled s) then Some (s, []) else None)
      | LockErr e \<Rightarrow> Some (s, [FailLog oid e])
      | OpErr e \<Rightarrow> Some (s, [FailLog oid e])
      | Go \<Rightarrow> Some (if invalidate then s\<lparr>sv_cache := ManifestCache_invalidate (sv_cache s)\<rparr> else s, [FinishLog oid]))"

definition kill_op :: "nat option \<Rightarrow> server \<Rightarrow> section_result" where
  "kill_op target s =
     (let P = (\<lambda>i. case target of None \<Rightarrow> True | Some t \<Rightarrow> i = t);
          killed = map (ro_id \<circ> snd) (filter (\<lambda>(i, _). P i) (sv_ops s))
      in if killed = [] then Some (answer_with (KillReply False) s, [])
         else Some ((remove_ops P s)\<lparr>sv_cancelled := killed @ sv_cancelled s\<rparr>, [KillLog killed]))"

lemmas section_defs = try_start_permit_def try_start_insert_def reject_log_def queue_insert_def queue_wait_def queue_store_def
  operation_body_def kill_op_def

text \<open>\<open>invalidates\<close> tells which commands drop the manifest cache when they succeed.\<close>

fun run_task :: "(string \<Rightarrow> bool) \<Rightarrow> nat \<Rightarrow> choice \<Rightarrow> task \<Rightarrow> server \<Rightarrow> section_result" where
  "run_task invalidates now ch (TryPermit command name) s = try_start_permit command name s"
| "run_task invalidates now ch (TryLog command name) s =
     (let (oid, log) = ActionLog_start now command (sv_log s) in Some (s\<lparr>sv_log := log\<rparr>, [TryInsert oid command name]))"
| "run_task invalidates now ch (TryInsert oid command name) s = try_start_insert invalidates oid command name s"
| "run_task invalidates now ch (RejectLog oid) s = reject_log now oid s"
| "run_task invalidates now ch (QueueLog command name) s =
     (let (oid, log) = ActionLog_start now command (sv_log s) in Some (s\<lparr>sv_log := log\<rparr>, [QueueInsert oid command name]))"
| "run_task invalidates now ch (QueueInsert oid command name) s = queue_insert oid command name s"
| "run_task invalidates now ch (QueueWait oid name) s = queue_wait ch oid name s"
| "run_task invalidates now ch (QueueStore oid name) s = queue_store invalidates oid name s"
| "run_task invalidates now ch (Body oid name invalidate) s = operation_body ch oid invalidate s"
| "run_task invalidates now ch (FinishLog oid) s = Some (log_with (ActionLog_finish now oid) s, [RemoveOp oid])"
| "run_task invalidates now ch (FailLog oid error) s = Some (log_with (ActionLog_fail now oid error) s, [RemoveOp oid])"
| "run_task invalidates now ch (RemoveOp oid) s = Some (remove_ops (\<lambda>i. i = oid) s, [])"
| "run_task invalidates now ch (KillRemove target) s = kill_op target s"
| "run_task invalidates now ch (KillLog ids) s =
     Some (answer_with (KillReply True) (log_with (fold (ActionLog_kill now) ids) s), [])"

definition server_new :: "bool \<Rightarrow> nat \<Rightarrow> server" where
  "server_new allow_parallel ttl =
     \<lparr>sv_log = ActionLog_new 100, sv_ops = [], sv_available = semaphore_permits allow_parallel,
      sv_cancelled = [], sv_cache = ManifestCache_new ttl, sv_tasks = [], sv_replies = []\<rparr>"

text \<open>A request enters as the first section of its method.\<close>

fun is_request :: "task \<Rightarrow> bool" where
  "is_request (TryPermit _ _) = True"
| "is_request (QueueLog _ _) = True"
| "is_request (KillRemove _) = True"
| "is_request _ = False"

definition take_task :: "(string \<Rightarrow> bool) \<Rightarrow> nat \<Rightarrow> choice \<Rightarrow> nat \<Rightarrow> server \<Rightarrow> server option" where
  "take_task invalidates now ch i s =
     (if i < length (sv_tasks s)
      then (case run_task invalidates now ch (sv_tasks s ! i) s of
              None \<Rightarrow> None
            | Some (s', ts) \<Rightarrow> Some (s'\<lparr>sv_tasks := take i (sv_tasks s) @ drop (Suc i) (sv_tasks s) @ ts\<rparr>))
      else None)"

inductive server_step :: "(string \<Rightarrow> bool) \<Rightarrow> server \<Rightarrow> server \<Rightarrow> bool" for invalidates where
  request: "is_request t \<Longrightarrow> server_step invalidates s (s\<lparr>sv_tasks := sv_tasks s @ [t]\<rparr>)"
| run: "take_task invalidates now ch i s = Some s' \<Longrightarrow> server_step invalidates s s'"

inductive_cases server_stepE: "server_step invalidates s s'"

section \<open>Lemmas on the log\<close>

definition log_ok :: "ActionLog \<Rightarrow> bool" where
  "log_ok log \<longleftrightarrow> sorted_wrt (<) (map ae_id (al_entries log)) \<and> list_all (\<lambda>e. ae_id e < al_next_id log) (al_entries log)
     \<and> length (al_entries log) \<le> max 1 (al_capacity log)"

definition status_of :: "ActionLog \<Rightarrow> nat \<Rightarrow> ActionStatus option" where
  "status_of log i = map_option ae_status (find (\<lambda>e. ae_id e = i) (al_entries log))"

text \<open>What a log operation may do: keep ids in order and bounded, and never revive a killed entry.\<close>

definition log_step :: "ActionLog \<Rightarrow> ActionLog \<Rightarrow> bool" where
  "log_step log log' \<longleftrightarrow> (log_ok log \<longrightarrow> log_ok log') \<and> al_next_id log \<le> al_next_id log'
     \<and> (\<forall>i < al_next_id log. status_of log i \<in> {Some Killed, None} \<longrightarrow> status_of log' i \<in> {Some Killed, None})"

lemma log_step_refl [simp]: "log_step log log"
  by (simp add: log_step_def)

lemma log_step_trans: "log_step a b \<Longrightarrow> log_step b c \<Longrightarrow> log_step a c"
  unfolding log_step_def by (meson order_less_le_trans order_trans)

lemma update_entry_ids: "(\<And>e. ae_id (f e) = ae_id e) \<Longrightarrow> map ae_id (update_entry i f es) = map ae_id es"
  by (induction es) auto

lemma update_entry_find:
  "(\<And>e. ae_id (f e) = ae_id e) \<Longrightarrow>
   find (\<lambda>e. ae_id e = j) (update_entry i f es) =
     (if i = j then map_option f (find (\<lambda>e. ae_id e = j) es) else find (\<lambda>e. ae_id e = j) es)"
  by (induction es) auto

lemma log_ok_ids:
  "map ae_id es = map ae_id (al_entries log) \<Longrightarrow> log_ok (log\<lparr>al_entries := es\<rparr>) = log_ok log"
proof -
  assume ids: "map ae_id es = map ae_id (al_entries log)"
  then have "length es = length (al_entries log)" by (rule map_eq_imp_length_eq)
  moreover have "list_all (\<lambda>e. ae_id e < n) es = list_all (\<lambda>e. ae_id e < n) (al_entries log)" for n
    using arg_cong[OF ids, of "list_all (\<lambda>i. i < n)"] by (simp add: list.pred_map comp_def)
  ultimately show ?thesis using ids by (simp add: log_ok_def)
qed

lemma log_step_update:
  assumes "\<And>e. ae_id (f e) = ae_id e" and "\<And>e. ae_status e = Killed \<Longrightarrow> ae_status (f e) = Killed"
  shows "log_step log (log\<lparr>al_entries := update_entry i f (al_entries log)\<rparr>)"
  using assms log_ok_ids[OF update_entry_ids[OF assms(1)]]
  by (auto simp: log_step_def status_of_def update_entry_find[OF assms(1)])

lemma log_step_finish: "log_step log (ActionLog_finish now i log)"
  unfolding ActionLog_finish_def by (rule log_step_update) (simp_all add: settle_def)

lemma log_step_fail: "log_step log (ActionLog_fail now i e log)"
  unfolding ActionLog_fail_def by (rule log_step_update) (simp_all add: settle_def)

lemma log_step_kill: "log_step log (ActionLog_kill now i log)"
  unfolding ActionLog_kill_def by (rule log_step_update) simp_all

lemma log_step_kills: "log_step log (fold (ActionLog_kill now) is log)"
proof (induction "is" arbitrary: log)
  case (Cons i "is")
  have "log_step log (fold (ActionLog_kill now) is (ActionLog_kill now i log))"
    by (rule log_step_trans[OF log_step_kill Cons])
  then show ?case by simp
qed simp

lemma log_start:
  assumes "ActionLog_start now c log = (i, log')"
  shows "i = al_next_id log" and "al_next_id log' = al_next_id log + 1" and "log_ok log \<Longrightarrow> log_step log log'"
proof -
  let ?new = "\<lparr>ae_id = al_next_id log, ae_command = c, ae_start = now, ae_finish = None, ae_status = Running\<rparr>"
  define k :: nat where "k = (if al_capacity log \<le> length (al_entries log) then 1 else 0)"
  have kept: "(if al_capacity log \<le> length (al_entries log) then drop 1 (al_entries log) else al_entries log) = drop k (al_entries log)"
    by (simp add: k_def)
  have log': "log' = log\<lparr>al_next_id := al_next_id log + 1, al_entries := drop k (al_entries log) @ [?new]\<rparr>"
    and i: "i = al_next_id log"
    using assms unfolding ActionLog_start_def Let_def kept prod.inject by blast+
  show "i = al_next_id log" "al_next_id log' = al_next_id log + 1" using log' i by simp_all
  show "log_step log log'" if ok: "log_ok log"
  proof -
    have "sorted_wrt (<) (map ae_id (drop k (al_entries log)))"
      using ok by (simp add: log_ok_def drop_map[symmetric] sorted_wrt_drop)
    moreover have "e \<in> set (al_entries log)" if "e \<in> set (drop k (al_entries log))" for e using that by (rule in_set_dropD)
    moreover have "length (drop k (al_entries log)) < max 1 (al_capacity log)" using ok by (auto simp: log_ok_def k_def)
    ultimately have "log_ok log'" using ok by (auto simp: log_ok_def log' sorted_wrt_append list_all_iff less_Suc_eq)
    moreover have "status_of log' j \<in> {Some Killed, None}"
      if j: "j < al_next_id log" "status_of log j \<in> {Some Killed, None}" for j
    proof -
      have dist: "distinct (map ae_id (al_entries log))" using ok by (simp add: log_ok_def strict_sorted_iff)
      have "find (\<lambda>e. ae_id e = j) (drop n es) = find (\<lambda>e. ae_id e = j) es \<or> find (\<lambda>e. ae_id e = j) (drop n es) = None"
        if "distinct (map ae_id es)" for n es
        using that by (induction es arbitrary: n) (auto simp: find_None_iff drop_Cons', metis image_eqI in_set_dropD)
      from this[OF dist, of k] j show ?thesis
        by (auto simp: status_of_def log' find_append split: option.splits)
    qed
    ultimately show ?thesis by (simp add: log_step_def log')
  qed
qed

section \<open>Permits\<close>

definition held :: "server \<Rightarrow> nat" where
  "held s = sv_available s + ops_release (map snd (sv_ops s))"

fun task_permits :: "task \<Rightarrow> nat" where
  "task_permits (TryLog _ _) = 1"
| "task_permits (TryInsert _ _ _) = 1"
| "task_permits (QueueStore _ _) = 1"
| "task_permits _ = 0"

lemma ops_release_split: "ops_release (map snd ops) = ops_release (map snd (filter Q ops)) + ops_release (map snd (filter (\<lambda>x. \<not> Q x) ops))"
  by (induction ops) (auto simp: ops_release_def)

lemma held_remove [simp]: "held (remove_ops P s) = held s"
  using ops_release_split[of "sv_ops s" "\<lambda>(i, _). P i"] by (simp add: held_def remove_ops_def case_prod_unfold)

lemma held_insert [simp]: "held (insert_op i op s) = held s + (if ro_permit op then 1 else 0)"
  using held_remove[of "\<lambda>j. j = i" s] by (simp add: held_def insert_op_def Let_def ops_release_def)

lemma held_release [simp]: "held (release_permit s) = held s + 1"
  by (simp add: held_def release_permit_def)

lemma held_upd [simp]:
  "held (answer_with r s) = held s" "held (log_with f s) = held s" "held (s\<lparr>sv_log := l\<rparr>) = held s"
  "held (s\<lparr>sv_cache := c\<rparr>) = held s" "held (s\<lparr>sv_cancelled := x\<rparr>) = held s" "held (s\<lparr>sv_tasks := ts\<rparr>) = held s"
  by (simp_all add: held_def answer_with_def log_with_def)

lemma held_take [simp]: "0 < sv_available s \<Longrightarrow> held (s\<lparr>sv_available := sv_available s - Suc 0\<rparr>) = held s - 1"
  by (simp add: held_def)

lemma held_pos: "0 < sv_available s \<Longrightarrow> 0 < held s"
  by (simp add: held_def)

text \<open>From here on the sections are unfolded wherever a task is run.\<close>

declare section_defs [simp]

lemma run_task_permits:
  assumes "run_task iv now ch t s = Some (s', ts)"
  shows "held s' + sum_list (map task_permits ts) = held s + task_permits t"
  using assms held_pos[of s]
  by (cases "(iv, now, ch, t, s)" rule: run_task.cases)
    (auto simp: Let_def split: if_splits option.splits choice.splits prod.splits)

section \<open>Names\<close>

text \<open>Which backup name an id stands for, in the table and in the pending sections.\<close>

fun task_binding :: "task \<Rightarrow> (nat \<times> string option) set" where
  "task_binding (TryInsert i _ n) = {(i, n)}"
| "task_binding (QueueInsert i _ n) = {(i, n)}"
| "task_binding (QueueWait i n) = {(i, n)}"
| "task_binding (QueueStore i n) = {(i, n)}"
| "task_binding _ = {}"

lemma task_binding_unique: "(i, n) \<in> task_binding t \<Longrightarrow> (i, m) \<in> task_binding t \<Longrightarrow> n = m"
  by (cases t) auto

definition op_bindings :: "server \<Rightarrow> (nat \<times> string option) set" where
  "op_bindings s = (\<lambda>(i, op). (i, ro_backup_name op)) ` set (sv_ops s)"

definition ops_ok :: "server \<Rightarrow> bool" where
  "ops_ok s \<longleftrightarrow> distinct (map fst (sv_ops s)) \<and> (\<forall>(i, op) \<in> set (sv_ops s). ro_id op = i)
     \<and> (\<forall>(i, a) \<in> set (sv_ops s). \<forall>(j, b) \<in> set (sv_ops s).
          ro_permit a \<and> ro_permit b \<and> ro_backup_name a = ro_backup_name b \<and> ro_backup_name a \<noteq> None \<longrightarrow> i = j)"

lemma sv_ops_upd [simp]:
  "sv_ops (answer_with r s) = sv_ops s" "sv_ops (log_with f s) = sv_ops s" "sv_ops (release_permit s) = sv_ops s"
  "sv_ops (remove_ops P s) = filter (\<lambda>(i, _). \<not> P i) (sv_ops s)"
  "sv_ops (insert_op i op s) = (i, op) # filter (\<lambda>(j, _). j \<noteq> i) (sv_ops s)"
  by (simp_all add: answer_with_def log_with_def release_permit_def remove_ops_def insert_op_def Let_def)

lemma sv_log_upd [simp]:
  "sv_log (answer_with r s) = sv_log s" "sv_log (log_with f s) = f (sv_log s)" "sv_log (release_permit s) = sv_log s"
  "sv_log (remove_ops P s) = sv_log s" "sv_log (insert_op i op s) = sv_log s"
  by (simp_all add: answer_with_def log_with_def release_permit_def remove_ops_def insert_op_def Let_def)

lemma ops_ok_cong: "sv_ops s' = sv_ops s \<Longrightarrow> ops_ok s \<Longrightarrow> ops_ok s'"
  by (simp add: ops_ok_def)

lemma ops_ok_filter: "sv_ops s' = filter Q (sv_ops s) \<Longrightarrow> ops_ok s \<Longrightarrow> ops_ok s'"
  unfolding ops_ok_def by (simp add: distinct_map_filter) blast

lemma ops_ok_insert:
  assumes "ops_ok s" and "sv_ops s' = (i, op) # filter (\<lambda>(j, _). j \<noteq> i) (sv_ops s)" and "ro_id op = i"
    and "\<And>j b. ro_permit op \<Longrightarrow> ro_backup_name op \<noteq> None \<Longrightarrow> (j, b) \<in> set (sv_ops s) \<Longrightarrow> j \<noteq> i \<Longrightarrow>
           ro_backup_name b \<noteq> ro_backup_name op"
  shows "ops_ok s'"
proof -
  have "distinct (map fst (filter (\<lambda>(j, _). j \<noteq> i) (sv_ops s)))" using assms(1) by (simp add: ops_ok_def distinct_map_filter)
  then have "distinct (map fst (sv_ops s'))" by (auto simp: assms(2))
  moreover have "\<forall>(j, b) \<in> set (sv_ops s'). ro_id b = j" using assms(1-3) by (auto simp: ops_ok_def)
  moreover have "j = k"
    if jk: "(j, a) \<in> set (sv_ops s')" "(k, b) \<in> set (sv_ops s')" "ro_permit a" "ro_permit b"
      "ro_backup_name a = ro_backup_name b" "ro_backup_name a \<noteq> None" for j a k b
  proof (cases "j = i \<or> k = i")
    case True
    then show ?thesis using jk assms(2) assms(4)[of j a] assms(4)[of k b] by auto
  next
    case False
    then have "(j, a) \<in> set (sv_ops s)" "(k, b) \<in> set (sv_ops s)" using jk(1,2) assms(2) by auto
    then show ?thesis using assms(1) jk(3-) unfolding ops_ok_def by blast
  qed
  ultimately show ?thesis unfolding ops_ok_def by blast
qed

lemma op_bindings_upd [simp]:
  "op_bindings (answer_with r s) = op_bindings s" "op_bindings (log_with f s) = op_bindings s"
  "op_bindings (release_permit s) = op_bindings s" "op_bindings (s\<lparr>sv_log := l\<rparr>) = op_bindings s"
  "op_bindings (s\<lparr>sv_cache := c\<rparr>) = op_bindings s" "op_bindings (s\<lparr>sv_cancelled := x\<rparr>) = op_bindings s"
  "op_bindings (s\<lparr>sv_available := n\<rparr>) = op_bindings s" "op_bindings (s\<lparr>sv_tasks := ts\<rparr>) = op_bindings s"
  by (simp_all add: op_bindings_def)

lemma op_bindings_remove: "b \<in> op_bindings (remove_ops P s) \<Longrightarrow> b \<in> op_bindings s"
  by (auto simp: op_bindings_def)

lemma op_bindings_insert: "b \<in> op_bindings (insert_op i op s) \<Longrightarrow> b = (i, ro_backup_name op) \<or> b \<in> op_bindings s"
  by (auto simp: op_bindings_def)

lemma op_bindings_lookup: "map_of (sv_ops s) i = Some op \<Longrightarrow> (i, ro_backup_name op) \<in> op_bindings s"
  unfolding op_bindings_def by (drule map_of_SomeD) (auto intro: rev_image_eqI)

lemma start_binding:
  assumes "(case ActionLog_start now c (sv_log s) of (oid, log) \<Rightarrow> Some (s\<lparr>sv_log := log\<rparr>, [f oid])) = Some (s', ts)"
  shows "s' = s\<lparr>sv_log := snd (ActionLog_start now c (sv_log s))\<rparr>" and "ts = [f (al_next_id (sv_log s))]"
    and "al_next_id (sv_log s') = al_next_id (sv_log s) + 1"
proof -
  obtain i log where start: "ActionLog_start now c (sv_log s) = (i, log)" by (meson surj_pair)
  note log_start[OF start]
  then show "s' = s\<lparr>sv_log := snd (ActionLog_start now c (sv_log s))\<rparr>" "ts = [f (al_next_id (sv_log s))]"
    "al_next_id (sv_log s') = al_next_id (sv_log s) + 1"
    using assms start by auto
qed

lemma run_task_bindings:
  assumes run: "run_task iv now ch t s = Some (s', ts)"
    and b: "b \<in> op_bindings s' \<or> (\<exists>t' \<in> set ts. b \<in> task_binding t')"
  shows "b \<in> op_bindings s \<or> b \<in> task_binding t \<or>
    (fst b = al_next_id (sv_log s) \<and> al_next_id (sv_log s') = al_next_id (sv_log s) + 1
     \<and> (\<exists>t'. ts = [t'] \<and> b \<in> task_binding t'))"
proof (cases t)
  case (TryLog c n)
  then show ?thesis using b start_binding[where now = now and c = c and s = s and f = "\<lambda>i. TryInsert i c n"] run by auto
next
  case (QueueLog c n)
  then show ?thesis using b start_binding[where now = now and c = c and s = s and f = "\<lambda>i. QueueInsert i c n"] run by auto
next
  case (QueueStore i n)
  show ?thesis
  proof (cases "map_of (sv_ops s) i")
    case (Some op)
    then show ?thesis
      using run b QueueStore op_bindings_lookup[OF Some]
      by (auto split: if_splits dest!: op_bindings_insert op_bindings_remove)
  qed (use run b QueueStore in auto)
qed (use run b in \<open>auto simp: Let_def split: if_splits choice.splits dest!: op_bindings_insert op_bindings_remove\<close>)

lemma run_task_log:
  assumes "run_task iv now ch t s = Some (s', ts)" and "log_ok (sv_log s)"
  shows "log_step (sv_log s) (sv_log s')"
  using assms
  by (cases "(iv, now, ch, t, s)" rule: run_task.cases)
    (auto simp: Let_def log_start(3) log_step_finish log_step_fail log_step_kills
      split: if_splits option.splits choice.splits prod.splits)

lemma run_task_ops_ok:
  assumes run: "run_task iv now ch t s = Some (s', ts)" and ok: "ops_ok s"
    and agree: "\<And>i n m. (i, n) \<in> op_bindings s \<Longrightarrow> (i, m) \<in> task_binding t \<Longrightarrow> n = m"
  shows "ops_ok s'"
proof (cases t)
  case (TryInsert i c n)
  show ?thesis
  proof (cases "n \<noteq> None \<and> list_ex (\<lambda>(_, op). ro_backup_name op = n) (sv_ops s)")
    case True
    then show ?thesis using run TryInsert ok by (auto intro: ops_ok_cong)
  next
    case False
    let ?op = "\<lparr>ro_id = i, ro_command = c, ro_backup_name = n, ro_permit = True\<rparr>"
    have "s' = answer_with (Started i) (insert_op i ?op s)" using False run TryInsert by auto
    then show ?thesis using False by (intro ops_ok_insert[OF ok, where i = i and op = ?op]) (auto simp: list_ex_iff)
  qed
next
  case (QueueInsert i c n)
  let ?op = "\<lparr>ro_id = i, ro_command = c, ro_backup_name = n, ro_permit = False\<rparr>"
  show ?thesis using run QueueInsert by (intro ops_ok_insert[OF ok, where i = i and op = ?op]) auto
next
  case (QueueStore i n)
  show ?thesis
  proof (cases "map_of (sv_ops s) i")
    case None
    then show ?thesis using run QueueStore ok by (auto intro: ops_ok_cong)
  next
    case (Some op)
    have id: "ro_id op = i" using ok map_of_SomeD[OF Some] by (auto simp: ops_ok_def)
    have name: "ro_backup_name op = n" using agree op_bindings_lookup[OF Some] QueueStore by simp
    show ?thesis
    proof (cases "i \<in> set (sv_cancelled s) \<or>
        (n \<noteq> None \<and> list_ex (\<lambda>(_, other). ro_id other \<noteq> i \<and> ro_backup_name other = n) (sv_ops s))")
      case True
      then have "sv_ops s' = filter (\<lambda>(j, _). j \<noteq> i) (sv_ops s)" using run QueueStore Some by (auto split: if_splits)
      then show ?thesis using ok by (rule ops_ok_filter)
    next
      case False
      then have s': "s' = answer_with (Started i) (insert_op i (op\<lparr>ro_permit := True\<rparr>) s)" using run QueueStore Some by auto
      have "ro_id b = j" if "(j, b) \<in> set (sv_ops s)" for j b using ok that by (auto simp: ops_ok_def)
      then show ?thesis using False id name 
        by (intro ops_ok_insert[OF ok, where i = i and op = "op\<lparr>ro_permit := True\<rparr>"]) (auto simp: s' list_ex_iff)
    qed
  qed
next
  case (KillRemove target)
  then show ?thesis using run ok by (auto simp: Let_def split: if_splits intro: ops_ok_cong ops_ok_filter[rotated])
qed (use run ok in \<open>auto simp: Let_def split: if_splits choice.splits prod.splits intro: ops_ok_cong ops_ok_filter[rotated]\<close>)

section \<open>The invariant\<close>

definition bindings :: "server \<Rightarrow> (nat \<times> string option) set" where
  "bindings s = op_bindings s \<union> \<Union> (task_binding ` set (sv_tasks s))"

definition server_inv :: "nat \<Rightarrow> server \<Rightarrow> bool" where
  "server_inv permits s \<longleftrightarrow> held s + sum_list (map task_permits (sv_tasks s)) = permits \<and> ops_ok s \<and> log_ok (sv_log s)
     \<and> (\<forall>(i, n) \<in> bindings s. i < al_next_id (sv_log s))
     \<and> (\<forall>(i, n) \<in> bindings s. \<forall>(j, m) \<in> bindings s. i = j \<longrightarrow> n = m)"

lemma run_task_keeps_tasks: "run_task iv now ch t s = Some (s', ts) \<Longrightarrow> sv_tasks s' = sv_tasks s"
  by (cases "(iv, now, ch, t, s)" rule: run_task.cases)
    (auto simp: Let_def answer_with_def log_with_def release_permit_def remove_ops_def insert_op_def
      split: if_splits option.splits choice.splits prod.splits)

lemma server_inv_request: "server_inv permits s \<Longrightarrow> is_request t \<Longrightarrow> server_inv permits (s\<lparr>sv_tasks := sv_tasks s @ [t]\<rparr>)"
proof -
  assume inv: "server_inv permits s" and t: "is_request t"
  have t0: "task_permits t = 0" "task_binding t = {}" using t by (cases t; simp)+
  then have "bindings (s\<lparr>sv_tasks := sv_tasks s @ [t]\<rparr>) = bindings s" by (simp add: bindings_def)
  then show ?thesis using inv t0 by (simp add: server_inv_def ops_ok_def)
qed

lemma server_inv_run:
  assumes inv: "server_inv permits s" and step: "take_task iv now ch i s = Some s'"
  shows "server_inv permits s'"
proof -
  let ?t = "sv_tasks s ! i"
  obtain s1 ts where i: "i < length (sv_tasks s)" and run: "run_task iv now ch ?t s = Some (s1, ts)"
    and s': "s' = s1\<lparr>sv_tasks := take i (sv_tasks s) @ drop (Suc i) (sv_tasks s) @ ts\<rparr>"
    using step by (auto simp: take_task_def split: if_splits option.splits)
  have tasks: "sv_tasks s = take i (sv_tasks s) @ ?t # drop (Suc i) (sv_tasks s)" using i by (simp add: id_take_nth_drop)
  have t_in: "b \<in> bindings s" if "b \<in> task_binding ?t" for b using that i by (auto simp: bindings_def)
  have old: "b \<in> bindings s" if "b \<in> op_bindings s" for b using that by (simp add: bindings_def)
  have fresh: "b \<in> bindings s \<or> (fst b = al_next_id (sv_log s) \<and> al_next_id (sv_log s') = al_next_id (sv_log s) + 1
      \<and> (\<exists>t'. ts = [t'] \<and> b \<in> task_binding t'))"
    if "b \<in> bindings s'" for b
  proof -
    from that consider "b \<in> op_bindings s1 \<or> (\<exists>t' \<in> set ts. b \<in> task_binding t')"
      | t' where "t' \<in> set (sv_tasks s)" "b \<in> task_binding t'"
      unfolding bindings_def s' by (auto dest: in_set_takeD in_set_dropD)
    then show ?thesis
    proof cases
      case 1
      from run_task_bindings[OF run 1] show ?thesis using t_in[of b] old[of b] by (auto simp: s')
    next
      case 2
      then show ?thesis by (auto simp: bindings_def)
    qed
  qed
  have bound: "\<forall>(j, n) \<in> bindings s. j < al_next_id (sv_log s)" using inv by (simp add: server_inv_def)
  have log: "log_step (sv_log s) (sv_log s')" using run_task_log[OF run] inv by (simp add: s' server_inv_def)
  have "ops_ok s1"
  proof (rule run_task_ops_ok[OF run])
    show "ops_ok s" using inv by (simp add: server_inv_def)
    show "n = m" if "(j, n) \<in> op_bindings s" "(j, m) \<in> task_binding ?t" for j n m
      using inv t_in[OF that(2)] old[OF that(1)] by (fastforce simp: server_inv_def)
  qed
  then have "ops_ok s'" by (simp add: s' ops_ok_def)
  moreover have "held s' + sum_list (map task_permits (sv_tasks s')) = permits"
    using run_task_permits[OF run] inv arg_cong[OF tasks, of "\<lambda>xs. sum_list (map task_permits xs)"]
    by (simp add: s' server_inv_def)
  moreover have "\<forall>(j, n) \<in> bindings s'. j < al_next_id (sv_log s')"
    using fresh bound log by (fastforce simp: log_step_def)
  moreover have "n = m" if jn: "(j, n) \<in> bindings s'" and jm: "(j, m) \<in> bindings s'" for j n m
  proof (cases "j < al_next_id (sv_log s)")
    case True
    then have "(j, n) \<in> bindings s" "(j, m) \<in> bindings s" using fresh[OF jn] fresh[OF jm] by auto
    then show ?thesis using inv unfolding server_inv_def by blast
  next
    case False
    then have "(j, n) \<notin> bindings s" "(j, m) \<notin> bindings s" using bound by auto
    then obtain t' where "(j, n) \<in> task_binding t'" "(j, m) \<in> task_binding t'"
      using fresh[OF jn] fresh[OF jm] by auto
    then show ?thesis by (rule task_binding_unique)
  qed
  ultimately show ?thesis using inv log by (auto simp: server_inv_def log_step_def)
qed

interpretation srv: inv_system "\<lambda>s. s = server_new par ttl" "server_step iv" "server_inv (semaphore_permits par)" for par ttl iv
proof unfold_locales
  show "server_inv (semaphore_permits par) s" if "s = server_new par ttl" for s
    using that by (simp add: server_new_def server_inv_def held_def ops_release_def ops_ok_def log_ok_def ActionLog_new_def
        bindings_def op_bindings_def)
  show "server_inv (semaphore_permits par) t" if "server_inv (semaphore_permits par) s" "server_step iv s t" for s t
    using that(2,1) by (auto elim!: server_stepE intro: server_inv_request server_inv_run)
qed

section \<open>Schedules\<close>

text \<open>A schedule as a list of requests and of sections to run, for evaluating runs of the server.\<close>

datatype event = Request task | Run nat choice

fun server_run :: "(string \<Rightarrow> bool) \<Rightarrow> event list \<Rightarrow> server \<Rightarrow> server option" where
  "server_run iv [] s = Some s"
| "server_run iv (Request t # es) s = (if is_request t then server_run iv es (s\<lparr>sv_tasks := sv_tasks s @ [t]\<rparr>) else None)"
| "server_run iv (Run i ch # es) s = (case take_task iv 0 ch i s of None \<Rightarrow> None | Some s' \<Rightarrow> server_run iv es s')"

lemma server_run_reach:
  "server_run iv es s = Some s' \<Longrightarrow> reach init (server_step iv) s \<Longrightarrow> reach init (server_step iv) s'"
proof (induction es arbitrary: s)
  case (Cons e es)
  show ?case
  proof (cases e)
    case (Request t)
    then show ?thesis using Cons server_step.request[of t iv s] by (auto split: if_splits intro: reach_step)
  next
    case (Run i ch)
    then obtain s1 where s1: "take_task iv 0 ch i s = Some s1" "server_run iv es s1 = Some s'"
      using Cons.prems(1) by (auto split: option.splits)
    have "reach init (server_step iv) s1" by (rule reach_step[OF Cons.prems(2) server_step.run[OF s1(1)]])
    then show ?thesis by (rule Cons.IH[OF s1(2)])
  qed
qed simp

text \<open>Three commands for one backup, queued on a server that runs one operation at a time.\<close>

definition queued_three :: "event list" where
  "queued_three =
     Request (QueueLog ''create b'' (Some ''b'')) # replicate 4 (Run 0 Go)
     @ Request (QueueLog ''upload b'' (Some ''b'')) # replicate 2 (Run 1 Go)
     @ Request (QueueLog ''delete b'' (Some ''b'')) # replicate 2 (Run 2 Go)"

definition first_done :: "event list" where
  "first_done = [Run 0 Go, Run 2 Go, Run 2 Go, Run 0 Go]"

definition killed_late :: "event list" where
  "killed_late = Request (TryPermit ''create b'' (Some ''b'')) # replicate 4 (Run 0 Go)
     @ [Request (KillRemove None), Run 1 Go, Run 1 Go]"

definition serial_server :: server where
  "serial_server = server_new False 60"

definition state_after :: "event list \<Rightarrow> server" where
  "state_after es = the (server_run (\<lambda>_. False) es serial_server)"

lemma state_after_reach:
  "server_run (\<lambda>_. False) es serial_server \<noteq> None \<Longrightarrow>
   reach (\<lambda>s. s = server_new False 60) (server_step (\<lambda>_. False)) (state_after es)"
  by (rule server_run_reach[where s = serial_server and es = es])
    (auto simp: state_after_def serial_server_def intro: reach_init)

section \<open>Properties\<close>

text \<open>
  C7. Operations of the server exclude each other. However the requests that start, queue, finish
  and kill operations interleave, at most as many operations hold a permit as the semaphore has
  (one unless parallel operations are allowed), and two that hold a permit never work on the same
  backup. Ids in the table are unique.
\<close>

theorem server_operations_exclusive:
  assumes "reach (\<lambda>s. s = server_new par ttl) (server_step iv) s"
  shows "length (filter (\<lambda>(_, op). ro_permit op) (sv_ops s)) \<le> semaphore_permits par
    \<and> distinct (map fst (sv_ops s))
    \<and> (\<forall>(i, a) \<in> set (sv_ops s). \<forall>(j, b) \<in> set (sv_ops s).
         ro_permit a \<and> ro_permit b \<and> ro_backup_name a = ro_backup_name b \<and> ro_backup_name a \<noteq> None \<longrightarrow> i = j)"
proof -
  have inv: "server_inv (semaphore_permits par) s" using assms by (rule srv.reach_inv)
  have "ops_release (map snd (sv_ops s)) \<le> semaphore_permits par" using inv by (simp add: server_inv_def held_def)
  moreover have "ops_release (map snd ops) = length (filter (\<lambda>(_, op). ro_permit op) ops)" for ops :: "(nat \<times> RunningOp) list"
    by (simp add: ops_release_def filter_map comp_def case_prod_unfold)
  moreover have "ops_ok s" using inv by (simp add: server_inv_def)
  ultimately show ?thesis unfolding ops_ok_def by simp
qed

theorem server_operations_exclusive_witness:
  "map (\<lambda>(i, op). (i, ro_permit op)) (sv_ops (state_after queued_three)) = [(3, False), (2, False), (1, True)]
   \<and> length (filter (\<lambda>(_, op). ro_permit op) (sv_ops (state_after queued_three))) \<le> semaphore_permits False"
proof -
  have "server_run (\<lambda>_. False) queued_three serial_server \<noteq> None" by code_simp
  note server_operations_exclusive[OF state_after_reach[OF this]]
  moreover have "map (\<lambda>(i, op). (i, ro_permit op)) (sv_ops (state_after queued_three)) = [(3, False), (2, False), (1, True)]"
    by code_simp
  ultimately show ?thesis by blast
qed

text \<open>
  C34. The action log is a bounded ring of entries with increasing ids, and a killed action stays
  killed: no later section of the operation, its completion or failure included, changes its
  status before it leaves the log.
\<close>

theorem action_log_invariant:
  assumes "reach (\<lambda>s. s = server_new par ttl) (server_step iv) s" and "server_step iv s s'"
  shows "sorted_wrt (<) (map ae_id (al_entries (sv_log s))) \<and> length (al_entries (sv_log s)) \<le> max 1 (al_capacity (sv_log s))
    \<and> (status_of (sv_log s) i = Some Killed \<longrightarrow> status_of (sv_log s') i \<in> {Some Killed, None})"
proof -
  have "server_inv (semaphore_permits par) s" using assms(1) by (rule srv.reach_inv)
  then have ok: "log_ok (sv_log s)" by (simp add: server_inv_def)
  have "log_step (sv_log s) (sv_log s')"
    using assms(2)
  proof (cases rule: server_step.cases)
    case (run now ch i)
    then show ?thesis using run_task_log[OF _ ok] by (auto simp: take_task_def split: if_splits option.splits)
  qed simp
  moreover have "i < al_next_id (sv_log s)" if "status_of (sv_log s) i = Some Killed"
    using that ok by (auto simp: status_of_def log_ok_def list_all_iff dest: find_SomeD)
  ultimately show ?thesis using ok by (auto simp: log_step_def log_ok_def)
qed

theorem action_log_invariant_witness:
  "status_of (sv_log (state_after killed_late)) 1 = Some Killed
   \<and> status_of (sv_log (state_after (killed_late @ [Run 0 Go]))) 1 = Some Killed"
proof -
  have "server_run (\<lambda>_. False) killed_late serial_server \<noteq> None" by code_simp
  note r = state_after_reach[OF this]
  have "take_task (\<lambda>_. False) 0 Go 0 (state_after killed_late) = Some (state_after (killed_late @ [Run 0 Go]))" by code_simp
  then have "server_step (\<lambda>_. False) (state_after killed_late) (state_after (killed_late @ [Run 0 Go]))" by (rule server_step.run)
  note action_log_invariant[OF r this, of 1]
  moreover have "status_of (sv_log (state_after killed_late)) 1 = Some Killed" by code_simp
  moreover have "status_of (sv_log (state_after (killed_late @ [Run 0 Go]))) 1 \<noteq> None" by code_simp
  ultimately show ?thesis by auto
qed

text \<open>
  A queued operation is refused because of another that is only queued: when its turn comes, an
  entry for the same backup that holds no permit is enough for it to be removed and rejected, also
  on a server that runs one operation at a time.
\<close>

theorem queued_operation_rejected:
  assumes "map_of (sv_ops s) i = Some op" and "i \<notin> set (sv_cancelled s)"
    and "(j, other) \<in> set (sv_ops s)" and "ro_id other \<noteq> i" and "ro_backup_name other = Some b" and "\<not> ro_permit other"
  shows "run_task iv now ch (QueueStore i (Some b)) s = Some (release_permit (remove_ops (\<lambda>k. k = i) s), [RejectLog i])"
  using assms by (auto simp: list_ex_iff)

theorem queued_operation_rejected_witness:
  "semaphore_permits False = 1
   \<and> filter (\<lambda>(_, op). ro_permit op) (sv_ops (state_after (queued_three @ first_done))) = []
   \<and> run_task (\<lambda>_. False) 0 Go (QueueStore 2 (Some ''b'')) (state_after (queued_three @ first_done))
       = Some (release_permit (remove_ops (\<lambda>k. k = 2) (state_after (queued_three @ first_done))), [RejectLog 2])"
proof -
  let ?s = "state_after (queued_three @ first_done)"
  have ops: "map_of (sv_ops ?s) 2 = Some \<lparr>ro_id = 2, ro_command = ''upload b'', ro_backup_name = Some ''b'', ro_permit = False\<rparr>"
    by code_simp
  have other: "(3, \<lparr>ro_id = 3, ro_command = ''delete b'', ro_backup_name = Some ''b'', ro_permit = False\<rparr>) \<in> set (sv_ops ?s)"
    by code_simp
  have "2 \<notin> set (sv_cancelled ?s)" by code_simp
  from queued_operation_rejected[OF ops this other, of "''b''" "\<lambda>_. False" 0 Go]
  have "run_task (\<lambda>_. False) 0 Go (QueueStore 2 (Some ''b'')) ?s = Some (release_permit (remove_ops (\<lambda>k. k = 2) ?s), [RejectLog 2])"
    by simp
  moreover have "filter (\<lambda>(_, op). ro_permit op) (sv_ops ?s) = []" by code_simp
  ultimately show ?thesis by (simp add: semaphore_permits_def)
qed

end
