(* ===== verification/Freeze.thy ===== *)
theory Freeze
  imports Path_Encoding Lock
begin

text \<open>
  Model of the freeze names and the SQL text of \<^verbatim>\<open>src/clickhouse/client.rs\<close> and of the
  shadow cleanup of \<^verbatim>\<open>src/list.rs\<close>, which selects directories by the prefix of their freeze
  name and consults the lock files of running backups. Strings are the bytes of UTF-8 text;
  \<open>uni\<close> is the Unicode alphanumeric table outside ASCII, as for path encoding. A shadow directory
  is the list of its subdirectory names and \<open>rm_ok\<close> tells which of them can be removed.
\<close>

section \<open>Definitions\<close>

subsection \<open>SQL text\<close>

definition escape_sql_string :: "string \<Rightarrow> string" where
  "escape_sql_string s = concat (map (\<lambda>c. if c = CHR 0x27 then [CHR 0x27, CHR 0x27] else [c]) s)"

definition quote_identifier :: "string \<Rightarrow> string" where
  "quote_identifier name =
     CHR 0x60 # concat (map (\<lambda>c. if c = CHR 0x60 then [CHR 0x60, CHR 0x60] else [c]) name) @ [CHR 0x60]"

definition quoted :: "string \<Rightarrow> string" where
  "quoted s = CHR 0x27 # escape_sql_string s @ [CHR 0x27]"

definition freeze_sql :: "string \<Rightarrow> string \<Rightarrow> string \<Rightarrow> string" where
  "freeze_sql db table freeze_name =
     ''ALTER TABLE '' @ quote_identifier db @ ''.'' @ quote_identifier table @ '' FREEZE WITH NAME '' @ quoted freeze_name"

definition unfreeze_sql :: "string \<Rightarrow> string \<Rightarrow> string \<Rightarrow> string" where
  "unfreeze_sql db table freeze_name =
     ''ALTER TABLE '' @ quote_identifier db @ ''.'' @ quote_identifier table @ '' UNFREEZE WITH NAME '' @ quoted freeze_name"

definition freeze_partition_sql :: "string \<Rightarrow> string \<Rightarrow> string \<Rightarrow> string \<Rightarrow> string" where
  "freeze_partition_sql db table partition_id freeze_name =
     ''ALTER TABLE '' @ quote_identifier db @ ''.'' @ quote_identifier table @ '' FREEZE PARTITION ID ''
       @ quoted partition_id @ '' WITH NAME '' @ quoted freeze_name"

definition drop_table_sql :: "string \<Rightarrow> string \<Rightarrow> string option \<Rightarrow> string" where
  "drop_table_sql db table on_cluster =
     ''DROP TABLE IF EXISTS '' @ quote_identifier db @ ''.'' @ quote_identifier table
       @ (case on_cluster of Some cluster \<Rightarrow> '' ON CLUSTER '' @ quoted cluster @ '' SYNC'' | None \<Rightarrow> '' SYNC'')"

definition drop_database_sql :: "string \<Rightarrow> string option \<Rightarrow> string" where
  "drop_database_sql db on_cluster =
     ''DROP DATABASE IF EXISTS '' @ quote_identifier db
       @ (case on_cluster of Some cluster \<Rightarrow> '' ON CLUSTER '' @ quoted cluster @ '' SYNC'' | None \<Rightarrow> '' SYNC'')"

definition detach_table_sync_sql :: "string \<Rightarrow> string \<Rightarrow> string" where
  "detach_table_sync_sql db table = ''DETACH TABLE '' @ quote_identifier db @ ''.'' @ quote_identifier table @ '' SYNC''"

definition attach_table_sql :: "string \<Rightarrow> string \<Rightarrow> string" where
  "attach_table_sql db table = ''ATTACH TABLE '' @ quote_identifier db @ ''.'' @ quote_identifier table"

definition system_restore_replica_sql :: "string \<Rightarrow> string \<Rightarrow> string" where
  "system_restore_replica_sql db table = ''SYSTEM RESTORE REPLICA '' @ quote_identifier db @ ''.'' @ quote_identifier table"

definition drop_replica_from_zkpath_sql :: "string \<Rightarrow> string \<Rightarrow> string" where
  "drop_replica_from_zkpath_sql replica_name zk_path =
     ''SYSTEM DROP REPLICA '' @ quoted replica_name @ '' FROM ZKPATH '' @ quoted zk_path"

subsection \<open>Freeze names\<close>

definition sanitize_name :: "(nat \<Rightarrow> bool) \<Rightarrow> string \<Rightarrow> string" where
  "sanitize_name uni name =
     (case utf8_decode (map of_char name) of
        Some u \<Rightarrow> map char_of (concat (map (\<lambda>c. utf8 (if is_alphanumeric uni c \<or> c = 95 then c else 95)) u))
      | None \<Rightarrow> [])"

definition encode_freeze_component :: "string \<Rightarrow> string" where
  "encode_freeze_component s =
     concat (map (\<lambda>c. let b = of_char c in
               if ascii_alnum b then [c] else [CHR ''_'', char_of (hex_digit (b div 16)), char_of (hex_digit (b mod 16))]) s)"

definition freeze_name :: "string \<Rightarrow> string \<Rightarrow> string \<Rightarrow> string" where
  "freeze_name backup_name db table =
     ''chbackup__'' @ encode_freeze_component backup_name @ ''__'' @ encode_freeze_component db @ ''__''
       @ encode_freeze_component table"

definition legacy_freeze_prefix :: "(nat \<Rightarrow> bool) \<Rightarrow> string \<Rightarrow> string" where
  "legacy_freeze_prefix uni backup_name = ''chbackup_'' @ sanitize_name uni backup_name @ ''_''"

definition freeze_prefix :: "string \<Rightarrow> string" where
  "freeze_prefix backup_name = ''chbackup__'' @ encode_freeze_component backup_name @ ''__''"

subsection \<open>Shadow cleanup\<close>

datatype panic = SliceOutOfBounds

text \<open>The prefixes of one lock file: \<open>&fname[9 .. len - 4]\<close> panics when the bounds cross.\<close>

definition prefixes_of_lock :: "(nat \<Rightarrow> bool) \<Rightarrow> os \<Rightarrow> dir \<Rightarrow> string \<Rightarrow> panic + string list" where
  "prefixes_of_lock uni os locks fname =
     (if \<not> starts_with fname ''chbackup.'' \<or> \<not> ends_with fname ''.pid'' then Inr []
      else if length fname - length ''.pid'' < length ''chbackup.'' then Inl SliceOutOfBounds
      else let inner = drop (length ''chbackup.'') (take (length fname - length ''.pid'') fname)
           in if inner = ''global'' then Inr []
              else if is_lock_file_active os locks fname then Inr [freeze_prefix inner, legacy_freeze_prefix uni inner]
              else Inr [])"

definition active_freeze_prefixes :: "(nat \<Rightarrow> bool) \<Rightarrow> os \<Rightarrow> dir \<Rightarrow> panic + string list" where
  "active_freeze_prefixes uni os locks =
     (case traverse (prefixes_of_lock uni os locks) (map fst locks) of Inl e \<Rightarrow> Inl e | Inr ps \<Rightarrow> Inr (concat ps))"

text \<open>The names of the directories removed from the shadow directory of a disk.\<close>

definition clean_shadow_dir ::
    "(nat \<Rightarrow> bool) \<Rightarrow> os \<Rightarrow> dir \<Rightarrow> (string \<Rightarrow> bool) \<Rightarrow> string list option \<Rightarrow> string option \<Rightarrow> bool \<Rightarrow> panic + string list" where
  "clean_shadow_dir uni os locks rm_ok shadow name force =
     (case shadow of
        None \<Rightarrow> Inr []
      | Some entries \<Rightarrow>
          (let prefix_filters = (case name of Some n \<Rightarrow> [freeze_prefix n, legacy_freeze_prefix uni n] | None \<Rightarrow> []) in
           if \<not> force \<and> (case name of Some n \<Rightarrow> is_lock_file_active os locks (''chbackup.'' @ n @ ''.pid'') | None \<Rightarrow> False)
           then Inr []
           else
             (case (if name = None then active_freeze_prefixes uni os locks else Inr []) of
                Inl e \<Rightarrow> Inl e
              | Inr active_prefixes \<Rightarrow>
                  Inr (filter (\<lambda>dir_name.
                    (if prefix_filters = [] then starts_with dir_name ''chbackup_''
                     else list_ex (starts_with dir_name) prefix_filters)
                    \<and> \<not> list_ex (starts_with dir_name) active_prefixes
                    \<and> rm_ok dir_name) entries))))"

section \<open>Freeze names are injective\<close>

fun freeze_decode :: "string \<Rightarrow> string" where
  "freeze_decode [] = []"
| "freeze_decode (c # cs) =
     (if c = CHR ''_''
      then (case cs of
              h # l # r \<Rightarrow> char_of (the (hex_val (of_char h)) * 16 + the (hex_val (of_char l))) # freeze_decode r
            | _ \<Rightarrow> [])
      else c # freeze_decode cs)"

definition enc_byte :: "char \<Rightarrow> string" where
  "enc_byte c = (let b = of_char c in
     if ascii_alnum b then [c] else [CHR ''_'', char_of (hex_digit (b div 16)), char_of (hex_digit (b mod 16))])"

lemma encode_freeze_simps [simp]:
  "encode_freeze_component [] = []" "encode_freeze_component (c # s) = enc_byte c @ encode_freeze_component s"
  by (simp_all add: encode_freeze_component_def enc_byte_def)

lemma hex_digit_char: "n < 16 \<Longrightarrow> (of_char (char_of (hex_digit n) :: char) :: nat) = hex_digit n"
  by (simp add: hex_digit_def)

lemma hex_digit_not_underscore: "n < 16 \<Longrightarrow> char_of (hex_digit n) \<noteq> CHR ''_''"
proof
  assume n: "n < 16" and "char_of (hex_digit n) = CHR ''_''"
  then have "hex_digit n = of_char CHR ''_''" using hex_digit_char[OF n] by simp
  with n show False by (simp add: hex_digit_def split: if_splits)
qed

lemma underscore_not_alnum: "\<not> ascii_alnum (of_char CHR ''_'')"
  by (simp add: ascii_alnum_def)

lemma enc_byte_cases:
  obtains "ascii_alnum (of_char c)" "enc_byte c = [c]" "c \<noteq> CHR ''_''"
  | h l where "\<not> ascii_alnum (of_char c)" "enc_byte c = [CHR ''_'', h, l]" "h \<noteq> CHR ''_''"
      "char_of (the (hex_val (of_char h)) * 16 + the (hex_val (of_char l))) = c"
proof (cases "ascii_alnum (of_char c)")
  case True
  then have "c \<noteq> CHR ''_''" using underscore_not_alnum by auto
  then show thesis using True that(1) by (simp add: enc_byte_def)
next
  case False
  let ?b = "of_char c :: nat"
  have b: "?b div 16 < 16" "?b mod 16 < 16" using of_char_less[of c] by (auto simp: less_mult_imp_div_less)
  have "?b div 16 * 16 + ?b mod 16 = ?b" by simp
  then have "char_of (?b div 16 * 16 + ?b mod 16) = c" by (simp only: char_of_char)
  then show thesis
    using that(2)[of "char_of (hex_digit (?b div 16))" "char_of (hex_digit (?b mod 16))"] False b
    by (simp add: enc_byte_def Let_def hex_digit_char hex_val_digit hex_digit_not_underscore del: of_char_of)
qed

lemma freeze_decode_byte: "freeze_decode (enc_byte c @ r) = c # freeze_decode r"
  by (rule enc_byte_cases[of c]) simp_all

interpretation freeze_codec: codec "\<lambda>_. True" encode_freeze_component "\<lambda>s. Some (freeze_decode s)"
proof unfold_locales
  have "freeze_decode (encode_freeze_component s) = s" for s
    by (induction s) (simp_all add: freeze_decode_byte)
  then show "Some (freeze_decode (encode_freeze_component s)) = Some s" for s by simp
qed

text \<open>The delimiter does not occur inside a component, so it splits a name in one way only.\<close>

lemma enc_byte_not_delim:
  assumes "enc_byte c @ r = CHR ''_'' # CHR ''_'' # r'"
  shows False
  using assms by (cases rule: enc_byte_cases[of c, case_names plain escaped]) auto

lemma enc_byte_unique:
  assumes "enc_byte c @ r = enc_byte d @ r'"
  shows "c = d \<and> r = r'"
proof -
  have "c = d" using assms freeze_decode_byte[of c r] freeze_decode_byte[of d r'] by simp
  then show ?thesis using assms by simp
qed

lemma freeze_split:
  "encode_freeze_component s @ CHR ''_'' # CHR ''_'' # r = encode_freeze_component s' @ CHR ''_'' # CHR ''_'' # r' \<longleftrightarrow> s = s' \<and> r = r'"
proof (induction s arbitrary: s')
  case Nil
  then show ?case by (cases s') (auto dest: enc_byte_not_delim enc_byte_not_delim[OF sym])
next
  case (Cons c s)
  show ?case
  proof (cases s')
    case Nil
    then show ?thesis using enc_byte_not_delim by fastforce
  next
    case (Cons d s'')
    then show ?thesis using enc_byte_unique[of c _ d] Cons.IH[of s''] by auto
  qed
qed

lemma freeze_prefix_iff: "starts_with (freeze_name b d t) (freeze_prefix n) \<longleftrightarrow> b = n"
proof
  assume "starts_with (freeze_name b d t) (freeze_prefix n)"
  then obtain r where "encode_freeze_component b @ CHR ''_'' # CHR ''_'' # (encode_freeze_component d @ ''__'' @ encode_freeze_component t)
      = encode_freeze_component n @ CHR ''_'' # CHR ''_'' # r"
    by (auto simp: prefix_def freeze_prefix_def freeze_name_def)
  then show "b = n" unfolding freeze_split by simp
qed (auto simp: prefix_def freeze_prefix_def freeze_name_def)

section \<open>Legacy prefixes\<close>

lemma legacy_prefix_head:
  assumes "starts_with (freeze_name b d t) (legacy_freeze_prefix uni n)"
  shows "sanitize_name uni n = [] \<or> hd (sanitize_name uni n) = CHR ''_''"
  using assms by (cases "sanitize_name uni n") (auto simp: prefix_def freeze_name_def legacy_freeze_prefix_def)

lemma sanitize_head:
  assumes "ascii_alnum (of_char c)" and "utf8_decode (map of_char (c # cs)) \<noteq> None"
  shows "\<exists>r. sanitize_name uni (c # cs) = c # r"
proof -
  have small: "(of_char c :: nat) < 128" using assms(1) by (auto simp: ascii_alnum_def)
  then obtain u where "utf8_decode (map of_char (c # cs)) = Some (of_char c # u)" using assms(2) by auto
  then show ?thesis using assms(1) small by (simp add: sanitize_name_def is_alphanumeric_def utf8_def)
qed

lemma legacy_prefix_safe:
  assumes "ascii_alnum (of_char c)" and "utf8_decode (map of_char (c # cs)) \<noteq> None"
  shows "\<not> starts_with (freeze_name b d t) (legacy_freeze_prefix uni (c # cs))"
proof
  assume "starts_with (freeze_name b d t) (legacy_freeze_prefix uni (c # cs))"
  moreover obtain r where "sanitize_name uni (c # cs) = c # r" using sanitize_head[OF assms] by blast
  ultimately have "c = CHR ''_''" using legacy_prefix_head by fastforce
  then show False using assms(1) underscore_not_alnum by simp
qed

section \<open>Active prefixes\<close>

lemma lock_name_inner: "drop (length p) (take (length (p @ b @ q) - length q) (p @ b @ q)) = b"
proof -
  have "length (p @ b @ q) - length q = length (p @ b)" by simp
  then show ?thesis by (simp only: append_assoc[symmetric] take_append) simp
qed

lemma prefixes_of_active_lock:
  fixes b
  defines "p \<equiv> ''chbackup.''" and "q \<equiv> ''.pid''"
  assumes "is_lock_file_active os locks (p @ b @ q)" and "b \<noteq> ''global''"
  shows "prefixes_of_lock uni os locks (p @ b @ q) = Inr [freeze_prefix b, legacy_freeze_prefix uni b]"
proof -
  have ends: "prefix p (p @ b @ q)" "suffix q (p @ b @ q)" by (auto simp: suffix_def)
  have len: "\<not> length (p @ b @ q) - length q < length p" by simp
  show ?thesis
    unfolding prefixes_of_lock_def Let_def p_def[symmetric] q_def[symmetric] lock_name_inner
    using ends len assms(3,4) by simp
qed

lemma active_prefix_listed:
  assumes "active_freeze_prefixes uni os locks = Inr ps" and "is_lock_file_active os locks (''chbackup.'' @ b @ ''.pid'')"
    and "b \<noteq> ''global''"
  shows "freeze_prefix b \<in> set ps"
proof -
  let ?f = "''chbackup.'' @ b @ ''.pid''"
  obtain pss where pss: "traverse (prefixes_of_lock uni os locks) (map fst locks) = Inr pss" "ps = concat pss"
    using assms(1) by (auto simp: active_freeze_prefixes_def split: sum.splits)
  have "map_of locks ?f \<noteq> None" using assms(2) by (auto simp: is_lock_file_active_def split: option.splits)
  then have f: "?f \<in> set (map fst locks)" by (simp only: map_of_eq_None_iff not_not set_map)
  have one: "prefixes_of_lock uni os locks ?f = Inr [freeze_prefix b, legacy_freeze_prefix uni b]"
    by (rule prefixes_of_active_lock[OF assms(2,3)])
  obtain y where "y \<in> set pss" "prefixes_of_lock uni os locks ?f = Inr y"
    using traverse_set(2)[OF pss(1) f] by blast
  then have "[freeze_prefix b, legacy_freeze_prefix uni b] \<in> set pss" using one by simp
  then show ?thesis unfolding pss(2) set_concat by (rule UN_I) simp
qed

section \<open>Reading SQL text\<close>

text \<open>
  A reference reader for quoted text after its opening quote, as ClickHouse documents it: a doubled
  quote stands for itself and a backslash takes the next character literally.
\<close>

fun read_quoted :: "char \<Rightarrow> string \<Rightarrow> (string \<times> string) option" where
  "read_quoted q [] = None"
| "read_quoted q (c # cs) =
     (if c = CHR 0x5C
      then (case cs of [] \<Rightarrow> None | d # ds \<Rightarrow> map_option (\<lambda>(t, r). (d # t, r)) (read_quoted q ds))
      else if c = q
      then (case cs of d # ds \<Rightarrow> if d = q then map_option (\<lambda>(t, r). (q # t, r)) (read_quoted q ds) else Some ([], cs)
            | [] \<Rightarrow> Some ([], cs))
      else map_option (\<lambda>(t, r). (c # t, r)) (read_quoted q cs))"

definition read_table :: "string \<Rightarrow> (string \<times> string \<times> string) option" where
  "read_table s =
     (case s of
        b # cs \<Rightarrow>
          (if b \<noteq> CHR 0x60 then None
           else case read_quoted CHR 0x60 cs of
             Some (db, d # b' # r) \<Rightarrow>
               (if d = CHR ''.'' \<and> b' = CHR 0x60
                then map_option (\<lambda>(t, rest). (db, t, rest)) (read_quoted CHR 0x60 r) else None)
           | _ \<Rightarrow> None)
      | [] \<Rightarrow> None)"

lemma read_quoted_doubled:
  assumes "q \<noteq> CHR 0x5C" and "CHR 0x5C \<notin> set s" and "rest = [] \<or> hd rest \<noteq> q"
  shows "read_quoted q (concat (map (\<lambda>c. if c = q then [q, q] else [c]) s) @ q # rest) = Some (s, rest)"
  using assms(2)
proof (induction s)
  case Nil
  then show ?case using assms(1,3) by (cases rest) auto
next
  case (Cons c s)
  then show ?case using assms(1) by auto
qed

lemma read_quote_identifier:
  "CHR 0x5C \<notin> set name \<Longrightarrow> rest = [] \<or> hd rest \<noteq> CHR 0x60 \<Longrightarrow>
   read_quoted CHR 0x60 (tl (quote_identifier name) @ rest) = Some (name, rest)"
  using read_quoted_doubled[of "CHR 0x60" name rest] by (simp add: quote_identifier_def)

lemma quote_identifier_hd: "quote_identifier name = CHR 0x60 # tl (quote_identifier name)"
  by (simp add: quote_identifier_def)

section \<open>Properties\<close>

text \<open>
  Freeze names are collision free: two freezes share a name only if backup, database and table
  are the same, and the prefix by which cleanup selects the shadow directories of a backup matches
  the freeze names of that backup and of no other.
\<close>

theorem freeze_name_injective:
  "(freeze_name b d t = freeze_name b' d' t' \<longleftrightarrow> b = b' \<and> d = d' \<and> t = t')
   \<and> (starts_with (freeze_name b d t) (freeze_prefix n) \<longleftrightarrow> b = n)"
proof -
  have "freeze_name b d t = freeze_name b' d' t' \<longleftrightarrow>
      encode_freeze_component b @ CHR ''_'' # CHR ''_'' # encode_freeze_component d @ CHR ''_'' # CHR ''_'' # encode_freeze_component t
      = encode_freeze_component b' @ CHR ''_'' # CHR ''_'' # encode_freeze_component d' @ CHR ''_'' # CHR ''_'' # encode_freeze_component t'"
    by (simp add: freeze_name_def)
  also have "\<dots> \<longleftrightarrow> b = b' \<and> d = d' \<and> t = t'"
    unfolding freeze_split using freeze_codec.enc_eq_iff[of t t'] by blast
  finally show ?thesis using freeze_prefix_iff by blast
qed


definition shadow_sample :: "string list" where
  "shadow_sample = [freeze_name ''b1'' ''db'' ''t'', freeze_name ''b2'' ''db'' ''t'', ''other'']"


text \<open>
  The legacy prefix undoes that for names that start with another character: cleaning up after
  backup \<^verbatim>\<open>-x\<close> removes the shadow directories of backup \<^verbatim>\<open>x\<close>, whoever holds its lock.
\<close>

theorem clean_shadow_legacy_collision:
  "clean_shadow_dir uni (kernel sample_procs) [(''chbackup.x.pid'', Info (sample_info 1 7))] (\<lambda>_. True)
       (Some [freeze_name ''x'' d t]) (Some ''-x'') False = Inr [freeze_name ''x'' d t]
   \<and> is_lock_file_active (kernel sample_procs) [(''chbackup.x.pid'', Info (sample_info 1 7))] ''chbackup.x.pid''"
proof -
  have "char_of (95 :: nat) = CHR ''_''" "char_of (120 :: nat) = CHR ''x''" by code_simp+
  then have legacy: "legacy_freeze_prefix uni ''-x'' = ''chbackup__x_''"
    by (simp add: legacy_freeze_prefix_def sanitize_name_def is_alphanumeric_def ascii_alnum_def utf8_def)
  have name: "freeze_name ''x'' d t = ''chbackup__x_'' @ ''_'' @ encode_freeze_component d @ ''__'' @ encode_freeze_component t"
    by (simp add: freeze_name_def enc_byte_def ascii_alnum_def)
  have "\<not> is_lock_file_active (kernel sample_procs) [(''chbackup.x.pid'', Info (sample_info 1 7))] (''chbackup.'' @ ''-x'' @ ''.pid'')"
    by code_simp
  moreover have "is_lock_file_active (kernel sample_procs) [(''chbackup.x.pid'', Info (sample_info 1 7))] ''chbackup.x.pid''"
    by code_simp
  moreover have "starts_with (freeze_name ''x'' d t) (legacy_freeze_prefix uni ''-x'')" unfolding name legacy by (rule prefixI) simp
  ultimately show ?thesis unfolding clean_shadow_dir_def Let_def by simp
qed

text \<open>
  Quoted SQL text reads back: the database and the table named in a statement are recovered by a
  reader that knows doubled quotes and backslash escapes, whatever follows, as long as the names
  hold no backslash. A backslash is not escaped, and a name ending in one swallows the closing quote.
\<close>

theorem sql_table_reads_back:
  assumes "CHR 0x5C \<notin> set db" and "CHR 0x5C \<notin> set table" and "rest = [] \<or> hd rest \<noteq> CHR 0x60"
  shows "read_table (quote_identifier db @ ''.'' @ quote_identifier table @ rest) = Some (db, table, rest)
    \<and> drop_table_sql db table None = ''DROP TABLE IF EXISTS '' @ quote_identifier db @ ''.'' @ quote_identifier table @ '' SYNC''
    \<and> read_quoted CHR 0x60 (tl (quote_identifier (db @ [CHR 0x5C]))) = None"
proof -
  let ?dot = "CHR ''.'' # quote_identifier table @ rest"
  have one: "read_quoted CHR 0x60 (tl (quote_identifier db) @ ?dot) = Some (db, ?dot)"
    by (rule read_quote_identifier[OF assms(1)]) simp
  have two: "read_quoted CHR 0x60 (tl (quote_identifier table) @ rest) = Some (table, rest)"
    by (rule read_quote_identifier[OF assms(2,3)])
  have three: "read_quoted CHR 0x60 (concat (map (\<lambda>c. if c = CHR 0x60 then [CHR 0x60, CHR 0x60] else [c]) s) @ [CHR 0x5C, CHR 0x60]) = None"
    if "CHR 0x5C \<notin> set s" for s using that by (induction s) auto
  have "read_table (quote_identifier db @ ?dot) = Some (db, table, rest)"
  proof -
    obtain tdb ttab where t: "quote_identifier db = CHR 0x60 # tdb" "quote_identifier table = CHR 0x60 # ttab"
      using quote_identifier_hd by blast
    show ?thesis using one two unfolding t by (simp add: read_table_def)
  qed
  then show ?thesis using three[OF assms(1)] by (simp add: drop_table_sql_def quote_identifier_def)
qed

theorem sql_table_reads_back_witness:
  "read_table (quote_identifier ''my`db'' @ ''.'' @ quote_identifier ''t'' @ '' SYNC'') = Some (''my`db'', ''t'', '' SYNC'')"
  using sql_table_reads_back[of "''my`db''" "''t''" "'' SYNC''"] by simp

text \<open>
  A file named \<^verbatim>\<open>chbackup.pid\<close> in the lock directory matches both ends of the lock name pattern,
  and the slice between them is out of bounds: the cleanup of everything panics.
\<close>

lemma clean_shadow_panics:
  "clean_shadow_dir uni os ((''chbackup.pid'', c) # locks) rm_ok (Some entries) None force = Inl SliceOutOfBounds"
proof -
  have "prefixes_of_lock uni os ((''chbackup.pid'', c) # locks) ''chbackup.pid'' = Inl SliceOutOfBounds"
    by (simp add: prefixes_of_lock_def suffix_def)
  then show ?thesis by (simp add: clean_shadow_dir_def active_freeze_prefixes_def)
qed

end
