(* ===== verification/Deferred.thy ===== *)
theory Deferred
  imports Freeze "HOL-Library.AList"
begin

text \<open>
  Model of \<^verbatim>\<open>src/backup/freeze.rs\<close> (freeze evidence, the registry of frozen tables and the
  guard that releases them) and of \<^verbatim>\<open>src/backup/deferred.rs\<close> (the record that carries a freeze
  from \<^verbatim>\<open>create\<close> to \<^verbatim>\<open>upload\<close>), with its use by \<^verbatim>\<open>upload\<close>.

  A world holds the record files by backup name, the lock directory and the state of the
  ClickHouse server. The server is not part of the program: \<^verbatim>\<open>ALTER TABLE .. UNFREEZE\<close> is a
  parameter \<open>unf\<close> that answers whether the statement succeeded and gives the new server state, and
  \<open>held\<close> reads the freezes a server state holds. Theorems on releasing assume
  \<open>unfreeze_contract\<close>: a statement touches no other freeze, and a successful one releases its own.
  An environment holds what one process observes: the operating system, its own process id, the
  clock, and which record files can be written or removed.
\<close>

section \<open>Freezing\<close>

subsection \<open>Evidence\<close>

datatype FreezeOutcome = Frozen | FailExplicitZeroMatch string | WarnDiscoveryZeroMatch string

definition freeze_evidence_outcome :: "string \<Rightarrow> bool \<Rightarrow> bool \<Rightarrow> FreezeOutcome" where
  "freeze_evidence_outcome requested_partition evidence_present explicitly_requested =
     (if evidence_present then Frozen
      else if explicitly_requested then FailExplicitZeroMatch requested_partition
      else WarnDiscoveryZeroMatch requested_partition)"

text \<open>
  \<open>walk disk_path freeze_name\<close> lists the names of the directories at depth four below
  \<^verbatim>\<open>{disk_path}/shadow/{freeze_name}\<close>.
\<close>

definition partitions_with_shadow_evidence ::
    "(string \<Rightarrow> string \<Rightarrow> string list) \<Rightarrow> string btree_map \<Rightarrow> string \<Rightarrow> string list \<Rightarrow> string set" where
  "partitions_with_shadow_evidence walk disk_paths fname requested =
     (let names = concat (map (\<lambda>disk_path. walk disk_path fname) (map snd disk_paths))
      in set (filter (\<lambda>pid. list_ex (\<lambda>n. starts_with n (pid @ ''_'')) names) requested))"

record FreezeInfo =
  fi_database :: string
  fi_table :: string
  fi_freeze_name :: string

definition record_freeze :: "FreezeInfo \<Rightarrow> FreezeInfo list \<Rightarrow> FreezeInfo list" where
  "record_freeze info frozen = (if info \<in> set frozen then frozen else frozen @ [info])"

definition verify_partitions_staged ::
    "(string \<Rightarrow> string \<Rightarrow> string list) \<Rightarrow> FreezeInfo \<Rightarrow> string btree_map \<Rightarrow> string list \<Rightarrow> bool \<Rightarrow> string set" where
  "verify_partitions_staged walk info disk_paths requested explicitly_requested =
     (let with_evidence = partitions_with_shadow_evidence walk disk_paths (fi_freeze_name info) requested
      in set (filter (\<lambda>pid. freeze_evidence_outcome pid (pid \<in> with_evidence) explicitly_requested = Frozen) requested))"

definition unmatched_explicit_partitions :: "string list \<Rightarrow> string set \<Rightarrow> string list" where
  "unmatched_explicit_partitions requested staged_anywhere = filter (\<lambda>pid. pid \<notin> staged_anywhere) requested"

subsection \<open>The guard\<close>

definition take_matching :: "(FreezeInfo \<Rightarrow> bool) \<Rightarrow> FreezeInfo list \<Rightarrow> FreezeInfo list \<times> FreezeInfo list" where
  "take_matching pred frozen = partition pred frozen"

text \<open>The failed entries, in order, and the server after the last statement.\<close>

fun unfreeze_all_checked ::
    "('s \<Rightarrow> FreezeInfo \<Rightarrow> bool \<times> 's) \<Rightarrow> FreezeInfo list \<Rightarrow> 's \<Rightarrow> FreezeInfo list \<times> 's" where
  "unfreeze_all_checked unf [] s = ([], s)"
| "unfreeze_all_checked unf (info # frozen) s =
     (let (ok, s1) = unf s info;
          (failed, s2) = unfreeze_all_checked unf frozen s1
      in (if ok then failed else info # failed, s2))"

definition unfreeze_contract :: "('s \<Rightarrow> FreezeInfo set) \<Rightarrow> ('s \<Rightarrow> FreezeInfo \<Rightarrow> bool \<times> 's) \<Rightarrow> bool" where
  "unfreeze_contract held unf \<longleftrightarrow>
     (\<forall>s i. held (snd (unf s i)) \<subseteq> held s \<and> held s - {i} \<subseteq> held (snd (unf s i))
          \<and> (fst (unf s i) \<longrightarrow> i \<notin> held (snd (unf s i))))"

section \<open>Deferred freezes\<close>

subsection \<open>Records and the world\<close>

definition DEFAULT_TTL_SECS :: u64 where "DEFAULT_TTL_SECS = 24 * 60 * 60"

record DeferredFreezeRecord =
  dr_backup_name :: string
  dr_retained :: "FreezeInfo list"
  dr_owner_pid :: u32
  dr_owner_boot_token :: "string option"
  dr_created_at_secs :: u64
  dr_ttl_secs :: u64

text \<open>A record file parses or it does not.\<close>

datatype recfile = Rec DeferredFreezeRecord | BadRec

record 's world =
  w_recs :: "(string \<times> recfile) list"
  w_locks :: dir
  w_server :: 's

record env =
  e_os :: os
  e_pid :: u32
  e_now :: u64
  e_write :: "string \<Rightarrow> bool"
  e_remove :: "string \<Rightarrow> bool"

definition record_exists :: "'s world \<Rightarrow> string \<Rightarrow> bool" where
  "record_exists w name \<longleftrightarrow> map_of (w_recs w) name \<noteq> None"

definition load_state_file :: "'s world \<Rightarrow> string \<Rightarrow> unit + DeferredFreezeRecord option" where
  "load_state_file w name =
     (case map_of (w_recs w) name of
        None \<Rightarrow> Inr None
      | Some (Rec r) \<Rightarrow> Inr (Some r)
      | Some BadRec \<Rightarrow> Inl ())"

text \<open>Written to a temporary file and renamed: all of the new record or none of it.\<close>

definition publish :: "env \<Rightarrow> string \<Rightarrow> DeferredFreezeRecord \<Rightarrow> 's world \<Rightarrow> bool \<times> 's world" where
  "publish e name r w =
     (if e_write e name then (True, w\<lparr>w_recs := AList.update name (Rec r) (w_recs w)\<rparr>) else (False, w))"

definition delete_record :: "env \<Rightarrow> string \<Rightarrow> 's world \<Rightarrow> bool \<times> 's world" where
  "delete_record e name w =
     (if \<not> record_exists w name then (True, w)
      else if e_remove e name then (True, w\<lparr>w_recs := AList.delete name (w_recs w)\<rparr>)
      else (False, w))"

subsection \<open>Ownership and age\<close>

definition new_record :: "env \<Rightarrow> string \<Rightarrow> FreezeInfo list \<Rightarrow> u64 \<Rightarrow> DeferredFreezeRecord" where
  "new_record e backup_name retained ttl =
     \<lparr>dr_backup_name = backup_name, dr_retained = retained, dr_owner_pid = e_pid e,
      dr_owner_boot_token = process_start_token (e_os e) (e_pid e),
      dr_created_at_secs = e_now e, dr_ttl_secs = ttl\<rparr>"

definition liveness_from :: "DeferredFreezeRecord \<Rightarrow> bool \<Rightarrow> string option \<Rightarrow> bool" where
  "liveness_from r pid_alive current_token =
     (if \<not> pid_alive then False
      else case dr_owner_boot_token r of
        None \<Rightarrow> False
      | Some recorded \<Rightarrow> (case current_token of Some current \<Rightarrow> current = recorded | None \<Rightarrow> True))"

definition owner_is_live :: "env \<Rightarrow> DeferredFreezeRecord \<Rightarrow> bool" where
  "owner_is_live e r =
     liveness_from r (is_pid_alive (e_os e) (dr_owner_pid r)) (process_start_token (e_os e) (dr_owner_pid r))"

text \<open>\<^verbatim>\<open>saturating_sub\<close>: a clock before the creation time gives age zero.\<close>

definition sat_sub :: "u64 \<Rightarrow> u64 \<Rightarrow> u64" where
  "sat_sub a b = (if a < b then 0 else a - b)"

definition is_expired :: "env \<Rightarrow> DeferredFreezeRecord \<Rightarrow> bool" where
  "is_expired e r \<longleftrightarrow> dr_ttl_secs r < sat_sub (e_now e) (dr_created_at_secs r)"

definition ownership_from :: "DeferredFreezeRecord \<Rightarrow> u32 \<Rightarrow> string option \<Rightarrow> bool" where
  "ownership_from r current_pid current_token =
     (if dr_owner_pid r \<noteq> current_pid then False
      else case (dr_owner_boot_token r, current_token) of
        (Some recorded, Some current) \<Rightarrow> recorded = current
      | _ \<Rightarrow> False)"

definition owned_by_current_process :: "env \<Rightarrow> DeferredFreezeRecord \<Rightarrow> bool" where
  "owned_by_current_process e r = ownership_from r (e_pid e) (process_start_token (e_os e) (e_pid e))"

definition adopt :: "env \<Rightarrow> DeferredFreezeRecord \<Rightarrow> DeferredFreezeRecord" where
  "adopt e r = r\<lparr>dr_owner_pid := e_pid e, dr_owner_boot_token := process_start_token (e_os e) (e_pid e)\<rparr>"

definition demote :: "DeferredFreezeRecord \<Rightarrow> DeferredFreezeRecord" where
  "demote r = r\<lparr>dr_owner_pid := 0, dr_owner_boot_token := None\<rparr>"

subsection \<open>Loading\<close>

datatype LoadOutcome =
  LoadNone | Usable DeferredFreezeRecord | CorruptRecord | ForeignLive DeferredFreezeRecord

definition load :: "env \<Rightarrow> string \<Rightarrow> 's world \<Rightarrow> LoadOutcome \<times> 's world" where
  "load e name w =
     (if \<not> record_exists w name then (LoadNone, w)
      else case load_state_file w name of
        Inl _ \<Rightarrow> (CorruptRecord, w)
      | Inr None \<Rightarrow> (LoadNone, w)
      | Inr (Some r) \<Rightarrow>
          if dr_backup_name r \<noteq> name then (CorruptRecord, w)
          else if owned_by_current_process e r then (Usable r, w)
          else if owner_is_live e r then (ForeignLive r, w)
          else (let adopted = adopt e r; (_, w1) = publish e name adopted w in (Usable adopted, w1)))"

subsection \<open>Releasing\<close>

definition retain_failed ::
    "env \<Rightarrow> string \<Rightarrow> FreezeInfo list \<Rightarrow> DeferredFreezeRecord \<Rightarrow> 's world \<Rightarrow> 's world" where
  "retain_failed e name failed prior w =
     snd (publish e name
       \<lparr>dr_backup_name = name, dr_retained = failed, dr_owner_pid = 0, dr_owner_boot_token = None,
        dr_created_at_secs = dr_created_at_secs prior, dr_ttl_secs = dr_ttl_secs prior\<rparr> w)"

text \<open>
  The match on \<^verbatim>\<open>unfreeze_all_checked\<close> that ends every release: the number of entries still
  frozen, whether the record could be removed, and the world.
\<close>

definition release_entries ::
    "('s \<Rightarrow> FreezeInfo \<Rightarrow> bool \<times> 's) \<Rightarrow> env \<Rightarrow> string \<Rightarrow> FreezeInfo list \<Rightarrow> DeferredFreezeRecord \<Rightarrow> 's world
       \<Rightarrow> nat \<times> bool \<times> 's world" where
  "release_entries unf e name retained prior w =
     (let (failed, s) = unfreeze_all_checked unf retained (w_server w);
          w1 = w\<lparr>w_server := s\<rparr>
      in if failed = [] then (let (ok, w2) = delete_record e name w1 in (0, ok, w2))
         else (length failed, True, retain_failed e name failed prior w1))"

datatype release_error = WrongBackup | UnreadableRecord | RemoveFailed | StillFrozen nat

definition release_now ::
    "('s \<Rightarrow> FreezeInfo \<Rightarrow> bool \<times> 's) \<Rightarrow> env \<Rightarrow> string \<Rightarrow> 's world \<Rightarrow> (release_error + nat) \<times> 's world" where
  "release_now unf e name w =
     (if \<not> record_exists w name then (Inr 0, w)
      else case load_state_file w name of
        Inl _ \<Rightarrow> (Inl UnreadableRecord, w)
      | Inr None \<Rightarrow> (Inr 0, w)
      | Inr (Some r) \<Rightarrow>
          if dr_backup_name r \<noteq> name then (Inl WrongBackup, w)
          else (let (still_frozen, ok, w1) = release_entries unf e name (dr_retained r) r w
                in if still_frozen = 0
                   then (if ok then (Inr (length (dr_retained r)), w1) else (Inl RemoveFailed, w1))
                   else (Inl (StillFrozen still_frozen), w1)))"

definition demote_on_operation_end :: "env \<Rightarrow> string \<Rightarrow> 's world \<Rightarrow> 's world" where
  "demote_on_operation_end e name w =
     (if \<not> record_exists w name then w
      else case load_state_file w name of
        Inl _ \<Rightarrow> w
      | Inr None \<Rightarrow> w
      | Inr (Some r) \<Rightarrow>
          if dr_backup_name r \<noteq> name then w
          else if dr_owner_pid r = 0 \<and> dr_owner_boot_token r = None then w
          else snd (publish e name (demote r) w))"

text \<open>\<^verbatim>\<open>src/upload/mod.rs\<close>: what an upload does with the record when it ends.\<close>

definition finalize_deferred_freeze ::
    "('s \<Rightarrow> FreezeInfo \<Rightarrow> bool \<times> 's) \<Rightarrow> env \<Rightarrow> string \<Rightarrow> bool \<Rightarrow> 's world \<Rightarrow> 's world" where
  "finalize_deferred_freeze unf e name upload_succeeded w =
     (if \<not> upload_succeeded
      then (if record_exists w name then demote_on_operation_end e name w else w)
      else case load e name w of
        (Usable r, w1) \<Rightarrow>
          if dr_retained r = [] then snd (delete_record e name w1)
          else snd (snd (release_entries unf e name (dr_retained r) r w1))
      | (_, w1) \<Rightarrow> w1)"

subsection \<open>Protection\<close>

datatype protection_reason = RecordUnreadable | LockHeld | OwnerAlive | NotYetExpired

datatype ProtectionStatus =
  NotProtected | Protected protection_reason u32 | Reapable DeferredFreezeRecord

definition backup_lock_is_active :: "env \<Rightarrow> 's world \<Rightarrow> string \<Rightarrow> bool" where
  "backup_lock_is_active e w name =
     (case lock_path_for_scope (Backup name) of
        Some p \<Rightarrow> is_lock_file_active (e_os e) (w_locks w) p
      | None \<Rightarrow> False)"

definition status_inner :: "env \<Rightarrow> 's world \<Rightarrow> string \<Rightarrow> bool \<Rightarrow> ProtectionStatus" where
  "status_inner e w name consult_lock =
     (if \<not> record_exists w name then NotProtected
      else case load_state_file w name of
        Inr None \<Rightarrow> NotProtected
      | Inl _ \<Rightarrow> Protected RecordUnreadable 0
      | Inr (Some r) \<Rightarrow>
          if consult_lock \<and> backup_lock_is_active e w name then Protected LockHeld (dr_owner_pid r)
          else if owner_is_live e r then Protected OwnerAlive (dr_owner_pid r)
          else if \<not> is_expired e r then Protected NotYetExpired (dr_owner_pid r)
          else Reapable r)"

definition protection_status :: "env \<Rightarrow> 's world \<Rightarrow> string \<Rightarrow> ProtectionStatus" where
  "protection_status e w name = status_inner e w name True"

definition status_under_lock :: "env \<Rightarrow> 's world \<Rightarrow> string \<Rightarrow> ProtectionStatus" where
  "status_under_lock e w name = status_inner e w name False"

definition blocks_destructive_op :: "env \<Rightarrow> 's world \<Rightarrow> string \<Rightarrow> bool" where
  "blocks_destructive_op e w name =
     (case protection_status e w name of NotProtected \<Rightarrow> False | Protected _ _ \<Rightarrow> True | Reapable _ \<Rightarrow> True)"

text \<open>
  What \<^verbatim>\<open>delete_local\<close> does to the record: it refuses, or the directory goes and the record file with it. The
  check and the removal are one step here.
\<close>

definition delete_local_record :: "env \<Rightarrow> string \<Rightarrow> 's world \<Rightarrow> bool \<times> 's world" where
  "delete_local_record e name w =
     (if blocks_destructive_op e w name then (False, w)
      else (True, w\<lparr>w_recs := AList.delete name (w_recs w)\<rparr>))"

subsection \<open>Reaping\<close>

text \<open>The lock of a candidate, unless the caller holds it already.\<close>

definition reap_lock :: "env \<Rightarrow> LockInfo \<Rightarrow> bool \<Rightarrow> string \<Rightarrow> dir \<Rightarrow> bool \<times> dir" where
  "reap_lock e info self_owned name locks =
     (if self_owned then (True, locks)
      else case acquire_scoped (e_os e) alone (Backup name) info locks of
        (Inr _, d) \<Rightarrow> (True, d)
      | (Inl _, d) \<Rightarrow> (False, d))"

text \<open>
  The part of \<^verbatim>\<open>reap_expired\<close> from taking the lock of a candidate to dropping it, for one
  candidate; the first component is true when the freeze was released.
\<close>

definition reap_locked ::
    "('s \<Rightarrow> FreezeInfo \<Rightarrow> bool \<times> 's) \<Rightarrow> env \<Rightarrow> LockInfo \<Rightarrow> bool \<Rightarrow> string \<Rightarrow> 's world \<Rightarrow> bool \<times> 's world" where
  "reap_locked unf e info self_owned name w =
     (let (got, locks) = reap_lock e info self_owned name (w_locks w);
          w1 = w\<lparr>w_locks := locks\<rparr>
      in if \<not> got then (False, w1)
         else let (released, w2) =
                (case status_under_lock e w1 name of
                   Reapable r \<Rightarrow>
                     (let (still_frozen, _, w3) = release_entries unf e name (dr_retained r) r w1
                      in (still_frozen = 0, w3))
                 | _ \<Rightarrow> (False, w1))
              in (released, if self_owned then w2
                            else w2\<lparr>w_locks := PidLock_drop (LOCK_PREFIX @ name @ LOCK_SUFFIX) (w_locks w2)\<rparr>))"

text \<open>
  One candidate: the pre-check reads the world in environment \<open>e\<close>, \<open>others\<close> is what other
  processes do before the lock is taken, and the rest happens in environment \<open>e'\<close>.
\<close>

definition reap_candidate ::
    "('s \<Rightarrow> FreezeInfo \<Rightarrow> bool \<times> 's) \<Rightarrow> env \<Rightarrow> env \<Rightarrow> ('s world \<Rightarrow> 's world) \<Rightarrow> LockInfo \<Rightarrow> string option
       \<Rightarrow> string \<Rightarrow> 's world \<Rightarrow> bool \<times> 's world" where
  "reap_candidate unf e e' others info own_lock name w =
     (if \<not> record_exists w name then (False, w)
      else let self_owned = (own_lock = Some name);
               status = (if self_owned then status_under_lock e w name else protection_status e w name)
      in case status of
        Reapable _ \<Rightarrow> reap_locked unf e' info self_owned name (others w)
      | _ \<Rightarrow> (False, w))"

text \<open>The loop, with the directory listing taken once at the start; the number of backups released.\<close>

fun reap_loop ::
    "('s \<Rightarrow> FreezeInfo \<Rightarrow> bool \<times> 's) \<Rightarrow> env \<Rightarrow> env \<Rightarrow> ('s world \<Rightarrow> 's world) \<Rightarrow> LockInfo \<Rightarrow> string option
       \<Rightarrow> string list \<Rightarrow> 's world \<Rightarrow> nat \<times> 's world" where
  "reap_loop unf e e' others info own_lock [] w = (0, w)"
| "reap_loop unf e e' others info own_lock (name # names) w =
     (let (released, w1) = reap_candidate unf e e' others info own_lock name w;
          (n, w2) = reap_loop unf e e' others info own_lock names w1
      in ((if released then Suc n else n), w2))"

definition reap_expired ::
    "('s \<Rightarrow> FreezeInfo \<Rightarrow> bool \<times> 's) \<Rightarrow> env \<Rightarrow> LockInfo \<Rightarrow> string option \<Rightarrow> 's world \<Rightarrow> nat \<times> 's world" where
  "reap_expired unf e info own_lock w =
     reap_loop unf e e (\<lambda>w. w) info own_lock (map fst (w_recs w)) w"

subsection \<open>The end of create\<close>

text \<open>
  \<^verbatim>\<open>src/backup/mod.rs\<close>: the freezes of object-disk tables are set aside and recorded before any
  unfreeze is skipped, the others are released. The result is the freezes set aside, the record
  published for them, and the world.
\<close>

definition create_defer ::
    "('s \<Rightarrow> FreezeInfo \<Rightarrow> bool \<times> 's) \<Rightarrow> env \<Rightarrow> string \<Rightarrow> u64 \<Rightarrow> bool \<Rightarrow> string set \<Rightarrow> FreezeInfo list \<Rightarrow> 's world
       \<Rightarrow> FreezeInfo list \<times> DeferredFreezeRecord option \<times> 's world" where
  "create_defer unf e name ttl defer_unfreeze_s3 s3_tables guard w =
     (let (retained, kept) =
            (if defer_unfreeze_s3 \<and> s3_tables \<noteq> {}
             then take_matching (\<lambda>info. fi_database info @ ''.'' @ fi_table info \<in> s3_tables) guard
             else ([], guard));
          (retained, published_record, kept, w) =
            (if retained \<noteq> []
             then (let r = new_record e name retained ttl; (ok, w1) = publish e name r w
                   in if ok then (retained, Some r, kept, w1) else ([], None, kept @ retained, w1))
             else (retained, None, kept, w));
          (_, s) = unfreeze_all_checked unf kept (w_server w)
      in (retained, published_record, w\<lparr>w_server := s\<rparr>))"

text \<open>After the manifest is written, or after an error on the way.\<close>

definition create_end ::
    "('s \<Rightarrow> FreezeInfo \<Rightarrow> bool \<times> 's) \<Rightarrow> env \<Rightarrow> string \<Rightarrow> bool \<Rightarrow> FreezeInfo list \<Rightarrow> DeferredFreezeRecord option
       \<Rightarrow> 's world \<Rightarrow> 's world" where
  "create_end unf e name tail_ok retained published_record w =
     (if tail_ok then (if published_record \<noteq> None then demote_on_operation_end e name w else w)
      else if retained = [] then w
      else let (failed, s) = unfreeze_all_checked unf retained (w_server w); w1 = w\<lparr>w_server := s\<rparr>
           in if failed = [] then snd (delete_record e name w1)
              else case published_record of
                Some prior \<Rightarrow> retain_failed e name failed prior w1
              | None \<Rightarrow> w1)"

definition create_run ::
    "('s \<Rightarrow> FreezeInfo \<Rightarrow> bool \<times> 's) \<Rightarrow> env \<Rightarrow> string \<Rightarrow> u64 \<Rightarrow> bool \<Rightarrow> string set \<Rightarrow> FreezeInfo list \<Rightarrow> env \<Rightarrow> bool
       \<Rightarrow> 's world \<Rightarrow> 's world" where
  "create_run unf e name ttl defer_unfreeze_s3 s3_tables guard e' tail_ok w =
     (let (retained, published_record, w1) = create_defer unf e name ttl defer_unfreeze_s3 s3_tables guard w
      in create_end unf e' name tail_ok retained published_record w1)"

section \<open>Releasing a list of freezes\<close>

lemma unfreeze_contractD:
  assumes "unfreeze_contract held unf" and "unf s i = (ok, s')"
  shows "held s' \<subseteq> held s" and "held s - {i} \<subseteq> held s'" and "ok \<Longrightarrow> i \<notin> held s'"
  using assms unfolding unfreeze_contract_def by (metis fst_conv snd_conv)+

lemma unfreeze_all_failed_subset:
  "set (fst (unfreeze_all_checked unf frozen s)) \<subseteq> set frozen"
proof (induction frozen arbitrary: s)
  case (Cons i frozen)
  then show ?case using Cons[of "snd (unf s i)"] by (auto simp: Let_def case_prod_unfold)
qed simp

lemma unfreeze_all_held:
  assumes "unfreeze_contract held unf" and "unfreeze_all_checked unf frozen s = (failed, s')"
  shows "held s' \<subseteq> held s" and "held s - set frozen \<subseteq> held s'"
    and "i \<in> set frozen \<Longrightarrow> i \<in> held s' \<Longrightarrow> i \<in> set failed"
proof -
  have "held s' \<subseteq> held s \<and> held s - set frozen \<subseteq> held s' \<and> set frozen \<inter> held s' \<subseteq> set failed"
    using assms(2)
  proof (induction frozen arbitrary: s failed)
    case (Cons j frozen)
    obtain ok s1 where u: "unf s j = (ok, s1)" by force
    obtain f2 where r: "unfreeze_all_checked unf frozen s1 = (f2, s')" and f: "failed = (if ok then f2 else j # f2)"
      using Cons.prems u by (auto simp: Let_def split: prod.splits)
    show ?case
      using Cons.IH[OF r] unfreeze_contractD[OF assms(1) u] f by auto
  qed simp
  then show "held s' \<subseteq> held s" and "held s - set frozen \<subseteq> held s'"
    and "i \<in> set frozen \<Longrightarrow> i \<in> held s' \<Longrightarrow> i \<in> set failed" by auto
qed

lemma unfreeze_all_ok:
  "\<forall>i\<in>set frozen. \<forall>s. fst (unf s i) \<Longrightarrow> fst (unfreeze_all_checked unf frozen s) = []"
  by (induction frozen arbitrary: s) (simp_all add: Let_def case_prod_unfold)

lemma take_matching_sets:
  "take_matching pred frozen = (taken, kept) \<Longrightarrow>
     set taken = {i \<in> set frozen. pred i} \<and> set kept = {i \<in> set frozen. \<not> pred i}"
  by (auto simp: take_matching_def)

section \<open>What an operation keeps of the recorded freezes\<close>

definition rec_in :: "(string \<times> recfile) list \<Rightarrow> string \<Rightarrow> DeferredFreezeRecord option" where
  "rec_in recs name = (case map_of recs name of Some (Rec r) \<Rightarrow> Some r | _ \<Rightarrow> None)"

definition recorded_in :: "(string \<times> recfile) list \<Rightarrow> string \<Rightarrow> FreezeInfo set" where
  "recorded_in recs name = (case rec_in recs name of Some r \<Rightarrow> set (dr_retained r) | None \<Rightarrow> {})"

abbreviation rec_of :: "'s world \<Rightarrow> string \<Rightarrow> DeferredFreezeRecord option" where
  "rec_of w \<equiv> rec_in (w_recs w)"

abbreviation recorded :: "'s world \<Rightarrow> string \<Rightarrow> FreezeInfo set" where
  "recorded w \<equiv> recorded_in (w_recs w)"

definition same_hold :: "DeferredFreezeRecord \<Rightarrow> DeferredFreezeRecord \<Rightarrow> bool" where
  "same_hold r r' \<longleftrightarrow> dr_created_at_secs r' = dr_created_at_secs r \<and> dr_ttl_secs r' = dr_ttl_secs r
     \<and> set (dr_retained r') \<subseteq> set (dr_retained r)"

text \<open>
  The order on worlds every operation respects, for the backups outside \<open>C\<close> and the freezes in
  \<open>I\<close>: no freeze reappears, one that is still held stays recorded, and a record keeps its clock.
\<close>

definition hold_le :: "('s \<Rightarrow> FreezeInfo set) \<Rightarrow> string set \<Rightarrow> FreezeInfo set \<Rightarrow> 's world \<Rightarrow> 's world \<Rightarrow> bool" where
  "hold_le held C I w w' \<longleftrightarrow>
     held (w_server w') \<inter> I \<subseteq> held (w_server w)
     \<and> (\<forall>b. \<forall>i\<in>I. i \<in> recorded w b \<longrightarrow> i \<in> held (w_server w') \<longrightarrow> i \<in> recorded w' b)
     \<and> (\<forall>b r'. b \<notin> C \<longrightarrow> rec_of w' b = Some r' \<longrightarrow> (\<exists>r. rec_of w b = Some r \<and> same_hold r r'))"

lemma hold_leD:
  assumes "hold_le held C I w w'"
  shows "i \<in> held (w_server w') \<Longrightarrow> i \<in> I \<Longrightarrow> i \<in> held (w_server w)"
    and "i \<in> recorded w b \<Longrightarrow> i \<in> I \<Longrightarrow> i \<in> held (w_server w') \<Longrightarrow> i \<in> recorded w' b"
    and "b \<notin> C \<Longrightarrow> rec_of w' b = Some r' \<Longrightarrow> \<exists>r. rec_of w b = Some r \<and> same_hold r r'"
  using assms unfolding hold_le_def by blast+

lemma same_hold_refl [simp]: "same_hold r r"
  by (simp add: same_hold_def)

lemma same_hold_trans: "same_hold r r' \<Longrightarrow> same_hold r' r'' \<Longrightarrow> same_hold r r''"
  by (auto simp: same_hold_def)

lemma hold_le_refl [simp]: "hold_le held C I w w"
  by (simp add: hold_le_def)

lemma hold_le_trans:
  assumes "hold_le held C I w w'" and "hold_le held C I w' w''"
  shows "hold_le held C I w w''"
  unfolding hold_le_def
proof (intro conjI allI ballI impI)
  show "held (w_server w'') \<inter> I \<subseteq> held (w_server w)"
    using hold_leD(1)[OF assms(1)] hold_leD(1)[OF assms(2)] by blast
next
  fix b i assume "i \<in> I" "i \<in> recorded w b" "i \<in> held (w_server w'')"
  then show "i \<in> recorded w'' b"
    using hold_leD(1)[OF assms(2)] hold_leD(2)[OF assms(1)] hold_leD(2)[OF assms(2)] by blast
next
  fix b r'' assume "b \<notin> C" "rec_of w'' b = Some r''"
  then show "\<exists>r. rec_of w b = Some r \<and> same_hold r r''"
    using hold_leD(3)[OF assms(2)] hold_leD(3)[OF assms(1)] by (blast intro: same_hold_trans)
qed

lemma rec_in_simps [simp]:
  "rec_in (AList.update n (Rec r) recs) b = (if b = n then Some r else rec_in recs b)"
  "rec_in (AList.delete n recs) b = (if b = n then None else rec_in recs b)"
  by (auto simp: rec_in_def update_conv' delete_conv')

lemma recorded_in_simps [simp]:
  "recorded_in (AList.update n (Rec r) recs) b = (if b = n then set (dr_retained r) else recorded_in recs b)"
  "recorded_in (AList.delete n recs) b = (if b = n then {} else recorded_in recs b)"
  by (auto simp: recorded_in_def)

lemma load_state_file_rec_of: "load_state_file w name = Inr (Some r) \<longleftrightarrow> rec_of w name = Some r"
  by (auto simp: load_state_file_def rec_in_def split: option.splits recfile.splits)

lemma load_state_file_None: "load_state_file w name = Inr None \<longleftrightarrow> \<not> record_exists w name"
  by (auto simp: load_state_file_def record_exists_def split: option.splits recfile.splits)

lemma record_exists_rec_of: "rec_of w name = Some r \<Longrightarrow> record_exists w name"
  by (auto simp: record_exists_def rec_in_def split: option.splits)

lemma hold_le_locks: "hold_le held C I w (w\<lparr>w_locks := d\<rparr>)"
  by (simp add: hold_le_def)

lemma hold_le_publish:
  assumes "rec_of w name = Some r" and "same_hold r r'" and "set (dr_retained r') = set (dr_retained r)"
  shows "hold_le held C I w (snd (publish e name r' w))"
  using assms by (auto simp: publish_def hold_le_def recorded_in_def)

lemma hold_le_load: "hold_le held C I w (snd (load e name w))"
proof (cases "load_state_file w name")
  case (Inr ro)
  show ?thesis
  proof (cases ro)
    case (Some r)
    have "hold_le held C I w (snd (publish e name (adopt e r) w))"
      using Inr Some by (intro hold_le_publish) (auto simp: load_state_file_rec_of adopt_def same_hold_def)
    then show ?thesis using Inr Some by (auto simp: load_def Let_def split: prod.splits)
  qed (use Inr in \<open>simp add: load_def\<close>)
qed (simp add: load_def)

lemma hold_le_demote: "hold_le held C I w (demote_on_operation_end e name w)"
proof (cases "load_state_file w name")
  case (Inr ro)
  show ?thesis
  proof (cases ro)
    case (Some r)
    have "hold_le held C I w (snd (publish e name (demote r) w))"
      using Inr Some by (intro hold_le_publish) (auto simp: load_state_file_rec_of demote_def same_hold_def)
    then show ?thesis using Inr Some by (auto simp: demote_on_operation_end_def)
  qed (use Inr in \<open>simp add: demote_on_operation_end_def\<close>)
qed (simp add: demote_on_operation_end_def)

lemma hold_le_release_entries:
  assumes "unfreeze_contract held unf" and r: "rec_of w name = Some r"
    and rel: "release_entries unf e name (dr_retained r) r w = (n, ok, w')"
  shows "hold_le held C I w w'"
proof -
  obtain failed s where u: "unfreeze_all_checked unf (dr_retained r) (w_server w) = (failed, s)" by force
  note held = unfreeze_all_held[OF assms(1) u]
  have sub: "set failed \<subseteq> set (dr_retained r)"
    using unfreeze_all_failed_subset[of unf "dr_retained r" "w_server w"] u by simp
  show ?thesis
  proof (cases "failed = []")
    case True
    have "w' = snd (delete_record e name (w\<lparr>w_server := s\<rparr>))"
      using rel u True by (simp add: release_entries_def Let_def case_prod_unfold)
    then have "w' = w\<lparr>w_server := s\<rparr> \<or> w' = w\<lparr>w_server := s, w_recs := AList.delete name (w_recs w)\<rparr>"
      by (simp add: delete_record_def)
    moreover have "i \<notin> held s" if "i \<in> recorded w name" for i
      using held(3)[of i] that r True by (auto simp: recorded_in_def)
    ultimately show ?thesis using held(1) by (elim disjE) (auto simp: hold_le_def split: if_splits)
  next
    case False
    have "w' = retain_failed e name failed r (w\<lparr>w_server := s\<rparr>)"
      using rel u False by (simp add: release_entries_def Let_def case_prod_unfold)
    then show ?thesis
      using held r sub by (auto simp: retain_failed_def publish_def hold_le_def recorded_in_def same_hold_def)
  qed
qed

lemma hold_le_release_now:
  assumes "unfreeze_contract held unf"
  shows "hold_le held C I w (snd (release_now unf e name w))"
proof (cases "load_state_file w name")
  case (Inr ro)
  show ?thesis
  proof (cases ro)
    case (Some r)
    then have "rec_of w name = Some r" using Inr by (simp add: load_state_file_rec_of)
    then show ?thesis
      using Inr Some hold_le_release_entries[OF assms] by (auto simp: release_now_def Let_def split: prod.splits)
  qed (use Inr in \<open>simp add: release_now_def\<close>)
qed (simp add: release_now_def)

lemma load_UsableD:
  assumes "load e name w = (Usable r, w')"
  obtains r0 where "rec_of w name = Some r0" and "dr_retained r = dr_retained r0" and "same_hold r0 r"
    and "w' = w \<and> r = r0 \<or> w' = snd (publish e name r w)"
  using assms
  by (auto simp: load_def Let_def load_state_file_rec_of adopt_def same_hold_def
      split: if_splits sum.splits option.splits prod.splits)

text \<open>When adoption could not be written, the file still holds the record with its former owner.\<close>

lemma load_Usable_rec_of:
  assumes "load e name w = (Usable r, w')"
  obtains r' where "rec_of w' name = Some r'" and "dr_retained r' = dr_retained r" and "same_hold r' r" and "same_hold r r'"
proof -
  obtain r0 where r0: "rec_of w name = Some r0" "dr_retained r = dr_retained r0" "same_hold r0 r"
    and w': "w' = w \<and> r = r0 \<or> w' = snd (publish e name r w)"
    using load_UsableD[OF assms] by blast
  have "same_hold r r0" using r0 by (simp add: same_hold_def)
  then show thesis using r0 w' that by (auto simp: publish_def split: if_splits)
qed

lemma release_entries_prior:
  assumes "dr_created_at_secs p = dr_created_at_secs q" and "dr_ttl_secs p = dr_ttl_secs q"
  shows "release_entries unf e name xs p w = release_entries unf e name xs q w"
  using assms by (simp add: release_entries_def retain_failed_def Let_def case_prod_unfold)

lemma hold_le_finalize:
  assumes "unfreeze_contract held unf"
  shows "hold_le held C I w (finalize_deferred_freeze unf e name upload_succeeded w)"
proof (cases "upload_succeeded \<and> (\<exists>r w1. load e name w = (Usable r, w1))")
  case True
  then obtain r w1 where l: "load e name w = (Usable r, w1)" by blast
  then obtain r' where r': "rec_of w1 name = Some r'" "dr_retained r' = dr_retained r" "same_hold r r'"
    by (rule load_Usable_rec_of)
  have w1: "hold_le held C I w w1" using hold_le_load[of held C I w e name] l by simp
  have "hold_le held C I w1 (snd (delete_record e name w1))" if "dr_retained r = []"
    using that r' by (auto simp: delete_record_def hold_le_def recorded_in_def)
  moreover have "hold_le held C I w1 (snd (snd (release_entries unf e name (dr_retained r) r w1)))"
  proof -
    have "release_entries unf e name (dr_retained r) r w1 = release_entries unf e name (dr_retained r') r' w1"
      using r' release_entries_prior[of r r'] by (simp add: same_hold_def)
    then show ?thesis
      using hold_le_release_entries[OF assms r'(1), where w' = "snd (snd (release_entries unf e name (dr_retained r') r' w1))"]
      by (metis prod.collapse)
  qed
  ultimately show ?thesis
    using True l hold_le_trans[OF w1] by (simp add: finalize_deferred_freeze_def)
next
  case False
  then show ?thesis
    using hold_le_load[of held C I w e name] hold_le_demote[of held C I w e name]
    by (auto simp: finalize_deferred_freeze_def split: prod.splits LoadOutcome.splits)
qed

subsection \<open>Reaping\<close>

lemma status_under_lock_eq:
  "status_under_lock e w name =
     (case load_state_file w name of
        Inl _ \<Rightarrow> Protected RecordUnreadable 0
      | Inr None \<Rightarrow> NotProtected
      | Inr (Some r) \<Rightarrow>
          if owner_is_live e r then Protected OwnerAlive (dr_owner_pid r)
          else if \<not> is_expired e r then Protected NotYetExpired (dr_owner_pid r)
          else Reapable r)"
  using load_state_file_None[of w name]
  by (auto simp: status_under_lock_def status_inner_def split: sum.splits option.splits)

lemma status_under_lock_locks [simp]:
  "status_under_lock e (w\<lparr>w_locks := d\<rparr>) name = status_under_lock e w name"
  by (simp add: status_under_lock_eq load_state_file_def)

lemma status_under_lock_Reapable:
  "status_under_lock e w name = Reapable r
     \<longleftrightarrow> rec_of w name = Some r \<and> \<not> owner_is_live e r \<and> is_expired e r"
  by (auto simp: status_under_lock_eq load_state_file_rec_of[symmetric] split: sum.splits option.splits if_splits)

lemma reap_locked_cases:
  obtains (skip) d where "reap_locked unf e info self_owned name w = (False, w\<lparr>w_locks := d\<rparr>)"
  | (release) d d' r n ok w1 where
      "rec_of w name = Some r" and "\<not> owner_is_live e r" and "is_expired e r"
      and "self_owned \<or> acquire_scoped (e_os e) alone (Backup name) info (w_locks w) = (Inr (), d)"
      and "release_entries unf e name (dr_retained r) r (w\<lparr>w_locks := d\<rparr>) = (n, ok, w1)"
      and "reap_locked unf e info self_owned name w = (n = 0, w1\<lparr>w_locks := d'\<rparr>)"
proof -
  obtain got d where gd: "reap_lock e info self_owned name (w_locks w) = (got, d)" by fastforce
  let ?w1 = "w\<lparr>w_locks := d\<rparr>"
  show thesis
  proof (cases "got \<and> (\<exists>r. status_under_lock e w name = Reapable r)")
    case True
    then obtain r where r: "status_under_lock e w name = Reapable r" by blast
    obtain n ok w2 where rel: "release_entries unf e name (dr_retained r) r ?w1 = (n, ok, w2)"
      by (cases "release_entries unf e name (dr_retained r) r ?w1") auto
    have acq: "self_owned \<or> acquire_scoped (e_os e) alone (Backup name) info (w_locks w) = (Inr (), d)"
      using gd True by (auto simp: reap_lock_def split: if_splits prod.splits sum.splits)
    have res: "reap_locked unf e info self_owned name w =
        (n = 0, w2\<lparr>w_locks := if self_owned then w_locks w2 else PidLock_drop (LOCK_PREFIX @ name @ LOCK_SUFFIX) (w_locks w2)\<rparr>)"
      using True r rel by (simp add: reap_locked_def gd)
    show thesis
      using release[OF _ _ _ acq rel res] r by (simp add: status_under_lock_Reapable)
  next
    case False
    then have "reap_locked unf e info self_owned name w =
        (False, if got \<and> \<not> self_owned then ?w1\<lparr>w_locks := PidLock_drop (LOCK_PREFIX @ name @ LOCK_SUFFIX) d\<rparr> else ?w1)"
      by (cases "status_under_lock e w name") (auto simp: reap_locked_def gd Let_def)
    then show thesis using skip by (auto split: if_splits)
  qed
qed

lemma hold_le_reap_locked:
  assumes "unfreeze_contract held unf"
  shows "hold_le held C I w (snd (reap_locked unf e info self_owned name w))"
proof (cases rule: reap_locked_cases[of unf e info self_owned name w])
  case (release d d' r n ok w1)
  have "hold_le held C I (w\<lparr>w_locks := d\<rparr>) w1"
    using hold_le_release_entries[OF assms _ release(5)] release(1) by simp
  then show ?thesis using release(6) by (simp add: hold_le_def)
qed (simp add: hold_le_locks)

subsection \<open>Create\<close>

text \<open>What \<^verbatim>\<open>create\<close> sets aside, for a backup without a record.\<close>

lemma create_defer_cases:
  assumes "create_defer unf e name ttl defer_unfreeze_s3 s3_tables guard w = (retained, published_record, w')"
  obtains (deferred) kept failed s where
      "published_record = Some (new_record e name retained ttl)" and "retained \<noteq> []"
      and "defer_unfreeze_s3" and "e_write e name"
      and "set retained = {i \<in> set guard. fi_database i @ ''.'' @ fi_table i \<in> s3_tables}"
      and "set kept = set guard - set retained"
      and "unfreeze_all_checked unf kept (w_server w) = (failed, s)"
      and "w' = w\<lparr>w_recs := AList.update name (Rec (new_record e name retained ttl)) (w_recs w), w_server := s\<rparr>"
  | (released) kept failed s where "published_record = None" and "retained = []" and "set kept = set guard"
      and "unfreeze_all_checked unf kept (w_server w) = (failed, s)" and "w' = w\<lparr>w_server := s\<rparr>"
      and "\<not> defer_unfreeze_s3 \<or> \<not> e_write e name \<or> (\<forall>i\<in>set guard. fi_database i @ ''.'' @ fi_table i \<notin> s3_tables)"
proof -
  obtain t k where tk: "(if defer_unfreeze_s3 \<and> s3_tables \<noteq> {}
             then take_matching (\<lambda>info. fi_database info @ ''.'' @ fi_table info \<in> s3_tables) guard
             else ([], guard)) = (t, k)" by fastforce
  have sets: "set k = set guard - set t" "set t \<subseteq> set guard"
    "t \<noteq> [] \<Longrightarrow> defer_unfreeze_s3 \<and> set t = {i \<in> set guard. fi_database i @ ''.'' @ fi_table i \<in> s3_tables}"
    "t = [] \<Longrightarrow> \<not> defer_unfreeze_s3 \<or> (\<forall>i\<in>set guard. fi_database i @ ''.'' @ fi_table i \<notin> s3_tables)"
    using tk by (auto simp: take_matching_def filter_empty_conv split: if_splits)
  show thesis
  proof (cases "t \<noteq> [] \<and> e_write e name")
    case True
    obtain f s where u: "unfreeze_all_checked unf k (w_server w) = (f, s)" by force
    have "retained = t \<and> published_record = Some (new_record e name t ttl)
        \<and> w' = w\<lparr>w_recs := AList.update name (Rec (new_record e name t ttl)) (w_recs w), w_server := s\<rparr>"
      using assms True u by (auto simp: create_defer_def tk publish_def Let_def)
    then show thesis using deferred[of k f s] True sets u by blast
  next
    case False
    define k' where "k' = (if t = [] then k else k @ t)"
    obtain f s where u: "unfreeze_all_checked unf k' (w_server w) = (f, s)" by force
    have "retained = [] \<and> published_record = None \<and> w' = w\<lparr>w_server := s\<rparr>"
      using assms False u by (auto simp: create_defer_def tk publish_def Let_def k'_def split: if_splits)
    moreover have "set k' = set guard" using sets by (auto simp: k'_def)
    ultimately show thesis using released[of k' f s] False sets u by blast
  qed
qed

lemma hold_le_server:
  "held s \<inter> I \<subseteq> held (w_server w) \<Longrightarrow> hold_le held C I w (w\<lparr>w_server := s\<rparr>)"
  by (simp add: hold_le_def)

lemma hold_le_create_end:
  assumes "unfreeze_contract held unf" and r: "rec_of w name = Some r"
  shows "hold_le held C I w (create_end unf e name tail_ok (dr_retained r) (Some r) w)"
proof (cases "tail_ok \<or> dr_retained r = []")
  case True
  then show ?thesis using hold_le_demote[of held C I w e name] by (auto simp: create_end_def)
next
  case False
  have "hold_le held C I w (snd (snd (release_entries unf e name (dr_retained r) r w)))"
    using hold_le_release_entries[OF assms] by (metis prod.collapse)
  then show ?thesis
    using False by (simp add: create_end_def release_entries_def Let_def case_prod_unfold split: if_splits)
qed

lemma hold_le_create_run:
  assumes con: "unfreeze_contract held unf" and "name \<in> C" and fresh: "rec_of w name = None"
  shows "hold_le held C I w (create_run unf e name ttl defer_unfreeze_s3 s3_tables guard e' tail_ok w)"
proof -
  obtain ret pub w1 where cd: "create_defer unf e name ttl defer_unfreeze_s3 s3_tables guard w = (ret, pub, w1)"
    by (metis prod.collapse)
  have run: "create_run unf e name ttl defer_unfreeze_s3 s3_tables guard e' tail_ok w = create_end unf e' name tail_ok ret pub w1"
    by (simp add: create_run_def cd)
  from cd show ?thesis
  proof (cases rule: create_defer_cases)
    case (deferred kept failed s)
    have s: "held s \<subseteq> held (w_server w)" using unfreeze_all_held(1)[OF con deferred(7)] .
    have w1: "hold_le held C I w w1"
      using s assms(2) fresh by (auto simp: deferred(8) hold_le_def recorded_in_def)
    have r1: "rec_of w1 name = Some (new_record e name ret ttl)" "dr_retained (new_record e name ret ttl) = ret"
      by (simp_all add: deferred(8) new_record_def)
    have "hold_le held C I w1 (create_end unf e' name tail_ok ret pub w1)"
      using hold_le_create_end[OF con r1(1)] r1(2) deferred(1) by metis
    then show ?thesis using run w1 hold_le_trans by metis
  next
    case (released kept failed s)
    have "create_end unf e' name tail_ok ret pub w1 = w\<lparr>w_server := s\<rparr>"
      using released by (simp add: create_end_def)
    then show ?thesis
      using run hold_le_server unfreeze_all_held(1)[OF con released(4)] by (metis le_infI1)
  qed
qed

section \<open>Any sequence of operations\<close>

text \<open>
  The steps of all processes: operations on records in any environment, the guarded deletion of local
  backups, changes of the lock directory, changes of the server that take no freeze of \<open>I\<close> again, and runs of \<^verbatim>\<open>create\<close> for
  the backups in \<open>C\<close>, which hold the lock of their backup and start without a record.
\<close>

inductive hold_step ::
    "('s \<Rightarrow> FreezeInfo set) \<Rightarrow> ('s \<Rightarrow> FreezeInfo \<Rightarrow> bool \<times> 's) \<Rightarrow> string set \<Rightarrow> FreezeInfo set \<Rightarrow> 's world \<Rightarrow> 's world \<Rightarrow> bool"
  for held unf C I where
  locks: "hold_step held unf C I w (w\<lparr>w_locks := d\<rparr>)"
| server: "held s \<inter> I \<subseteq> held (w_server w) \<Longrightarrow> hold_step held unf C I w (w\<lparr>w_server := s\<rparr>)"
| claim: "hold_step held unf C I w (snd (load e name w))"
| demote: "hold_step held unf C I w (demote_on_operation_end e name w)"
| release: "hold_step held unf C I w (snd (release_now unf e name w))"
| finalize: "hold_step held unf C I w (finalize_deferred_freeze unf e name upload_succeeded w)"
| reap: "hold_step held unf C I w (snd (reap_locked unf e info self_owned name w))"
| discard: "hold_step held unf C I w (snd (delete_local_record e name w))"
| create: "name \<in> C \<Longrightarrow> \<not> record_exists w name \<Longrightarrow>
    hold_step held unf C I w (create_run unf e name ttl defer_unfreeze_s3 s3_tables guard e' tail_ok w)"

lemma blocks_iff: "blocks_destructive_op e w name \<longleftrightarrow> record_exists w name"
  using load_state_file_None[of w name]
  by (auto simp: blocks_destructive_op_def protection_status_def status_inner_def split: sum.splits option.splits)

lemma delete_local_record_recs: "map_of (w_recs (snd (delete_local_record e name w))) = map_of (w_recs w)"
  by (auto simp: delete_local_record_def blocks_iff record_exists_def delete_conv' fun_eq_iff)

lemma hold_le_discard: "hold_le held C I w (snd (delete_local_record e name w))"
proof -
  have "rec_of (snd (delete_local_record e name w)) = rec_of w"
    unfolding rec_in_def delete_local_record_recs ..
  moreover have "w_server (snd (delete_local_record e name w)) = w_server w" by (simp add: delete_local_record_def)
  ultimately show ?thesis by (simp add: hold_le_def recorded_in_def)
qed

lemma hold_step_le:
  assumes "unfreeze_contract held unf" and "hold_step held unf C I w w'"
  shows "hold_le held C I w w'"
  using assms(2)
proof cases
  case (create name e ttl defer_unfreeze_s3 s3_tables guard e' tail_ok)
  then have "rec_of w name = None" by (simp add: record_exists_def rec_in_def)
  then show ?thesis using hold_le_create_run[OF assms(1)] create by metis
qed (use assms(1) in \<open>simp_all add: hold_le_locks hold_le_server hold_le_load hold_le_demote hold_le_release_now
       hold_le_finalize hold_le_reap_locked hold_le_discard\<close>)

lemma hold_steps_le:
  assumes "unfreeze_contract held unf" and "(hold_step held unf C I)\<^sup>*\<^sup>* w w'"
  shows "hold_le held C I w w'"
  using assms(2) by induction (auto intro: hold_le_trans hold_step_le[OF assms(1)])

section \<open>Properties\<close>

text \<open>
  C8. A recorded freeze is never lost: after any sequence of operations of any processes, a freeze
  that was recorded and that the server still holds is still recorded for the same backup.
\<close>

theorem deferred_freeze_never_lost:
  assumes "unfreeze_contract held unf" and "(hold_step held unf C I)\<^sup>*\<^sup>* w w'"
    and "i \<in> I" and "i \<in> recorded_in (w_recs w) b" and "i \<in> held (w_server w')"
  shows "i \<in> recorded_in (w_recs w') b"
  using hold_leD(2)[OF hold_steps_le[OF assms(1,2)] assms(4,3,5)] .

text \<open>The age of a record, as the clock and its creation time give it.\<close>

lemma is_expired_iff: "is_expired e r \<longleftrightarrow> unat (dr_created_at_secs r) + unat (dr_ttl_secs r) < unat (e_now e)"
proof (cases "e_now e < dr_created_at_secs r")
  case True
  then show ?thesis by (simp add: is_expired_def sat_sub_def word_less_nat_alt)
next
  case False
  then have "dr_created_at_secs r \<le> e_now e" by (simp add: not_less)
  then have "unat (e_now e - dr_created_at_secs r) = unat (e_now e) - unat (dr_created_at_secs r)"
    by (rule unat_sub)
  then show ?thesis using False by (auto simp: is_expired_def sat_sub_def word_less_nat_alt)
qed

lemma release_entries_all:
  assumes con: "unfreeze_contract held unf" and "\<forall>i\<in>set xs. \<forall>s. fst (unf s i)" and "e_remove e name"
    and "record_exists w name" and rel: "release_entries unf e name xs r w = (n, ok, w')"
  shows "n = 0" and "\<not> record_exists w' name" and "held (w_server w') \<inter> set xs = {}"
proof -
  obtain failed s where u: "unfreeze_all_checked unf xs (w_server w) = (failed, s)" by force
  have failed: "failed = []" using unfreeze_all_ok[OF assms(2), of "w_server w"] u by simp
  have ex: "record_exists (w\<lparr>w_server := s\<rparr>) name" using assms(4) by (simp add: record_exists_def)
  have w': "n = 0 \<and> w' = w\<lparr>w_server := s, w_recs := AList.delete name (w_recs w)\<rparr>"
    using rel u failed ex assms(3) by (auto simp: release_entries_def delete_record_def Let_def)
  show "n = 0" and "\<not> record_exists w' name" using w' by (simp_all add: record_exists_def delete_conv')
  show "held (w_server w') \<inter> set xs = {}" using w' failed unfreeze_all_held(3)[OF con u] by auto
qed

text \<open>
  C24. The hold is bounded by the time to live from its first publication, however often the record was
  adopted, demoted or rewritten since: once that time has passed and no process owns the record
  any more, a reap that gets the lock of the backup releases every freeze it records, provided the
  server accepts the statements and the file can be removed.
\<close>

theorem deferred_hold_bounded:
  assumes con: "unfreeze_contract held unf" and steps: "(hold_step held unf C I)\<^sup>*\<^sup>* w w'"
    and "b \<notin> C" and r: "rec_in (w_recs w) b = Some r" and r': "rec_in (w_recs w') b = Some r'"
    and "unat (dr_created_at_secs r) + unat (dr_ttl_secs r) < unat (e_now e)"
    and dead: "\<not> owner_is_live e r'"
    and lock: "own_lock = Some b \<or> \<not> backup_lock_is_active e w' b
                 \<and> fst (acquire_scoped (e_os e) alone (Backup b) info (w_locks w')) = Inr ()"
    and acc: "\<forall>i\<in>set (dr_retained r'). \<forall>s. fst (unf s i)" and rm: "e_remove e b"
  shows "let (released, w'') = reap_candidate unf e e (\<lambda>w. w) info own_lock b w'
         in released \<and> \<not> record_exists w'' b \<and> held (w_server w'') \<inter> recorded_in (w_recs w') b = {}"
proof -
  have "same_hold r r'"
    using hold_leD(3)[OF hold_steps_le[OF con steps] \<open>b \<notin> C\<close> r'] r by simp
  then have exp: "is_expired e r'" using assms(6) by (simp add: is_expired_iff same_hold_def)
  have st: "status_under_lock e w' b = Reapable r'" using r' dead exp by (simp add: status_under_lock_Reapable)
  have ex: "record_exists w' b" by (rule record_exists_rec_of[OF r'])
  have "load_state_file w' b = Inr (Some r')" using r' by (simp add: load_state_file_rec_of)
  then have "protection_status e w' b = Reapable r'" if "own_lock \<noteq> Some b"
    using ex dead exp lock that by (simp add: protection_status_def status_inner_def)
  then have cand: "reap_candidate unf e e (\<lambda>w. w) info own_lock b w' = reap_locked unf e info (own_lock = Some b) b w'"
    using ex st by (cases "own_lock = Some b") (simp_all add: reap_candidate_def)
  obtain d where got: "reap_lock e info (own_lock = Some b) b (w_locks w') = (True, d)"
    using lock
    by (cases "own_lock = Some b"; cases "acquire_scoped (e_os e) alone (Backup b) info (w_locks w')") (auto simp: reap_lock_def)
  obtain n ok w1 where rel: "release_entries unf e b (dr_retained r') r' (w'\<lparr>w_locks := d\<rparr>) = (n, ok, w1)"
    by (metis prod.collapse)
  have "record_exists (w'\<lparr>w_locks := d\<rparr>) b" using ex by (simp add: record_exists_def)
  note out = release_entries_all[OF con acc rm this rel]
  have "held (w_server w1) \<inter> recorded_in (w_recs w') b = {}" using out(3) r' by (simp add: recorded_in_def)
  then show ?thesis
    using out(1,2) by (simp add: cand reap_locked_def got st rel Let_def record_exists_def)
qed

text \<open>
  C25. Reaping releases nothing but expired, unowned freezes: whatever other processes do between the
  pre-check and the lock, a freeze that disappears was listed, when the lock was held, in a record
  of that backup whose owner is dead and whose time to live has passed.
\<close>

theorem reap_releases_only_expired:
  assumes con: "unfreeze_contract held unf"
    and "i \<in> held (w_server w)" and "i \<in> held (w_server (others w))"
    and "i \<notin> held (w_server (snd (reap_candidate unf e e' others info own_lock name w)))"
  shows "\<exists>r. rec_in (w_recs (others w)) name = Some r \<and> i \<in> set (dr_retained r)
           \<and> \<not> owner_is_live e' r
           \<and> unat (dr_created_at_secs r) + unat (dr_ttl_secs r) < unat (e_now e')
           \<and> (own_lock = Some name
              \<or> fst (acquire_scoped (e_os e') alone (Backup name) info (w_locks (others w))) = Inr ())"
proof -
  let ?w = "others w"
  have run: "i \<notin> held (w_server (snd (reap_locked unf e' info (own_lock = Some name) name ?w)))"
    using assms(2,4) by (auto simp: reap_candidate_def Let_def split: if_splits ProtectionStatus.splits)
  show ?thesis
  proof (cases rule: reap_locked_cases[of unf e' info "own_lock = Some name" name ?w])
    case (skip d)
    then show ?thesis using run assms(3) by simp
  next
    case (release d d' r n ok w1)
    obtain failed s where u: "unfreeze_all_checked unf (dr_retained r) (w_server ?w) = (failed, s)" by force
    have "w_server w1 = s"
      using release(5) u
      by (auto simp: release_entries_def delete_record_def retain_failed_def publish_def Let_def split: if_splits)
    then have "i \<notin> held s" using run release(6) by simp
    then have "i \<in> set (dr_retained r)" using unfreeze_all_held(2)[OF con u] assms(3) by auto
    then show ?thesis using release(1-4) by (auto simp: is_expired_iff)
  qed
qed

text \<open>
  Destroying the local data of a backup is refused exactly when a record file exists for it,
  readable or not, expired or not.
\<close>

theorem blocks_destructive_op_iff: "blocks_destructive_op e w name \<longleftrightarrow> record_exists w name"
  by (rule blocks_iff)

text \<open>
  Two processes do not both own a record: after one has claimed it, another process that can see
  the first one running is told that the record is owned, and when its upload ends it leaves the
  record and the freezes alone.
\<close>

theorem load_exclusive:
  assumes claim: "load e name w = (Usable r, w')" and wr: "e_write e name"
    and tok: "process_start_token (e_os e) (e_pid e) = Some t"
    and other: "e_pid e2 \<noteq> e_pid e" and alive: "is_pid_alive (e_os e2) (e_pid e)"
    and same: "process_start_token (e_os e2) (e_pid e) \<in> {Some t, None}"
  shows "load e2 name w' = (ForeignLive r, w') \<and> finalize_deferred_freeze unf e2 name True w' = w'"
proof -
  have r: "rec_of w' name = Some r \<and> dr_backup_name r = name \<and> dr_owner_pid r = e_pid e \<and> dr_owner_boot_token r = Some t"
    using claim wr tok
    by (auto simp: load_def Let_def load_state_file_rec_of publish_def adopt_def owned_by_current_process_def
        ownership_from_def split: if_splits sum.splits option.splits)
  have "owner_is_live e2 r" using r alive same by (auto simp: owner_is_live_def liveness_from_def)
  moreover have "\<not> owned_by_current_process e2 r"
    using r other by (simp add: owned_by_current_process_def ownership_from_def)
  moreover have "load_state_file w' name = Inr (Some r)" "record_exists w' name"
    using r record_exists_rec_of by (auto simp: load_state_file_rec_of)
  ultimately have "load e2 name w' = (ForeignLive r, w')" using r by (simp add: load_def)
  then show ?thesis by (simp add: finalize_deferred_freeze_def)
qed

lemma unfreeze_all_failed_reason:
  "i \<in> set (fst (unfreeze_all_checked unf frozen s)) \<Longrightarrow> \<exists>s. \<not> fst (unf s i)"
  by (induction frozen arbitrary: s) (auto simp: Let_def case_prod_unfold split: if_splits)

lemma demote_server [simp]: "w_server (demote_on_operation_end e name w) = w_server w"
  by (auto simp: demote_on_operation_end_def publish_def split: sum.splits option.splits)

text \<open>
  The record is written ahead. When \<^verbatim>\<open>create\<close> ends, a freeze it took and that the server still
  holds is recorded unless the server refused to release it, whether or not the record could be
  written and whether or not the rest of the command failed; and when the command succeeds with
  the record written, the freeze of every object-disk table is both held and recorded.
\<close>

lemma create_run_tracks:
  fixes e e' :: env and ttl :: u64 and defer_unfreeze_s3 tail_ok :: bool and s3_tables :: "string set"
  assumes con: "unfreeze_contract held unf" and fresh: "\<not> record_exists w name" and i: "i \<in> set guard"
  defines "w' \<equiv> create_run unf e name ttl defer_unfreeze_s3 s3_tables guard e' tail_ok w"
  shows "(i \<in> held (w_server w') \<longrightarrow> (\<forall>s. fst (unf s i)) \<longrightarrow> i \<in> recorded_in (w_recs w') name)
    \<and> (i \<in> held (w_server w) \<longrightarrow> defer_unfreeze_s3 \<longrightarrow> fi_database i @ ''.'' @ fi_table i \<in> s3_tables \<longrightarrow> e_write e name
           \<longrightarrow> tail_ok \<longrightarrow> i \<in> held (w_server w') \<and> i \<in> recorded_in (w_recs w') name)"
proof -
  obtain ret pub w1 where cd: "create_defer unf e name ttl defer_unfreeze_s3 s3_tables guard w = (ret, pub, w1)"
    by (metis prod.collapse)
  have w': "w' = create_end unf e' name tail_ok ret pub w1" by (simp add: w'_def create_run_def cd)
  show ?thesis
    using cd
  proof (cases rule: create_defer_cases)
    case (deferred kept failed s)
    let ?r = "new_record e name ret ttl"
    have r1: "rec_of w1 name = Some ?r" "dr_retained ?r = ret" "w_server w1 = s"
      by (simp_all add: deferred(8) new_record_def)
    have le: "hold_le held {} UNIV w1 w'"
      using hold_le_create_end[OF con r1(1)] r1(2) deferred(1) w' by metis
    have rec: "i \<in> recorded w' name" if h: "i \<in> set ret" "i \<in> held (w_server w')"
      using hold_leD(2)[OF le _ _ h(2)] r1 h(1) by (simp add: recorded_in_def)
    have "i \<in> recorded w' name" if h: "i \<in> held (w_server w')" and acc: "\<forall>s. fst (unf s i)"
    proof (cases "i \<in> set ret")
      case False
      have "i \<in> held s" using hold_leD(1)[OF le h] r1(3) by simp
      then have "i \<in> set failed" using False i deferred(6) unfreeze_all_held(3)[OF con deferred(7)] by blast
      then show ?thesis using acc unfreeze_all_failed_reason[of i unf kept "w_server w"] deferred(7) by auto
    qed (use rec h in blast)
    moreover have "i \<in> held (w_server w') \<and> i \<in> recorded w' name"
      if h: "i \<in> held (w_server w)" "fi_database i @ ''.'' @ fi_table i \<in> s3_tables" and tail_ok
    proof -
      have ret: "i \<in> set ret" using i h(2) deferred(5) by blast
      have "i \<in> held s" using unfreeze_all_held(2)[OF con deferred(7)] ret h(1) deferred(6) by blast
      moreover have "w_server w' = s" using w' \<open>tail_ok\<close> deferred(1) r1(3) by (simp add: create_end_def)
      ultimately show ?thesis using rec[OF ret] by simp
    qed
    ultimately show ?thesis by blast
  next
    case (released kept failed s)
    have "w' = w\<lparr>w_server := s\<rparr>" using released w' by (simp add: create_end_def)
    then show ?thesis
      using i released unfreeze_all_held(3)[OF con released(4), of i] unfreeze_all_failed_reason[of i unf kept "w_server w"]
      by auto
  qed
qed

lemma create_run_held:
  assumes con: "unfreeze_contract held unf"
  shows "held (w_server (create_run unf e name ttl defer_unfreeze_s3 s3_tables guard e' tail_ok w)) \<subseteq> held (w_server w)"
proof -
  obtain ret pub w1 where cd: "create_defer unf e name ttl defer_unfreeze_s3 s3_tables guard w = (ret, pub, w1)"
    by (metis prod.collapse)
  have "held (w_server w1) \<subseteq> held (w_server w)"
    using cd
  proof (cases rule: create_defer_cases)
    case (deferred kept failed s)
    then show ?thesis using unfreeze_all_held(1)[OF con deferred(7)] by simp
  next
    case (released kept failed s)
    then show ?thesis using unfreeze_all_held(1)[OF con released(4)] by simp
  qed
  moreover have "held (w_server (create_end unf e' name tail_ok ret pub w1)) \<subseteq> held (w_server w1)"
  proof -
    obtain failed s where u: "unfreeze_all_checked unf ret (w_server w1) = (failed, s)" by force
    show ?thesis
      using unfreeze_all_held(1)[OF con u] u
      by (auto simp: create_end_def Let_def delete_record_def retain_failed_def publish_def split: option.splits)
  qed
  ultimately show ?thesis by (simp add: create_run_def cd)
qed

lemma reap_candidate_server:
  assumes r: "rec_of w b = Some r" and "\<not> owner_is_live e r" and "is_expired e r"
    and "\<not> backup_lock_is_active e w b" and "fst (acquire_scoped (e_os e) alone (Backup b) info (w_locks w)) = Inr ()"
  shows "w_server (snd (reap_candidate unf e e (\<lambda>w. w) info None b w))
           = snd (unfreeze_all_checked unf (dr_retained r) (w_server w))"
proof -
  have lf: "load_state_file w b = Inr (Some r)" "record_exists w b"
    using r record_exists_rec_of[OF r] by (simp_all add: load_state_file_rec_of)
  obtain d where "acquire_scoped (e_os e) alone (Backup b) info (w_locks w) = (Inr (), d)" using assms(5) by (metis prod.collapse)
  moreover have "status_under_lock e w b = Reapable r" using assms by (simp add: status_under_lock_Reapable)
  moreover have "protection_status e w b = Reapable r"
    using lf assms(2-4) by (simp add: protection_status_def status_inner_def)
  ultimately show ?thesis
    using lf by (simp add: reap_candidate_def reap_locked_def reap_lock_def Let_def release_entries_def case_prod_unfold
        delete_record_def retain_failed_def publish_def)
qed

text \<open>
  Reaping does not check the name inside a record. A record file found in the directory of one
  backup that names another one is refused as corrupt by \<^verbatim>\<open>load\<close> and by \<^verbatim>\<open>release-deferred\<close>, but
  once expired it is reaped: its freezes, which belong to the other backup, are released under
  the lock of the directory's backup only.
\<close>

theorem reap_ignores_recorded_name:
  assumes r: "rec_in (w_recs w) b = Some r" and "dr_backup_name r \<noteq> b"
    and "\<not> owner_is_live e r" and "is_expired e r"
    and "\<not> backup_lock_is_active e w b" and "fst (acquire_scoped (e_os e) alone (Backup b) info (w_locks w)) = Inr ()"
  shows "fst (load e b w) = CorruptRecord \<and> fst (release_now unf e b w) = Inl WrongBackup
    \<and> w_server (snd (reap_candidate unf e e (\<lambda>w. w) info None b w))
           = snd (unfreeze_all_checked unf (dr_retained r) (w_server w))"
proof -
  have "load_state_file w b = Inr (Some r)" "record_exists w b"
    using r record_exists_rec_of[OF r] by (simp_all add: load_state_file_rec_of)
  then show ?thesis
    using assms(2) reap_candidate_server[OF r assms(3-6)] by (simp add: load_def release_now_def)
qed

subsection \<open>A server, a record and two processes\<close>

definition sample_unfreeze :: "FreezeInfo list \<Rightarrow> FreezeInfo \<Rightarrow> bool \<times> FreezeInfo list" where
  "sample_unfreeze s i = (True, removeAll i s)"

definition sample_freeze :: FreezeInfo where
  "sample_freeze = \<lparr>fi_database = ''db'', fi_table = ''t'', fi_freeze_name = ''chbackup_a_db_t''\<rparr>"

definition sample_rec :: DeferredFreezeRecord where
  "sample_rec = \<lparr>dr_backup_name = ''a'', dr_retained = [sample_freeze], dr_owner_pid = 0, dr_owner_boot_token = None,
     dr_created_at_secs = 1000, dr_ttl_secs = 60\<rparr>"

definition owner_env :: "u32 \<Rightarrow> u64 \<Rightarrow> env" where
  "owner_env pid now = \<lparr>e_os = kernel sample_procs, e_pid = pid, e_now = now, e_write = (\<lambda>_. True), e_remove = (\<lambda>_. True)\<rparr>"

definition sample_world :: "string \<Rightarrow> FreezeInfo list world" where
  "sample_world b = \<lparr>w_recs = [(b, Rec sample_rec)], w_locks = [(''chbackup.a.pid'', Info (sample_info 2 8))],
     w_server = [sample_freeze]\<rparr>"

lemma sample_contract: "unfreeze_contract set sample_unfreeze"
  by (auto simp: unfreeze_contract_def sample_unfreeze_def)

definition sample_claimed :: "FreezeInfo list world" where
  "sample_claimed = snd (load (owner_env 1 1010) ''a'' (sample_world ''a''))"

definition sample_demoted :: "FreezeInfo list world" where
  "sample_demoted = demote_on_operation_end (owner_env 1 1050) ''a'' sample_claimed"

lemmas sample_defs = sample_rec_def owner_env_def sample_world_def sample_info_def sample_procs_def

lemma sample_not_live: "\<not> owner_is_live (owner_env p t) sample_rec"
  by (simp add: owner_is_live_def liveness_from_def sample_defs)

lemma sample_rec_of: "rec_of (sample_world b) b = Some sample_rec"
  by (simp add: rec_in_def sample_world_def)

lemma sample_load:
  "load (owner_env 1 1010) ''a'' (sample_world ''a'') = (Usable (adopt (owner_env 1 1010) sample_rec), sample_claimed)"
  "sample_claimed = (sample_world ''a'')\<lparr>w_recs := [(''a'', Rec (adopt (owner_env 1 1010) sample_rec))]\<rparr>"
  "sample_demoted = sample_world ''a''"
proof -
  let ?r = "adopt (owner_env 1 1010) sample_rec"
  have "\<not> owned_by_current_process (owner_env 1 1010) sample_rec"
    by (simp add: owned_by_current_process_def ownership_from_def sample_defs)
  then have l: "load (owner_env 1 1010) ''a'' (sample_world ''a'') = (Usable ?r, (sample_world ''a'')\<lparr>w_recs := [(''a'', Rec ?r)]\<rparr>)"
    using sample_not_live[of 1 1010]
    by (simp add: load_def Let_def record_exists_def load_state_file_def publish_def sample_world_def sample_rec_def owner_env_def)
  then show c: "sample_claimed = (sample_world ''a'')\<lparr>w_recs := [(''a'', Rec ?r)]\<rparr>" by (simp add: sample_claimed_def)
  show "load (owner_env 1 1010) ''a'' (sample_world ''a'') = (Usable ?r, sample_claimed)" using l c by simp
  show "sample_demoted = sample_world ''a''"
    by (simp add: sample_demoted_def c demote_on_operation_end_def record_exists_def load_state_file_def publish_def
        adopt_def demote_def sample_world_def sample_rec_def owner_env_def)
qed

lemma sample_steps: "(hold_step set sample_unfreeze {} UNIV)\<^sup>*\<^sup>* (sample_world ''a'') sample_demoted"
  unfolding sample_demoted_def sample_claimed_def
  using hold_step.claim hold_step.demote by (metis (no_types) r_into_rtranclp rtranclp.rtrancl_into_rtrancl)

theorem deferred_freeze_never_lost_witness:
  "sample_freeze \<in> recorded_in (w_recs sample_demoted) ''a''"
proof (rule deferred_freeze_never_lost[OF sample_contract sample_steps, of sample_freeze])
  show "sample_freeze \<in> recorded_in (w_recs (sample_world ''a'')) ''a''"
    by (simp add: recorded_in_def sample_rec_of) (simp add: sample_rec_def)
  show "sample_freeze \<in> set (w_server sample_demoted)" by (simp add: sample_load(3) sample_world_def)
qed simp

theorem deferred_hold_bounded_witness:
  "fst (reap_candidate sample_unfreeze (owner_env 1 1100) (owner_env 1 1100) (\<lambda>w. w) (sample_info 1 7) (Some ''a'') ''a''
     sample_demoted)"
proof -
  have "rec_in (w_recs sample_demoted) ''a'' = Some sample_rec" by (simp add: sample_load(3) sample_rec_of)
  moreover have "unat (dr_created_at_secs sample_rec) + unat (dr_ttl_secs sample_rec) < unat (e_now (owner_env 1 1100))"
    by (simp add: sample_rec_def owner_env_def)
  ultimately show ?thesis
    using sample_not_live[of 1 1100] sample_rec_of[of "''a''"]
    using deferred_hold_bounded[OF sample_contract sample_steps, of "''a''" sample_rec sample_rec "owner_env 1 1100"
        "Some ''a''" "sample_info 1 7"]
    by (simp add: sample_unfreeze_def owner_env_def case_prod_unfold Let_def)
qed

lemma sample_reapable:
  "\<not> backup_lock_is_active (owner_env 1 1100) (sample_world ''b'') ''b''"
  "fst (acquire_scoped (e_os (owner_env 1 1100)) alone (Backup ''b'') (sample_info 1 7) (w_locks (sample_world ''b''))) = Inr ()"
  by code_simp+

lemma sample_expired: "is_expired (owner_env 1 1100) sample_rec"
  by (simp add: is_expired_iff sample_rec_def owner_env_def)

lemmas sample_candidate = sample_not_live sample_expired sample_reapable

lemma sample_released: "snd (unfreeze_all_checked sample_unfreeze (dr_retained sample_rec) (w_server (sample_world ''b''))) = []"
  by (simp add: sample_rec_def sample_world_def sample_unfreeze_def)

theorem reap_releases_only_expired_witness:
  "\<not> owner_is_live (owner_env 1 1100) sample_rec \<and> 1000 + 60 < unat (e_now (owner_env 1 1100))"
proof -
  let ?w = "sample_world ''b''" and ?e = "owner_env 1 1100"
  have "sample_freeze \<in> set (w_server ?w)" by (simp add: sample_world_def)
  moreover have "w_server (snd (reap_candidate sample_unfreeze ?e ?e (\<lambda>w. w) (sample_info 1 7) None ''b'' ?w)) = []"
    using reap_candidate_server[OF sample_rec_of sample_candidate] sample_released by metis
  ultimately show ?thesis
    using reap_releases_only_expired[OF sample_contract, of sample_freeze ?w "\<lambda>w. w" ?e ?e "sample_info 1 7" None "''b''"]
      sample_rec_of[of "''b''"]
    by (auto simp: sample_rec_def)
qed

theorem load_exclusive_witness:
  "load (owner_env 2 1020) ''a'' sample_claimed = (ForeignLive (adopt (owner_env 1 1010) sample_rec), sample_claimed)"
proof -
  have "process_start_token (e_os (owner_env 1 1010)) (e_pid (owner_env 1 1010)) = Some (nat_to_string 7)"
    by (simp add: owner_env_def sample_procs_def)
  moreover have "is_pid_alive (e_os (owner_env 2 1020)) (e_pid (owner_env 1 1010))"
    by (simp add: owner_env_def sample_procs_def)
  moreover have "process_start_token (e_os (owner_env 2 1020)) (e_pid (owner_env 1 1010)) \<in> {Some (nat_to_string 7), None}"
    by (simp add: owner_env_def sample_procs_def)
  moreover have "e_pid (owner_env 2 1020) \<noteq> e_pid (owner_env 1 1010)" "e_write (owner_env 1 1010) ''a''"
    by (simp_all add: owner_env_def)
  ultimately show ?thesis using load_exclusive[OF sample_load(1), of "nat_to_string 7" "owner_env 2 1020"] by blast
qed

theorem reap_ignores_recorded_name_witness:
  "is_lock_file_active (kernel sample_procs) (w_locks (sample_world ''b'')) ''chbackup.a.pid''
   \<and> w_server (snd (reap_candidate sample_unfreeze (owner_env 1 1100) (owner_env 1 1100) (\<lambda>w. w) (sample_info 1 7) None ''b''
       (sample_world ''b''))) = []"
proof -
  have "dr_backup_name sample_rec \<noteq> ''b''" by (simp add: sample_rec_def)
  moreover have "is_lock_file_active (kernel sample_procs) (w_locks (sample_world ''b'')) ''chbackup.a.pid''"
    by (simp add: is_lock_file_active_def sample_world_def sample_info_def sample_procs_def)
  ultimately show ?thesis
    using reap_ignores_recorded_name[OF sample_rec_of _ sample_candidate] sample_released by metis
qed

end
