(* ===== verification/Collect.thy ===== *)
theory Collect
  imports Path_Encoding Table_Filter Object_Disk S3_Client Diff
begin

text \<open>
  Model of \<^verbatim>\<open>src/backup/collect.rs\<close>: after a FREEZE, every disk's shadow directory is walked,
  each part found is attributed to its table, checksummed, compared with the base of an
  incremental backup and staged into the backup directory.

  A directory tree is a \<open>node\<close>; a file that is not UTF-8 text is \<open>Bin\<close> with its length. The shadow
  trees are a function of disk path and freeze name, and the staging area is a map from paths to
  files. The CRC-64 and the glob library are parameters, and \<open>link_err\<close> tells for which target
  paths neither the hard link nor its fallbacks succeed. Names that are not UTF-8 are outside the
  model. Sums of sizes wrap at 64 bits, as in a release build.
\<close>

section \<open>Definitions\<close>

datatype node = File string | Bin nat | Dir "(string \<times> node) list"

record TableRow =
  tr_database :: string
  tr_name :: string
  tr_engine :: string
  tr_create_table_query :: string
  tr_uuid :: string
  tr_data_paths :: "string list"
  tr_total_bytes :: "u64 option"

type_synonym BasePartsMap = "string \<times> string \<times> string \<Rightarrow> (u64 \<times> u64) option"

subsection \<open>Paths\<close>

text \<open>\<^verbatim>\<open>PathBuf::join\<close>.\<close>

definition path_join :: "string \<Rightarrow> string \<Rightarrow> string" where
  "path_join a b =
     (if starts_with b ''/'' \<or> a = [] then b
      else if ends_with a ''/'' then a @ b
      else a @ ''/'' @ b)"

definition per_disk_backup_dir :: "string \<Rightarrow> string \<Rightarrow> string" where
  "per_disk_backup_dir disk_path backup_name = path_join (path_join disk_path ''backup'') backup_name"

definition shadow_suffix :: "string \<Rightarrow> string \<Rightarrow> string \<Rightarrow> string" where
  "shadow_suffix db table part_name = path_join (path_join (path_join ''shadow'' db) table) part_name"

definition resolve_shadow_part_path ::
    "(string \<Rightarrow> bool) \<Rightarrow> string \<Rightarrow> string btree_map \<Rightarrow> string \<Rightarrow> string \<Rightarrow> string \<Rightarrow> string \<Rightarrow> string \<Rightarrow> string \<Rightarrow> string
       \<Rightarrow> string option" where
  "resolve_shadow_part_path exists backup_dir manifest_disks backup_name disk_name encoded_db encoded_table
       plain_db plain_table part_name =
     (let encoded_suffix = shadow_suffix encoded_db encoded_table part_name;
          legacy_encoded = path_join backup_dir encoded_suffix;
          legacy_plain = path_join backup_dir (shadow_suffix plain_db plain_table part_name);
          legacy = (if exists legacy_encoded then Some legacy_encoded
                    else if (plain_db \<noteq> encoded_db \<or> plain_table \<noteq> encoded_table) \<and> exists legacy_plain
                    then Some legacy_plain else None)
      in case map_of manifest_disks disk_name of
           Some disk_path \<Rightarrow>
             (let candidate = path_join (per_disk_backup_dir (trim_end_char CHR ''/'' disk_path) backup_name) encoded_suffix
              in if exists candidate then Some candidate else legacy)
         | None \<Rightarrow> legacy)"

definition parse_part_name :: "string \<Rightarrow> (string \<times> u64 \<times> u64 \<times> u64) option" where
  "parse_part_name name =
     (case rsplitn 4 CHR ''_'' name of
        [lv, mx, mn, part] \<Rightarrow>
          (case (parse_u64 lv, parse_u64 mx, parse_u64 mn) of
             (Some level, Some max_block, Some min_block) \<Rightarrow> Some (part, min_block, max_block, level)
           | _ \<Rightarrow> None)
      | _ \<Rightarrow> None)"

subsection \<open>From UUID directories to tables\<close>

definition is_data_engine :: "string \<Rightarrow> bool" where
  "is_data_engine engine \<longleftrightarrow>
     ends_with engine ''MergeTree'' \<or> engine = ''MaterializedMySQL'' \<or> engine = ''MaterializedPostgreSQL''"

type_synonym uuid_map = "string \<Rightarrow> (string \<times> string \<times> bool) option"

definition insert_with_priority :: "string \<Rightarrow> string \<Rightarrow> string \<Rightarrow> bool \<Rightarrow> uuid_map \<Rightarrow> uuid_map" where
  "insert_with_priority key database table is_data m =
     (case m key of
        None \<Rightarrow> m(key \<mapsto> (database, table, is_data))
      | Some (_, _, existing_is_data) \<Rightarrow>
          if is_data \<and> \<not> existing_is_data then m(key \<mapsto> (database, table, is_data)) else m)"

definition NIL_UUID :: string where "NIL_UUID = ''00000000-0000-0000-0000-000000000000''"

text \<open>The keys of one table: the last component of each data path, then its UUID.\<close>

definition uuid_keys :: "TableRow \<Rightarrow> string list" where
  "uuid_keys t =
     map (\<lambda>data_path. last (split_on CHR ''/'' (trim_end_char CHR ''/'' data_path))) (tr_data_paths t)
     @ (if tr_uuid t \<noteq> [] \<and> tr_uuid t \<noteq> NIL_UUID then [tr_uuid t] else [])"

definition build_uuid_map :: "TableRow list \<Rightarrow> string \<Rightarrow> (string \<times> string) option" where
  "build_uuid_map tables =
     (\<lambda>k. map_option (\<lambda>(db, tbl, _). (db, tbl))
       (fold (\<lambda>t m. fold (\<lambda>key. insert_with_priority key (tr_database t) (tr_name t) (is_data_engine (tr_engine t)))
                (uuid_keys t) m)
          tables Map.empty k))"

subsection \<open>Disks to walk\<close>

definition dedup_disk ::
    "string set \<Rightarrow> string \<times> string \<Rightarrow> (string \<times> bool) btree_map \<Rightarrow> (string \<times> bool) btree_map" where
  "dedup_disk cache_disk_names = (\<lambda>(disk_name, disk_path) path_to_disk.
     let normalized = trim_end_char CHR ''/'' disk_path; is_cache = (disk_name \<in> cache_disk_names)
     in case map_of path_to_disk normalized of
          None \<Rightarrow> btree_insert normalized (disk_name, is_cache) path_to_disk
        | Some (_, existing_is_cache) \<Rightarrow>
            if existing_is_cache \<and> \<not> is_cache then btree_insert normalized (disk_name, is_cache) path_to_disk
            else path_to_disk)"

definition paths_to_walk :: "string set \<Rightarrow> string btree_map \<Rightarrow> string \<Rightarrow> (string \<times> string) list" where
  "paths_to_walk cache_disk_names disk_paths data_path =
     (let paths = map (\<lambda>(path, name, _). (name, path)) (fold (dedup_disk cache_disk_names) disk_paths [])
      in if list_ex (\<lambda>(_, p). trim_end_char CHR ''/'' p = trim_end_char CHR ''/'' data_path) paths then paths
         else paths @ [(''default'', data_path)])"

subsection \<open>Files of a part\<close>

definition node_len :: "node \<Rightarrow> u64" where
  "node_len n = (case n of File s \<Rightarrow> of_nat (length s) | Bin k \<Rightarrow> of_nat k | Dir _ \<Rightarrow> 0)"

fun dir_size :: "node \<Rightarrow> u64"
  and dir_sizes :: "(string \<times> node) list \<Rightarrow> u64" where
  "dir_size (Dir es) = dir_sizes es"
| "dir_size n = node_len n"
| "dir_sizes [] = 0"
| "dir_sizes ((_, n) # es) = dir_size n + dir_sizes es"

definition should_skip_projection :: "(string \<Rightarrow> 'p option) \<Rightarrow> ('p \<Rightarrow> string \<Rightarrow> bool) \<Rightarrow> string \<Rightarrow> string list \<Rightarrow> bool" where
  "should_skip_projection glob_new glob_matches stem skip_patterns =
     list_ex (\<lambda>pattern. pattern = ''*'' \<or>
        (case glob_new pattern of Some g \<Rightarrow> glob_matches g stem | None \<Rightarrow> False)) skip_patterns"

datatype collect_error = LinkFailed string | UnreadableFile | NotADirectory

type_synonym staging = "string \<Rightarrow> node option"

text \<open>
  The projection a directory is skipped for, if any; \<open>skip\<close> is \<open>should_skip_projection\<close> with the
  configured patterns, and nothing is skipped when there are none.
\<close>

definition skipped_stem :: "(string \<Rightarrow> bool) \<Rightarrow> string \<Rightarrow> string option" where
  "skipped_stem skip dir_name =
     (case strip_suffix ''.proj'' dir_name of
        Some stem \<Rightarrow> if skip stem then Some stem else None
      | None \<Rightarrow> None)"

text \<open>
  \<^verbatim>\<open>hardlink_dir\<close>: every file is linked or copied to the target, replacing a file that is there,
  and skipped projections are recorded.
\<close>

fun hardlink_dir :: "(string \<Rightarrow> bool) \<Rightarrow> (string \<Rightarrow> bool) \<Rightarrow> string \<Rightarrow> node \<Rightarrow> string \<Rightarrow> staging \<times> string set
       \<Rightarrow> collect_error + staging \<times> string set"
  and hardlink_entries :: "(string \<Rightarrow> bool) \<Rightarrow> (string \<Rightarrow> bool) \<Rightarrow> (string \<times> node) list \<Rightarrow> string \<Rightarrow> staging \<times> string set
       \<Rightarrow> collect_error + staging \<times> string set" where
  "hardlink_dir skip link_err name (Dir es) dst (fs, stripped) =
     (case skipped_stem skip name of
        Some stem \<Rightarrow> Inr (fs, insert stem stripped)
      | None \<Rightarrow> hardlink_entries skip link_err es dst (fs, stripped))"
| "hardlink_dir skip link_err name n dst (fs, stripped) =
     (if link_err dst then Inl (LinkFailed dst) else Inr (fs(dst \<mapsto> n), stripped))"
| "hardlink_entries skip link_err [] dst st = Inr st"
| "hardlink_entries skip link_err ((name, n) # es) dst st =
     (case hardlink_dir skip link_err name n (path_join dst name) st of
        Inl e \<Rightarrow> Inl e
      | Inr st' \<Rightarrow> hardlink_entries skip link_err es dst st')"

text \<open>One file of a part directory on an object disk: its object references, if it has any.\<close>

definition s3_file_objects :: "string \<Rightarrow> node \<Rightarrow> collect_error + S3ObjectInfo list" where
  "s3_file_objects source_key_prefix n =
     (case n of
        Dir _ \<Rightarrow> Inr []
      | Bin _ \<Rightarrow> Inl UnreadableFile
      | File content \<Rightarrow>
          (case parse_metadata content of
             Inr metadata \<Rightarrow>
               Inr (map (\<lambda>o'. \<lparr>so_path = disk_relative_key (or_relative_path o') source_key_prefix,
                              so_size = or_size o', so_backup_key = []\<rparr>) (om_objects metadata))
           | Inl _ \<Rightarrow> Inr []))"

definition collect_s3_part_metadata :: "node \<Rightarrow> string \<Rightarrow> collect_error + S3ObjectInfo list \<times> u64" where
  "collect_s3_part_metadata part_dir source_key_prefix =
     (case part_dir of
        Dir es \<Rightarrow>
          (case traverse (s3_file_objects source_key_prefix) (map snd es) of
             Inl e \<Rightarrow> Inl e
           | Inr oss \<Rightarrow> Inr (concat oss, sum_list (map so_size (concat oss))))
      | _ \<Rightarrow> Inl NotADirectory)"

subsection \<open>One part\<close>

record CollectedPart =
  cp_database :: string
  cp_table :: string
  cp_part_info :: PartInfo
  cp_disk_name :: string

record collected =
  co_result :: "string \<Rightarrow> CollectedPart list"
  co_stripped :: "string set"
  co_staged :: staging

text \<open>What the walk knows of the configuration, the disk and the base of the backup.\<close>

record 'p collect_env =
  ce_uni :: "nat \<Rightarrow> bool"
  ce_crc :: "node \<Rightarrow> u64"
  ce_link_err :: "string \<Rightarrow> bool"
  ce_glob_new :: "string \<Rightarrow> 'p option"
  ce_glob_matches :: "'p \<Rightarrow> string \<Rightarrow> bool"
  ce_skip_projections :: "string list"
  ce_base_parts :: "BasePartsMap option"
  ce_backup_name :: string

record disk_walk =
  dw_disk_name :: string
  dw_disk_path :: string
  dw_is_s3 :: bool
  dw_key_prefix :: string

definition skip_of :: "'p collect_env \<Rightarrow> string \<Rightarrow> bool" where
  "skip_of env stem =
     should_skip_projection (ce_glob_new env) (ce_glob_matches env) stem (ce_skip_projections env)"

definition staging_dir :: "'p collect_env \<Rightarrow> string \<Rightarrow> string \<Rightarrow> string \<Rightarrow> string \<Rightarrow> string" where
  "staging_dir env disk_path db table part_name =
     path_join (per_disk_backup_dir (trim_end_char CHR ''/'' disk_path) (ce_backup_name env))
       (shadow_suffix (encode_component (ce_uni env) db) (encode_component (ce_uni env) table) part_name)"

definition carried_from_base :: "BasePartsMap option \<Rightarrow> string \<Rightarrow> string \<Rightarrow> string \<Rightarrow> u64 \<Rightarrow> u64 option" where
  "carried_from_base base_parts full_table_name disk_name part_name crc64 =
     (case base_parts of
        None \<Rightarrow> None
      | Some bp \<Rightarrow>
          (case bp (full_table_name, disk_name, part_name) of
             Some (base_crc, base_size) \<Rightarrow> if base_crc = crc64 then Some base_size else None
           | None \<Rightarrow> None))"

definition push_part :: "string \<Rightarrow> CollectedPart \<Rightarrow> collected \<Rightarrow> collected" where
  "push_part key p st = st\<lparr>co_result := (co_result st)(key := co_result st key @ [p])\<rparr>"

definition stage_part :: "'p collect_env \<Rightarrow> string \<Rightarrow> string \<Rightarrow> string \<Rightarrow> string \<Rightarrow> node \<Rightarrow> collected \<Rightarrow> collect_error + collected" where
  "stage_part env disk_path db table part_name part_dir st =
     (case hardlink_dir (skip_of env) (ce_link_err env) part_name part_dir (staging_dir env disk_path db table part_name)
            (co_staged st, co_stripped st) of
        Inl e \<Rightarrow> Inl e
      | Inr (fs, stripped) \<Rightarrow> Inr (st\<lparr>co_staged := fs, co_stripped := stripped\<rparr>))"

text \<open>A new part with its checksum: carried parts are not staged.\<close>

definition collect_part ::
    "'p collect_env \<Rightarrow> disk_walk \<Rightarrow> string \<Rightarrow> string \<Rightarrow> string \<Rightarrow> node \<Rightarrow> u64 \<Rightarrow> collected \<Rightarrow> collect_error + collected" where
  "collect_part env dw db table part_name part_dir crc64 st =
     (let full_table_name = db @ ''.'' @ table;
          disk_name = dw_disk_name dw;
          push = (\<lambda>info. push_part full_table_name
                    \<lparr>cp_database = db, cp_table = table, cp_part_info = info, cp_disk_name = disk_name\<rparr>)
      in case carried_from_base (ce_base_parts env) full_table_name disk_name part_name crc64 of
           Some base_size \<Rightarrow>
             if dw_is_s3 dw
             then (case collect_s3_part_metadata part_dir (dw_key_prefix dw) of
                     Inl e \<Rightarrow> Inl e
                   | Inr (s3_objects, _) \<Rightarrow> Inr (push (with_s3_objects (PartInfo_new part_name base_size crc64) s3_objects) st))
             else Inr (push (PartInfo_new part_name base_size crc64) st)
         | None \<Rightarrow>
             if dw_is_s3 dw
             then (case collect_s3_part_metadata part_dir (dw_key_prefix dw) of
                     Inl e \<Rightarrow> Inl e
                   | Inr (s3_objects, part_size) \<Rightarrow>
                       (case stage_part env (dw_disk_path dw) db table part_name part_dir st of
                          Inl e \<Rightarrow> Inl e
                        | Inr st' \<Rightarrow> Inr (push (with_s3_objects (PartInfo_new part_name part_size crc64) s3_objects) st')))
             else (case stage_part env (dw_disk_path dw) db table part_name part_dir st of
                     Inl e \<Rightarrow> Inl e
                   | Inr st' \<Rightarrow> Inr (push (PartInfo_new part_name (dir_size part_dir) crc64) st')))"

definition process_shadow_part ::
    "'p collect_env \<Rightarrow> disk_walk \<Rightarrow> string \<Rightarrow> string \<Rightarrow> string \<times> node \<Rightarrow> collected \<Rightarrow> collect_error + collected" where
  "process_shadow_part env dw db table = (\<lambda>(part_name, part_dir) st.
     case (case part_dir of Dir es \<Rightarrow> map_of es ''checksums.txt'' | _ \<Rightarrow> None) of
       None \<Rightarrow> Inr st
     | Some checksums \<Rightarrow>
         if list_ex (\<lambda>p. cp_disk_name p = dw_disk_name dw \<and> pi_name (cp_part_info p) = part_name)
              (co_result st (db @ ''.'' @ table))
         then Inr st
         else (case checksums of
                 Dir _ \<Rightarrow> Inl UnreadableFile
               | _ \<Rightarrow> collect_part env dw db table part_name part_dir (ce_crc env checksums) st))"

subsection \<open>The walk\<close>

definition subdirs :: "node \<Rightarrow> (string \<times> node) list" where
  "subdirs n = (case n of Dir es \<Rightarrow> filter (\<lambda>(_, c). case c of Dir _ \<Rightarrow> True | _ \<Rightarrow> False) es | _ \<Rightarrow> [])"

text \<open>The part directories of the two layouts, with the table each belongs to.\<close>

definition store_parts :: "(string \<Rightarrow> (string \<times> string) option) \<Rightarrow> node \<Rightarrow> (string \<times> string \<times> string \<times> node) list" where
  "store_parts uuid_map store =
     concat (map (\<lambda>(_, prefix_dir).
       concat (map (\<lambda>(uuid_dir_name, uuid_dir).
         case uuid_map uuid_dir_name of
           None \<Rightarrow> []
         | Some (db, table) \<Rightarrow> map (\<lambda>(part, d). (db, table, part, d)) (subdirs uuid_dir)) (subdirs prefix_dir)))
       (subdirs store))"

definition data_parts :: "node \<Rightarrow> (string \<times> string \<times> string \<times> node) list" where
  "data_parts data =
     concat (map (\<lambda>(db_name, db_dir).
       concat (map (\<lambda>(table_name, table_dir). map (\<lambda>(part, d). (db_name, table_name, part, d)) (subdirs table_dir))
         (subdirs db_dir)))
       (subdirs data))"

fun process_parts :: "'p collect_env \<Rightarrow> disk_walk \<Rightarrow> (string \<times> string \<times> string \<times> node) list \<Rightarrow> collected \<Rightarrow> collect_error + collected" where
  "process_parts env dw [] st = Inr st"
| "process_parts env dw ((db, table, part) # rest) st =
     (case process_shadow_part env dw db table part st of
        Inl e \<Rightarrow> Inl e
      | Inr st' \<Rightarrow> process_parts env dw rest st')"

text \<open>\<^verbatim>\<open>read_dir\<close> of a path that exists.\<close>

definition layout_parts :: "(node \<Rightarrow> (string \<times> string \<times> string \<times> node) list) \<Rightarrow> string \<Rightarrow> node
       \<Rightarrow> collect_error + (string \<times> string \<times> string \<times> node) list" where
  "layout_parts parts name shadow =
     (case (case shadow of Dir es \<Rightarrow> map_of es name | _ \<Rightarrow> None) of
        None \<Rightarrow> Inr []
      | Some (Dir es) \<Rightarrow> Inr (parts (Dir es))
      | Some _ \<Rightarrow> Inl NotADirectory)"

definition collect_disk ::
    "'p collect_env \<Rightarrow> (string \<Rightarrow> (string \<times> string) option) \<Rightarrow> disk_walk \<Rightarrow> node \<Rightarrow> collected \<Rightarrow> collect_error + collected" where
  "collect_disk env uuid_map dw shadow st =
     (case layout_parts (store_parts uuid_map) ''store'' shadow of
        Inl e \<Rightarrow> Inl e
      | Inr ps \<Rightarrow>
          (case process_parts env dw ps st of
             Inl e \<Rightarrow> Inl e
           | Inr st1 \<Rightarrow>
               (case layout_parts data_parts ''data'' shadow of
                  Inl e \<Rightarrow> Inl e
                | Inr ps' \<Rightarrow> process_parts env dw ps' st1)))"

fun collect_disks ::
    "'p collect_env \<Rightarrow> (string \<Rightarrow> (string \<times> string) option) \<Rightarrow> (disk_walk \<Rightarrow> node option) \<Rightarrow> disk_walk list \<Rightarrow> collected
       \<Rightarrow> collect_error + collected" where
  "collect_disks env uuid_map shadow [] st = Inr st"
| "collect_disks env uuid_map shadow (dw # dws) st =
     (case shadow dw of
        None \<Rightarrow> collect_disks env uuid_map shadow dws st
      | Some sh \<Rightarrow>
          (case collect_disk env uuid_map dw sh st of
             Inl e \<Rightarrow> Inl e
           | Inr st' \<Rightarrow> collect_disks env uuid_map shadow dws st'))"

text \<open>The disks walked: those not excluded by name or type.\<close>

definition disk_walks ::
    "string set \<Rightarrow> string btree_map \<Rightarrow> string \<Rightarrow> string btree_map \<Rightarrow> string btree_map \<Rightarrow> string list \<Rightarrow> string list \<Rightarrow> disk_walk list" where
  "disk_walks cache_disk_names disk_paths data_path disk_type_map disk_remote_paths skip_disks skip_disk_types =
     List.map_filter (\<lambda>(disk_name, disk_path).
       let disk_type = (case map_of disk_type_map disk_name of Some t \<Rightarrow> t | None \<Rightarrow> [])
       in if is_disk_excluded disk_name disk_type skip_disks skip_disk_types then None
          else Some \<lparr>dw_disk_name = disk_name, dw_disk_path = disk_path, dw_is_s3 = is_s3_disk disk_type,
                     dw_key_prefix = snd (parse_s3_uri
                       (case map_of disk_remote_paths disk_name of Some u \<Rightarrow> u | None \<Rightarrow> []))\<rparr>)
       (paths_to_walk cache_disk_names disk_paths data_path)"

definition collect_parts ::
    "'p collect_env \<Rightarrow> (string \<Rightarrow> string \<Rightarrow> node option) \<Rightarrow> string \<Rightarrow> string \<Rightarrow> TableRow list \<Rightarrow> string btree_map \<Rightarrow> string btree_map
       \<Rightarrow> string btree_map \<Rightarrow> string list \<Rightarrow> string list \<Rightarrow> string set \<Rightarrow> staging \<Rightarrow> collect_error + collected" where
  "collect_parts env shadow data_path freeze_name tables disk_type_map disk_paths disk_remote_paths skip_disks
       skip_disk_types cache_disk_names staged =
     collect_disks env (build_uuid_map tables) (\<lambda>dw. shadow (dw_disk_path dw) freeze_name)
       (disk_walks cache_disk_names disk_paths data_path disk_type_map disk_remote_paths skip_disks skip_disk_types)
       \<lparr>co_result = (\<lambda>_. []), co_stripped = {}, co_staged = staged\<rparr>"

text \<open>\<^verbatim>\<open>src/backup/mod.rs\<close>: the lookup of a remote base, from the parts of its manifest.\<close>

definition build_base_parts :: "BackupManifest \<Rightarrow> BasePartsMap" where
  "build_base_parts base =
     fold (\<lambda>(table_key, disk_name, part) m.
         m((table_key, disk_name, pi_name part) \<mapsto> (pi_checksum_crc64 part, pi_size part)))
       (manifest_parts base) Map.empty"

section \<open>Staging\<close>

text \<open>The files a part contributes to the staging area, and the projections left out.\<close>

fun tree_files :: "(string \<Rightarrow> bool) \<Rightarrow> string \<Rightarrow> node \<Rightarrow> string \<Rightarrow> (string \<times> node) list"
  and entries_files :: "(string \<Rightarrow> bool) \<Rightarrow> (string \<times> node) list \<Rightarrow> string \<Rightarrow> (string \<times> node) list" where
  "tree_files skip name (Dir es) dst = (if skipped_stem skip name = None then entries_files skip es dst else [])"
| "tree_files skip name n dst = [(dst, n)]"
| "entries_files skip [] dst = []"
| "entries_files skip ((name, n) # es) dst = tree_files skip name n (path_join dst name) @ entries_files skip es dst"

fun tree_stems :: "(string \<Rightarrow> bool) \<Rightarrow> string \<Rightarrow> node \<Rightarrow> string set"
  and entries_stems :: "(string \<Rightarrow> bool) \<Rightarrow> (string \<times> node) list \<Rightarrow> string set" where
  "tree_stems skip name (Dir es) =
     (case skipped_stem skip name of Some stem \<Rightarrow> {stem} | None \<Rightarrow> entries_stems skip es)"
| "tree_stems skip name n = {}"
| "entries_stems skip [] = {}"
| "entries_stems skip ((name, n) # es) = tree_stems skip name n \<union> entries_stems skip es"

lemma hardlink_eq:
  "hardlink_dir skip link_err name n dst st =
     (case find link_err (map fst (tree_files skip name n dst)) of
        Some p \<Rightarrow> Inl (LinkFailed p)
      | None \<Rightarrow> Inr (fst st ++ map_of (rev (tree_files skip name n dst)), snd st \<union> tree_stems skip name n))"
  "hardlink_entries skip link_err es dst st =
     (case find link_err (map fst (entries_files skip es dst)) of
        Some p \<Rightarrow> Inl (LinkFailed p)
      | None \<Rightarrow> Inr (fst st ++ map_of (rev (entries_files skip es dst)), snd st \<union> entries_stems skip es))"
proof (induction skip link_err name n dst st and skip link_err es dst st rule: hardlink_dir_hardlink_entries.induct)
  case (1 skip link_err name es dst fs stripped)
  then show ?case by (cases "skipped_stem skip name") (auto split: option.splits)
qed (auto simp: find_append Un_assoc split: option.splits)

section \<open>What is collected\<close>

definition has_checksums :: "node \<Rightarrow> bool" where
  "has_checksums n = (case n of Dir es \<Rightarrow> map_of es ''checksums.txt'' \<noteq> None | _ \<Rightarrow> False)"

definition part_id :: "CollectedPart \<Rightarrow> string \<times> string" where
  "part_id p = (cp_disk_name p, pi_name (cp_part_info p))"

text \<open>A step of the walk changes nothing or collects one new part.\<close>

lemma stage_part_result:
  "stage_part env disk_path db table part_name part_dir st = Inr st' \<Longrightarrow> co_result st' = co_result st"
  by (auto simp: stage_part_def split: sum.splits prod.splits)

lemma pi_name_new [simp]: "pi_name (PartInfo_new n s c) = n" "pi_checksum_crc64 (PartInfo_new n s c) = c"
  by (simp_all add: PartInfo_new_def)

lemma pi_name_with_s3 [simp]:
  "pi_name (with_s3_objects p objs) = pi_name p" "pi_checksum_crc64 (with_s3_objects p objs) = pi_checksum_crc64 p"
  by (simp_all add: with_s3_objects_def)

lemma collect_part_Inr:
  assumes "collect_part env dw db table part_name part_dir crc st = Inr st'"
  obtains p st1 where "st' = push_part (db @ ''.'' @ table) p st1" and "part_id p = (dw_disk_name dw, part_name)"
    and "pi_checksum_crc64 (cp_part_info p) = crc" and "co_result st1 = co_result st"
    and "if carried_from_base (ce_base_parts env) (db @ ''.'' @ table) (dw_disk_name dw) part_name crc \<noteq> None
         then st1 = st else stage_part env (dw_disk_path dw) db table part_name part_dir st = Inr st1"
proof -
  have "\<exists>info st1. st' = push_part (db @ ''.'' @ table)
           \<lparr>cp_database = db, cp_table = table, cp_part_info = info, cp_disk_name = dw_disk_name dw\<rparr> st1
      \<and> pi_name info = part_name \<and> pi_checksum_crc64 info = crc
      \<and> (if carried_from_base (ce_base_parts env) (db @ ''.'' @ table) (dw_disk_name dw) part_name crc \<noteq> None
         then st1 = st else stage_part env (dw_disk_path dw) db table part_name part_dir st = Inr st1)"
    using assms
    by (auto simp: collect_part_def Let_def split: option.splits if_splits sum.splits)
      (metis pi_name_new pi_name_with_s3)+
  then show thesis using that stage_part_result by (fastforce simp: part_id_def split: if_splits)
qed

lemma process_shadow_part_cases:
  assumes "process_shadow_part env dw db table (part_name, part_dir) st = Inr st'"
  obtains (skip) "st' = st" and "has_checksums part_dir \<longrightarrow> (dw_disk_name dw, part_name) \<in> part_id ` set (co_result st (db @ ''.'' @ table))"
  | (collect) p st1 es checksums where
      "part_dir = Dir es" and "map_of es ''checksums.txt'' = Some checksums"
      and "(dw_disk_name dw, part_name) \<notin> part_id ` set (co_result st (db @ ''.'' @ table))"
      and "st' = push_part (db @ ''.'' @ table) p st1" and "co_result st1 = co_result st"
      and "part_id p = (dw_disk_name dw, part_name)" and "pi_checksum_crc64 (cp_part_info p) = ce_crc env checksums"
      and "if carried_from_base (ce_base_parts env) (db @ ''.'' @ table) (dw_disk_name dw) part_name (ce_crc env checksums) \<noteq> None
           then st1 = st else stage_part env (dw_disk_path dw) db table part_name part_dir st = Inr st1"
proof (cases "has_checksums part_dir \<and> (dw_disk_name dw, part_name) \<notin> part_id ` set (co_result st (db @ ''.'' @ table))")
  case False
  have "st' = st"
    using assms False
    by (auto simp: process_shadow_part_def has_checksums_def part_id_def list_ex_iff image_iff
        split: node.splits option.splits if_splits)
  then show thesis using skip False by blast
next
  case True
  then obtain es checksums where d: "part_dir = Dir es" and c: "map_of es ''checksums.txt'' = Some checksums"
    by (auto simp: has_checksums_def split: node.splits)
  have new: "\<not> list_ex (\<lambda>p. cp_disk_name p = dw_disk_name dw \<and> pi_name (cp_part_info p) = part_name) (co_result st (db @ ''.'' @ table))"
    using True by (auto simp: list_ex_iff part_id_def image_iff)
  have "collect_part env dw db table part_name part_dir (ce_crc env checksums) st = Inr st'"
    using assms d c new by (cases checksums) (simp_all add: process_shadow_part_def)
  then show thesis
    using collect[OF d c] True by (elim collect_part_Inr) blast
qed

lemma process_shadow_part_ids:
  assumes "process_shadow_part env dw db table (part_name, part_dir) st = Inr st'"
  shows "part_id ` set (co_result st' k) = part_id ` set (co_result st k) \<union>
           (if k = db @ ''.'' @ table \<and> has_checksums part_dir then {(dw_disk_name dw, part_name)} else {})"
    and "distinct (map part_id (co_result st k)) \<Longrightarrow> distinct (map part_id (co_result st' k))"
  using assms
  by (cases rule: process_shadow_part_cases; auto simp: push_part_def has_checksums_def)+

definition walked_parts :: "(string \<Rightarrow> (string \<times> string) option) \<Rightarrow> node \<Rightarrow> (string \<times> string \<times> string \<times> node) list" where
  "walked_parts uuid_map shadow =
     (case layout_parts (store_parts uuid_map) ''store'' shadow of Inr ps \<Rightarrow> ps | Inl _ \<Rightarrow> [])
     @ (case layout_parts data_parts ''data'' shadow of Inr ps \<Rightarrow> ps | Inl _ \<Rightarrow> [])"

definition ids_of :: "disk_walk \<Rightarrow> (string \<times> string \<times> string \<times> node) list \<Rightarrow> string \<Rightarrow> (string \<times> string) set" where
  "ids_of dw ps k = {(dw_disk_name dw, part) | part. \<exists>db table d. (db, table, part, d) \<in> set ps \<and> k = db @ ''.'' @ table \<and> has_checksums d}"

lemma ids_of_simps [simp]:
  "ids_of dw [] k = {}"
  "ids_of dw (ps @ qs) k = ids_of dw ps k \<union> ids_of dw qs k"
  "ids_of dw ((db, table, part, d) # ps) k =
     (if k = db @ ''.'' @ table \<and> has_checksums d then {(dw_disk_name dw, part)} else {}) \<union> ids_of dw ps k"
  by (auto simp: ids_of_def)

lemma process_parts_ids:
  "process_parts env dw ps st = Inr st' \<Longrightarrow>
     part_id ` set (co_result st' k) = part_id ` set (co_result st k) \<union> ids_of dw ps k
     \<and> (distinct (map part_id (co_result st k)) \<longrightarrow> distinct (map part_id (co_result st' k)))"
proof (induction env dw ps st rule: process_parts.induct)
  case (2 env dw db table part rest st)
  obtain part_name part_dir where part: "part = (part_name, part_dir)" by force
  obtain st1 where one: "process_shadow_part env dw db table part st = Inr st1" and rest: "process_parts env dw rest st1 = Inr st'"
    using "2.prems" by (auto split: sum.splits)
  show ?case
    using "2.IH"[OF one rest] process_shadow_part_ids[OF one[unfolded part], of k] by (auto simp: part)
qed simp

lemma collect_disk_ids:
  assumes "collect_disk env uuid_map dw shadow st = Inr st'"
  shows "part_id ` set (co_result st' k) = part_id ` set (co_result st k) \<union> ids_of dw (walked_parts uuid_map shadow) k
     \<and> (distinct (map part_id (co_result st k)) \<longrightarrow> distinct (map part_id (co_result st' k)))"
proof -
  obtain ps ps' st1 where "layout_parts (store_parts uuid_map) ''store'' shadow = Inr ps" "process_parts env dw ps st = Inr st1"
    "layout_parts data_parts ''data'' shadow = Inr ps'" "process_parts env dw ps' st1 = Inr st'"
    using assms by (auto simp: collect_disk_def split: sum.splits)
  then show ?thesis
    using process_parts_ids[of env dw ps st st1 k] process_parts_ids[of env dw ps' st1 st' k] by (auto simp: walked_parts_def)
qed

lemma collect_disks_ids:
  "collect_disks env uuid_map shadow dws st = Inr st' \<Longrightarrow>
     part_id ` set (co_result st' k) = part_id ` set (co_result st k)
        \<union> (\<Union>dw\<in>set dws. case shadow dw of None \<Rightarrow> {} | Some sh \<Rightarrow> ids_of dw (walked_parts uuid_map sh) k)
     \<and> (distinct (map part_id (co_result st k)) \<longrightarrow> distinct (map part_id (co_result st' k)))"
proof (induction env uuid_map shadow dws st rule: collect_disks.induct)
  case (2 env uuid_map shadow dw dws st)
  show ?case
  proof (cases "shadow dw")
    case (Some sh)
    obtain st1 where one: "collect_disk env uuid_map dw sh st = Inr st1" and rest: "collect_disks env uuid_map shadow dws st1 = Inr st'"
      using "2.prems" Some by (auto split: sum.splits)
    show ?thesis using "2.IH"(2)[OF Some one rest] collect_disk_ids[OF one, of k] Some by auto
  qed (use 2 in simp)
qed simp

text \<open>
  C18. The walk collects every part: after a successful collection a table holds exactly one entry for
  each part directory with checksums that its shadow directories have on the walked disks, and
  nothing else.
\<close>

theorem collect_parts_complete:
  assumes "collect_parts env shadow data_path freeze_name tables disk_type_map disk_paths disk_remote_paths skip_disks
             skip_disk_types cache_disk_names staged = Inr st"
  shows "distinct (map part_id (co_result st k))
    \<and> part_id ` set (co_result st k) =
        {(dw_disk_name dw, part) | dw sh db table part d.
           dw \<in> set (disk_walks cache_disk_names disk_paths data_path disk_type_map disk_remote_paths skip_disks skip_disk_types)
           \<and> shadow (dw_disk_path dw) freeze_name = Some sh
           \<and> (db, table, part, d) \<in> set (walked_parts (build_uuid_map tables) sh)
           \<and> k = db @ ''.'' @ table \<and> has_checksums d}"
  using collect_disks_ids[OF assms[unfolded collect_parts_def], of k]
  by (auto simp: ids_of_def split: option.splits) blast+

section \<open>Carried parts\<close>

lemma fold_base_lookup:
  "fold (\<lambda>(t, d, p) m. m((t, d, pi_name p) \<mapsto> (pi_checksum_crc64 p, pi_size p))) xs (\<lambda>k. map_option (\<lambda>p. (pi_checksum_crc64 p, pi_size p)) (m k))
     = (\<lambda>k. map_option (\<lambda>p. (pi_checksum_crc64 p, pi_size p))
          (fold (\<lambda>(t, d, p) m. m((t, d, pi_name p) \<mapsto> p)) xs m k))"
proof (induction xs arbitrary: m)
  case (Cons x xs)
  obtain t d p where x: "x = (t, d, p)" by (cases x)
  show ?case using Cons[of "m((t, d, pi_name p) \<mapsto> p)"] by (simp add: x fun_upd_def if_distrib cong: if_cong)
qed simp

lemma build_base_parts_lookup:
  "build_base_parts base (k, d, n) = map_option (\<lambda>p. (pi_checksum_crc64 p, pi_size p)) (base_part base k d n)"
  using fold_base_lookup[of "manifest_parts base" Map.empty]
  by (simp add: build_base_parts_def base_lookup_eq[symmetric] base_lookup_def fun_eq_iff)

lemma carried_from_base_iff:
  assumes "pi_name p = n" and "pi_checksum_crc64 p = crc"
  shows "carried_from_base (Some (build_base_parts base)) k d n crc \<noteq> None \<longleftrightarrow> carries base (k, d, p)"
  using assms by (auto simp: carried_from_base_def build_base_parts_lookup carries_def split: option.splits)

lemma stage_part_staged:
  assumes "stage_part env disk_path db table part_name part_dir st = Inr st'"
  shows "co_staged st' = co_staged st ++ map_of (rev (tree_files (skip_of env) part_name part_dir (staging_dir env disk_path db table part_name)))"
    and "co_stripped st' = co_stripped st \<union> tree_stems (skip_of env) part_name part_dir"
  using assms by (auto simp: stage_part_def hardlink_eq split: sum.splits option.splits)

text \<open>
  C10. With a remote base, a part is left out of the staging area exactly when the incremental diff will
  carry it: its entry is then rewritten to the key of the base and never read locally. Every other
  part is staged with all its files, except those of skipped projections.
\<close>

theorem collect_skips_exactly_carried:
  assumes run: "process_shadow_part env dw db table (part_name, part_dir) st = Inr st'"
    and base: "ce_base_parts env = Some (build_base_parts base)"
    and new: "co_result st' (db @ ''.'' @ table) \<noteq> co_result st (db @ ''.'' @ table)"
  shows "\<exists>p. co_result st' (db @ ''.'' @ table) = co_result st (db @ ''.'' @ table) @ [p]
    \<and> (if carries base (db @ ''.'' @ table, cp_disk_name p, cp_part_info p)
       then co_staged st' = co_staged st
          \<and> pi_source (carry_part base (db @ ''.'' @ table) (cp_disk_name p) (cp_part_info p)) = ''carried:'' @ bm_name base
       else co_staged st' = co_staged st
              ++ map_of (rev (tree_files (skip_of env) part_name part_dir (staging_dir env (dw_disk_path dw) db table part_name))))"
  using run
proof (cases rule: process_shadow_part_cases)
  case (collect p st1 es checksums)
  have id: "cp_disk_name p = dw_disk_name dw" "pi_name (cp_part_info p) = part_name"
    using collect(6) by (simp_all add: part_id_def)
  note carried = carried_from_base_iff[OF id(2) collect(7), of base "db @ ''.'' @ table" "dw_disk_name dw"]
  have "pi_source (carry_part base k d q) = ''carried:'' @ bm_name base" if "carries base (k, d, q)" for k d q
    using that by (auto simp: carries_def carry_part_def split: option.splits)
  then show ?thesis
    using collect(4,5,8) base carried id stage_part_staged(1)
    by (intro exI[of _ p]) (auto simp: push_part_def split: if_splits)
qed (use new in simp)

section \<open>Tables of shadow directories\<close>

text \<open>
  A UUID directory belongs to the first data table with that key, and to the first other table only
  when no data table has it.
\<close>

definition owner_of :: "TableRow list \<Rightarrow> string \<Rightarrow> TableRow option" where
  "owner_of tables k =
     (case find (\<lambda>t. k \<in> set (uuid_keys t) \<and> is_data_engine (tr_engine t)) tables of
        Some t \<Rightarrow> Some t
      | None \<Rightarrow> find (\<lambda>t. k \<in> set (uuid_keys t)) tables)"

definition entry_of :: "TableRow \<Rightarrow> string \<times> string \<times> bool" where
  "entry_of t = (tr_database t, tr_name t, is_data_engine (tr_engine t))"

lemma insert_keys:
  "fold (\<lambda>key. insert_with_priority key db tbl dat) keys m k =
     (if k \<in> set keys
      then (case m k of None \<Rightarrow> Some (db, tbl, dat)
            | Some (a, b, c) \<Rightarrow> if dat \<and> \<not> c then Some (db, tbl, dat) else Some (a, b, c))
      else m k)"
  by (induction keys arbitrary: m) (auto simp: insert_with_priority_def split: option.splits)

lemma find_snoc: "find P (xs @ [x]) = (case find P xs of Some y \<Rightarrow> Some y | None \<Rightarrow> if P x then Some x else None)"
  by (simp add: find_append split: option.splits)

lemma find_None_weaken: "find P xs = None \<Longrightarrow> (\<And>x. Q x \<Longrightarrow> P x) \<Longrightarrow> find Q xs = None"
  by (auto simp: find_None_iff)

lemma build_uuid_fold:
  "fold (\<lambda>t m. fold (\<lambda>key. insert_with_priority key (tr_database t) (tr_name t) (is_data_engine (tr_engine t))) (uuid_keys t) m)
     tables Map.empty k = map_option entry_of (owner_of tables k)"
proof (induction tables rule: rev_induct)
  case (snoc t tables)
  define A where "A = find (\<lambda>t. k \<in> set (uuid_keys t) \<and> is_data_engine (tr_engine t)) tables"
  define B where "B = find (\<lambda>t. k \<in> set (uuid_keys t)) tables"
  have own: "owner_of tables k = (case A of Some u \<Rightarrow> Some u | None \<Rightarrow> B)"
    unfolding owner_of_def A_def B_def by (rule refl)
  have own': "owner_of (tables @ [t]) k =
     (case A of Some u \<Rightarrow> Some u
      | None \<Rightarrow> if k \<in> set (uuid_keys t) \<and> is_data_engine (tr_engine t) then Some t
               else (case B of Some u \<Rightarrow> Some u | None \<Rightarrow> if k \<in> set (uuid_keys t) then Some t else None))"
    by (simp add: owner_of_def A_def B_def find_snoc split: option.split)
  show ?case
  proof (cases A)
    case (Some u)
    then have "is_data_engine (tr_engine u)" using find_SomeD[of _ tables u] by (auto simp: A_def)
    then show ?thesis using Some snoc by (simp add: insert_keys own own' entry_of_def)
  next
    case None
    show ?thesis
    proof (cases B)
      case (Some u)
      then have "\<not> is_data_engine (tr_engine u)"
        using \<open>A = None\<close> find_SomeD[of _ tables u] by (auto simp: A_def B_def find_None_iff)
      then show ?thesis using Some None snoc by (simp add: insert_keys own own' entry_of_def)
    qed (use None snoc in \<open>simp add: insert_keys own own' entry_of_def\<close>)
  qed
qed (simp add: owner_of_def)

text \<open>
  The map from shadow directories to tables agrees with the declarative choice: the first table with a
  data engine that has the directory as its UUID or as a data path, and without one the first of any engine.
\<close>

theorem build_uuid_map_correct:
  "build_uuid_map tables k = map_option (\<lambda>t. (tr_database t, tr_name t)) (owner_of tables k)"
  by (simp add: build_uuid_map_def build_uuid_fold option.map_comp comp_def entry_of_def)

section \<open>Disks\<close>

lemma dropWhile_twice: "dropWhile P (dropWhile P xs) = dropWhile P xs"
  by (induction xs) auto

lemma trim_end_char_twice [simp]: "trim_end_char c (trim_end_char c s) = trim_end_char c s"
  by (simp add: trim_end_char_def dropWhile_twice)

lemma map_of_btree_insert: "map_of (btree_insert k v m) q = (if q = k then Some v else map_of m q)"
  by (induction k v m rule: btree_insert.induct) auto

text \<open>The disk a path is walked as: the first one that is not a cache, or else the first.\<close>

definition disk_at :: "string set \<Rightarrow> string btree_map \<Rightarrow> string \<Rightarrow> (string \<times> string) option" where
  "disk_at cache_disk_names disk_paths path =
     (case find (\<lambda>(n, p). trim_end_char CHR ''/'' p = path \<and> n \<notin> cache_disk_names) disk_paths of
        Some d \<Rightarrow> Some d
      | None \<Rightarrow> find (\<lambda>(n, p). trim_end_char CHR ''/'' p = path) disk_paths)"

lemma dedup_fold:
  "map_of (fold (dedup_disk cache) disks []) path = map_option (\<lambda>(n, _). (n, n \<in> cache)) (disk_at cache disks path)"
proof (induction disks rule: rev_induct)
  case (snoc d disks)
  obtain n p where d: "d = (n, p)" by force
  let ?t = "trim_end_char CHR ''/''"
  define A where "A = find (\<lambda>(n, p). ?t p = path \<and> n \<notin> cache) disks"
  define B where "B = find (\<lambda>(n, p). ?t p = path) disks"
  have own: "disk_at cache disks path = (case A of Some u \<Rightarrow> Some u | None \<Rightarrow> B)"
    unfolding disk_at_def A_def B_def by (rule refl)
  have own': "disk_at cache (disks @ [d]) path =
     (case A of Some u \<Rightarrow> Some u
      | None \<Rightarrow> if ?t p = path \<and> n \<notin> cache then Some (n, p)
               else (case B of Some u \<Rightarrow> Some u | None \<Rightarrow> if ?t p = path then Some (n, p) else None))"
    by (simp add: disk_at_def A_def B_def find_snoc d split: option.split)
  have step: "map_of (dedup_disk cache d m) path =
      (if ?t p = path then (case map_of m path of None \<Rightarrow> Some (n, n \<in> cache)
          | Some (a, c) \<Rightarrow> if c \<and> n \<notin> cache then Some (n, n \<in> cache) else Some (a, c))
       else map_of m path)" for m
    by (auto simp: d dedup_disk_def Let_def map_of_btree_insert split: option.split)
  show ?case
  proof (cases A)
    case (Some u)
    then have "fst u \<notin> cache" using find_SomeD unfolding A_def by fastforce
    then show ?thesis using Some snoc by (cases u) (simp add: step own own')
  next
    case None
    show ?thesis
    proof (cases B)
      case (Some u)
      then have "fst u \<in> cache"
        using \<open>A = None\<close> find_SomeD[of "\<lambda>(n, p). ?t p = path" disks u] by (cases u) (auto simp: A_def B_def find_None_iff)
      then show ?thesis using Some None snoc by (cases u) (simp add: step own own')
    qed (use None snoc in \<open>simp add: step own own'\<close>)
  qed
qed (simp add: disk_at_def)

lemma dedup_ok: "btree_ok m \<Longrightarrow> btree_ok (fold (dedup_disk cache) disks m)"
  by (induction disks arbitrary: m) (auto simp: dedup_disk_def Let_def btree_insert_ok split: option.splits)

lemma btree_ok_map_of: "btree_ok m \<Longrightarrow> (k, v) \<in> set m \<longleftrightarrow> map_of m k = Some v"
  using btree_ok_distinct[of m] by (metis map_of_eq_Some_iff)

lemma dedup_keys: "p \<in> fst ` set (fold (dedup_disk cache) disks []) \<Longrightarrow> trim_end_char CHR ''/'' p = p"
proof -
  assume "p \<in> fst ` set (fold (dedup_disk cache) disks [])"
  then obtain v where "map_of (fold (dedup_disk cache) disks []) p = Some v"
    using dedup_ok[of "[]" cache disks] by (auto simp: btree_ok_map_of btree_ok_def)
  then obtain d where "disk_at cache disks p = Some d" by (auto simp: dedup_fold)
  then have "trim_end_char CHR ''/'' (snd d) = p"
    by (auto simp: disk_at_def dest: find_SomeD split: option.splits)
  then show ?thesis by (metis trim_end_char_twice)
qed

text \<open>
  No shadow directory is walked twice: the paths walked are distinct up to trailing slashes and
  cover the data path and the path of every disk, each under a disk of that path that is not a
  cache unless all of them are.
\<close>

theorem paths_to_walk_correct:
  "distinct (map (trim_end_char CHR ''/'' \<circ> snd) (paths_to_walk cache disk_paths data_path))
   \<and> trim_end_char CHR ''/'' data_path \<in> trim_end_char CHR ''/'' ` snd ` set (paths_to_walk cache disk_paths data_path)
   \<and> (\<forall>path. \<forall>d. disk_at cache disk_paths path = Some d \<longrightarrow> (fst d, path) \<in> set (paths_to_walk cache disk_paths data_path))"
proof -
  let ?t = "trim_end_char CHR ''/''" and ?m = "fold (dedup_disk cache) disk_paths []"
  let ?ps = "map (\<lambda>(path, name, _). (name, path)) ?m"
  have ok: "btree_ok ?m" by (rule dedup_ok) (simp add: btree_ok_def)
  have "map (?t \<circ> snd) ?ps = map fst ?m"
    using dedup_keys[of _ cache disk_paths] by (force intro!: map_cong)
  then have dist: "distinct (map (?t \<circ> snd) ?ps)" using btree_ok_distinct[OF ok] by metis
  have "(fst d, path) \<in> set ?ps" if "disk_at cache disk_paths path = Some d" for path d
  proof -
    have "map_of ?m path = Some (fst d, fst d \<in> cache)" using that by (simp add: dedup_fold split: prod.splits)
    then show ?thesis using ok by (force simp: btree_ok_map_of[symmetric])
  qed
  moreover have "list_ex (\<lambda>(_, p). ?t p = ?t data_path) ?ps \<longleftrightarrow> ?t data_path \<in> set (map (?t \<circ> snd) ?ps)"
    unfolding list_ex_iff by force
  ultimately show ?thesis
    using dist unfolding paths_to_walk_def Let_def by (cases "?t data_path \<in> set (map (?t \<circ> snd) ?ps)") (force+)
qed

section \<open>The way to upload\<close>

text \<open>
  \<^verbatim>\<open>upload\<close> looks for a part where collection staged it: when the directory exists, the path
  resolved for the disk of the part is the staging directory.
\<close>

theorem staged_part_resolves:
  assumes "map_of manifest_disks disk_name = Some disk_path"
    and "exists (staging_dir env disk_path db table part_name)"
  shows "resolve_shadow_part_path exists backup_dir manifest_disks (ce_backup_name env) disk_name
           (encode_component (ce_uni env) db) (encode_component (ce_uni env) table) plain_db plain_table part_name
         = Some (staging_dir env (trim_end_char CHR ''/'' disk_path) db table part_name)"
  using assms by (simp add: resolve_shadow_part_path_def staging_dir_def Let_def)

section \<open>A walk\<close>

definition walk_sample_env :: "BasePartsMap option \<Rightarrow> string collect_env" where
  "walk_sample_env base =
     \<lparr>ce_uni = (\<lambda>_. True), ce_crc = (\<lambda>n. case n of File s \<Rightarrow> of_nat (length s) | _ \<Rightarrow> 0), ce_link_err = (\<lambda>_. False),
      ce_glob_new = Some, ce_glob_matches = (=), ce_skip_projections = [''p''], ce_base_parts = base, ce_backup_name = ''b''\<rparr>"

definition walk_sample_part :: node where
  "walk_sample_part = Dir [(''checksums.txt'', File ''abc''), (''data.bin'', Bin 9), (''p.proj'', Dir [(''x'', Bin 1)])]"

definition walk_sample_shadow :: node where
  "walk_sample_shadow = Dir [(''data'', Dir [(''db'', Dir [(''t'', Dir [(''all_1_1_0'', walk_sample_part), (''tmp'', Dir [])])])])]"

definition walk_sample :: "collect_error + collected" where
  "walk_sample = collect_parts (walk_sample_env None) (\<lambda>_ _. Some walk_sample_shadow) ''/ch/'' ''f'' [] [] [(''default'', ''/ch/'')] []
     [] [] {} Map.empty"

lemma walk_sample_ok: "walk_sample = Inr (projr walk_sample)"
proof -
  have "isl walk_sample = False" by code_simp
  then show ?thesis by (cases walk_sample) auto
qed

theorem collect_parts_complete_witness:
  "distinct (map part_id (co_result (projr walk_sample) ''db.t''))
   \<and> part_id ` set (co_result (projr walk_sample) ''db.t'') = {(''default'', ''all_1_1_0'')}"
proof -
  have "part_id ` set (co_result (projr walk_sample) ''db.t'') = {(''default'', ''all_1_1_0'')}" by code_simp
  then show ?thesis
    using collect_parts_complete[OF walk_sample_ok[unfolded walk_sample_def], of "''db.t''"] by (simp add: walk_sample_def)
qed

definition walk_sample_disk :: disk_walk where
  "walk_sample_disk = \<lparr>dw_disk_name = ''default'', dw_disk_path = ''/ch'', dw_is_s3 = False, dw_key_prefix = []\<rparr>"

definition walk_sample_base :: BackupManifest where
  "walk_sample_base = \<lparr>bm_manifest_version = 1, bm_name = ''base'', bm_timestamp = 0, bm_clickhouse_version = [],
     bm_chbackup_version = [], bm_data_format = ''lz4'', bm_compressed_size = 0, bm_metadata_size = 0, bm_disks = [],
     bm_disk_types = [], bm_disk_remote_paths = [],
     bm_tables = [(''db.t'', \<lparr>tm_ddl = [], tm_uuid = None, tm_engine = ''MergeTree'', tm_total_bytes = 7,
        tm_parts = [(''default'', [PartInfo_new ''all_1_1_0'' 7 3])], tm_pending_mutations = [], tm_metadata_only = False,
        tm_dependencies = []\<rparr>)],
     bm_databases = [], bm_functions = [], bm_named_collections = [], bm_rbac = None, bm_rbac_size = 0, bm_config_size = 0,
     bm_stripped_projections = []\<rparr>"

theorem collect_skips_exactly_carried_witness:
  "\<exists>st p. process_shadow_part (walk_sample_env (Some (build_base_parts walk_sample_base))) walk_sample_disk ''db'' ''t''
       (''all_1_1_0'', walk_sample_part) \<lparr>co_result = (\<lambda>_. []), co_stripped = {}, co_staged = Map.empty\<rparr> = Inr st
     \<and> co_result st ''db.t'' = [p] \<and> co_staged st = Map.empty"
proof -
  let ?st = "\<lparr>co_result = (\<lambda>_. []), co_stripped = {}, co_staged = Map.empty\<rparr>"
  let ?env = "walk_sample_env (Some (build_base_parts walk_sample_base))"
  let ?run = "process_shadow_part ?env walk_sample_disk ''db'' ''t'' (''all_1_1_0'', walk_sample_part) ?st"
  have "\<not> isl ?run" by code_simp
  then obtain st where run: "?run = Inr st" by (cases ?run) auto
  have one: "co_result (projr ?run) ''db.t'' \<noteq> []" by code_simp
  then have new: "co_result st (''db'' @ ''.'' @ ''t'') \<noteq> co_result ?st (''db'' @ ''.'' @ ''t'')" using run by simp
  have base: "ce_base_parts ?env = Some (build_base_parts walk_sample_base)" by (simp add: walk_sample_env_def)
  obtain p where p: "co_result st ''db.t'' = [p]"
    and cs: "if carries walk_sample_base (''db.t'', cp_disk_name p, cp_part_info p) then co_staged st = Map.empty else True"
    using collect_skips_exactly_carried[OF run base new] by (auto split: if_splits)
  have "carries walk_sample_base (''db.t'', cp_disk_name (hd (co_result (projr ?run) ''db.t'')), cp_part_info (hd (co_result (projr ?run) ''db.t'')))"
    by code_simp
  then have "co_staged st = Map.empty" using cs p run by (auto split: if_splits)
  then show ?thesis using run p by auto
qed

theorem staged_part_resolves_witness:
  "resolve_shadow_part_path (\<lambda>_. True) ''/ch/backup/b'' [(''default'', ''/ch/'')] ''b'' ''default'' ''db'' ''t'' ''db'' ''t'' ''all_1_1_0''
     = Some ''/ch/backup/b/shadow/db/t/all_1_1_0''"
proof -
  have "encode_component (ce_uni (walk_sample_env None)) ''db'' = ''db''" "encode_component (ce_uni (walk_sample_env None)) ''t'' = ''t''"
    by code_simp+
  moreover have "staging_dir (walk_sample_env None) (trim_end_char CHR ''/'' ''/ch/'') ''db'' ''t'' ''all_1_1_0''
      = ''/ch/backup/b/shadow/db/t/all_1_1_0''" by code_simp
  moreover have "ce_backup_name (walk_sample_env None) = ''b''" by (simp add: walk_sample_env_def)
  ultimately show ?thesis
    using staged_part_resolves[of "[(''default'', ''/ch/'')]" "''default''" "''/ch/''" "\<lambda>_. True" "walk_sample_env None" "''db''" "''t''"
        "''all_1_1_0''" "''/ch/backup/b''" "''db''" "''t''"]
    by simp
qed

end
