(* ===== verification/Create.thy ===== *)
theory Create
  imports Collect Deferred
begin

text \<open>
  Model of \<^verbatim>\<open>src/backup/mod.rs\<close>: which tables a backup takes, how they are frozen, collected
  and entered into the manifest, and how the command ends. ALTER TABLE .. FREEZE is a parameter
  \<open>frz\<close> like UNFREEZE: it answers with an error text or success and gives the new server state;
  its partition is \<open>None\<close> for the whole table. What \<open>collect_parts\<close> returns for a table is an
  argument of the task, because the walk happens after the FREEZE. The tasks run one after the
  other; in the program they interleave, but they share only the registry of frozen tables and
  the set of staged partitions, to which they only add.
\<close>

section \<open>Definitions\<close>

subsection \<open>Selection\<close>

definition normalize_uuid :: "string \<Rightarrow> string option" where
  "normalize_uuid uuid = (if uuid = [] \<or> uuid = NIL_UUID then None else Some uuid)"

datatype PartitionSpec = Unspecified | WholeTable | Ids "string list"

definition parse_partition_list :: "string option \<Rightarrow> PartitionSpec" where
  "parse_partition_list partitions =
     (let parts = (case partitions of
                     Some s \<Rightarrow> if s \<noteq> [] then filter (\<lambda>p. p \<noteq> []) (map trim (split_on CHR '','' s)) else []
                   | None \<Rightarrow> [])
      in case parts of
           [] \<Rightarrow> Unspecified
         | [p] \<Rightarrow> if p = ''all'' then WholeTable else Ids [p]
         | _ \<Rightarrow> Ids parts)"

definition tables_with_s3_parts :: "TableManifest btree_map \<Rightarrow> string set" where
  "tables_with_s3_parts table_manifests =
     fst ` set (filter (\<lambda>(_, tm). list_ex (\<lambda>p. case pi_s3_objects p of Some objs \<Rightarrow> objs \<noteq> [] | None \<Rightarrow> False)
                  (concat (map snd (tm_parts tm)))) table_manifests)"

definition is_ignorable_freeze_error :: "string \<Rightarrow> bool" where
  "is_ignorable_freeze_error err_msg \<longleftrightarrow>
     str_contains err_msg ''UNKNOWN_TABLE'' \<or> str_contains err_msg ''UNKNOWN_DATABASE''
     \<or> str_contains err_msg ''Code: 60'' \<or> str_contains err_msg ''Code: 81''
     \<or> str_contains err_msg ''CANNOT_FREEZE_PARTITION'' \<or> str_contains err_msg ''Code: 218''"

record ColumnInconsistency =
  ci_database :: string
  ci_table :: string
  ci_column :: string
  ci_types :: "string list"

definition is_benign_type :: "string \<Rightarrow> bool" where
  "is_benign_type type_str \<longleftrightarrow>
     starts_with type_str ''Enum'' \<or> starts_with type_str ''Tuple'' \<or> starts_with type_str ''Nullable(Enum''
     \<or> starts_with type_str ''Nullable(Tuple'' \<or> starts_with type_str ''Array(Tuple''"

definition filter_benign_type_drift :: "ColumnInconsistency list \<Rightarrow> ColumnInconsistency list" where
  "filter_benign_type_drift inconsistencies = filter (\<lambda>inc. \<not> list_all is_benign_type (ci_types inc)) inconsistencies"

definition select_tables ::
    "(string \<Rightarrow> 'p option) \<Rightarrow> ('p \<Rightarrow> string \<Rightarrow> bool) \<Rightarrow> string \<Rightarrow> string list \<Rightarrow> string list \<Rightarrow> TableRow list \<Rightarrow> TableRow list" where
  "select_tables glob_new glob_matches pattern skip_tables skip_table_engines all_tables =
     (let flt = TableFilter_new glob_new pattern in
      filter (\<lambda>t. \<not> is_engine_excluded (tr_engine t) skip_table_engines)
       (filter (\<lambda>t. \<not> is_excluded glob_new glob_matches (tr_database t) (tr_name t) skip_tables)
         (filter (\<lambda>t. matches glob_matches flt (tr_database t) (tr_name t)) all_tables)))"

subsection \<open>Freezing one table\<close>

definition effective_partitions :: "PartitionSpec \<Rightarrow> bool \<Rightarrow> string + string list \<Rightarrow> string list \<times> bool" where
  "effective_partitions spec freeze_by_part discovered =
     (case spec of
        Ids ids \<Rightarrow> (ids, False)
      | WholeTable \<Rightarrow> ([], False)
      | Unspecified \<Rightarrow>
          if freeze_by_part then (case discovered of Inr ps \<Rightarrow> (ps, True) | Inl _ \<Rightarrow> ([], False)) else ([], False))"

type_synonym 's freezer = "'s \<Rightarrow> FreezeInfo \<Rightarrow> string option \<Rightarrow> (string + unit) \<times> 's"

text \<open>The loop over partitions: the ones whose statement succeeded, the registry and the server.\<close>

fun freeze_partitions ::
    "'s freezer \<Rightarrow> bool \<Rightarrow> FreezeInfo \<Rightarrow> string list \<Rightarrow> FreezeInfo list \<Rightarrow> 's \<Rightarrow> (string + string list) \<times> FreezeInfo list \<times> 's" where
  "freeze_partitions frz ignore_not_exists info [] reg s = (Inr [], reg, s)"
| "freeze_partitions frz ignore_not_exists info (pid # pids) reg s =
     (case frz s info (Some pid) of
        (Inr _, s1) \<Rightarrow>
          (case freeze_partitions frz ignore_not_exists info pids (record_freeze info reg) s1 of
             (Inr attempted, reg2, s2) \<Rightarrow> (Inr (pid # attempted), reg2, s2)
           | (Inl e, reg2, s2) \<Rightarrow> (Inl e, reg2, s2))
      | (Inl err_msg, s1) \<Rightarrow>
          if ignore_not_exists \<and> is_ignorable_freeze_error err_msg
          then freeze_partitions frz ignore_not_exists info pids reg s1
          else (Inl err_msg, reg, s1))"

text \<open>Whether anything was frozen, the partitions staged, the registry and the server.\<close>

definition freeze_table_task ::
    "'s freezer \<Rightarrow> (string \<Rightarrow> string \<Rightarrow> string list) \<Rightarrow> string btree_map \<Rightarrow> bool \<Rightarrow> FreezeInfo \<Rightarrow> string list \<Rightarrow> bool
       \<Rightarrow> FreezeInfo list \<Rightarrow> 's \<Rightarrow> (string + bool \<times> string set) \<times> FreezeInfo list \<times> 's" where
  "freeze_table_task frz walk disk_map ignore_not_exists info partitions from_discovery reg s =
     (if partitions = []
      then (case frz s info None of
              (Inr _, s1) \<Rightarrow> (Inr (True, {}), record_freeze info reg, s1)
            | (Inl err_msg, s1) \<Rightarrow>
                if ignore_not_exists \<and> is_ignorable_freeze_error err_msg then (Inr (False, {}), reg, s1)
                else (Inl err_msg, reg, s1))
      else (case freeze_partitions frz ignore_not_exists info partitions reg s of
              (Inl e, reg1, s1) \<Rightarrow> (Inl e, reg1, s1)
            | (Inr requested, reg1, s1) \<Rightarrow>
                (let staged = (if requested = [] then {}
                               else verify_partitions_staged walk info disk_map requested (\<not> from_discovery))
                 in (Inr (staged \<noteq> {}, staged), reg1, s1))))"

subsection \<open>The manifest of one table\<close>

definition btree_push :: "string \<Rightarrow> 'v \<Rightarrow> 'v list btree_map \<Rightarrow> 'v list btree_map" where
  "btree_push k v m = (case map_of m k of None \<Rightarrow> btree_insert k [v] m | Some vs \<Rightarrow> btree_insert k (vs @ [v]) m)"

definition parts_by_disk :: "CollectedPart list \<Rightarrow> PartInfo list btree_map" where
  "parts_by_disk parts = fold (\<lambda>cp. btree_push (cp_disk_name cp) (cp_part_info cp)) parts []"

definition data_table_manifest ::
    "TableRow \<Rightarrow> MutationInfo list \<Rightarrow> string list \<Rightarrow> CollectedPart list \<Rightarrow> TableManifest" where
  "data_table_manifest row mutations deps parts =
     \<lparr>tm_ddl = tr_create_table_query row, tm_uuid = normalize_uuid (tr_uuid row), tm_engine = tr_engine row,
      tm_total_bytes = sum_list (map (\<lambda>cp. pi_size (cp_part_info cp)) parts), tm_parts = parts_by_disk parts,
      tm_pending_mutations = mutations, tm_metadata_only = False, tm_dependencies = deps\<rparr>"

definition metadata_table_manifest :: "TableRow \<Rightarrow> string list \<Rightarrow> TableManifest" where
  "metadata_table_manifest row deps =
     \<lparr>tm_ddl = tr_create_table_query row, tm_uuid = normalize_uuid (tr_uuid row), tm_engine = tr_engine row,
      tm_total_bytes = 0, tm_parts = [], tm_pending_mutations = [], tm_metadata_only = \<not> is_data_engine (tr_engine row),
      tm_dependencies = deps\<rparr>"

definition row_name :: "TableRow \<Rightarrow> string" where
  "row_name row = tr_database row @ ''.'' @ tr_name row"

text \<open>The tables that are not frozen, and the ones that are.\<close>

definition split_tables ::
    "bool \<Rightarrow> (string \<Rightarrow> string list) \<Rightarrow> TableRow list \<Rightarrow> TableManifest btree_map \<times> TableRow list" where
  "split_tables schema_only deps tables =
     (fold (\<lambda>row m. if \<not> schema_only \<and> is_data_engine (tr_engine row) then m
                    else btree_insert (row_name row) (metadata_table_manifest row (deps (row_name row))) m) tables [],
      filter (\<lambda>row. \<not> schema_only \<and> is_data_engine (tr_engine row)) tables)"

subsection \<open>The tasks and their results\<close>

text \<open>What a task finds in its surroundings: the discovered partitions and the collected parts.\<close>

record table_input =
  ti_row :: TableRow
  ti_discovered :: "string + string list"
  ti_collected :: "string + CollectedPart list \<times> string list"

record 's create_env =
  cr_backup_name :: string
  cr_spec :: PartitionSpec
  cr_freeze_by_part :: bool
  cr_ignore_not_exists :: bool
  cr_allow_empty :: bool
  cr_disk_map :: "string btree_map"
  cr_walk :: "string \<Rightarrow> string \<Rightarrow> string list"
  cr_mutations :: "string \<Rightarrow> MutationInfo list"
  cr_deps :: "string \<Rightarrow> string list"
  cr_frz :: "'s freezer"
  cr_unf :: "'s \<Rightarrow> FreezeInfo \<Rightarrow> bool \<times> 's"

type_synonym task_result = "string + (string \<times> TableManifest \<times> string list) option"

definition freeze_info :: "'s create_env \<Rightarrow> TableRow \<Rightarrow> FreezeInfo" where
  "freeze_info ce row =
     \<lparr>fi_database = tr_database row, fi_table = tr_name row,
      fi_freeze_name = freeze_name (cr_backup_name ce) (tr_database row) (tr_name row)\<rparr>"

definition table_task ::
    "'s create_env \<Rightarrow> table_input \<Rightarrow> string set \<Rightarrow> FreezeInfo list \<Rightarrow> 's \<Rightarrow> task_result \<times> string set \<times> FreezeInfo list \<times> 's" where
  "table_task ce ti staged_ids reg s =
     (let row = ti_row ti;
          (partitions, from_discovery) = effective_partitions (cr_spec ce) (cr_freeze_by_part ce) (ti_discovered ti)
      in case freeze_table_task (cr_frz ce) (cr_walk ce) (cr_disk_map ce) (cr_ignore_not_exists ce) (freeze_info ce row)
                partitions from_discovery reg s of
           (Inl e, reg1, s1) \<Rightarrow> (Inl e, staged_ids, reg1, s1)
         | (Inr (frozen, staged), reg1, s1) \<Rightarrow>
             (if \<not> frozen then (Inr None, staged_ids \<union> staged, reg1, s1)
              else case ti_collected ti of
                Inl e \<Rightarrow> (Inl e, staged_ids \<union> staged, reg1, s1)
              | Inr (parts, stripped) \<Rightarrow>
                  (Inr (Some (row_name row,
                     data_table_manifest row (cr_mutations ce (row_name row)) (cr_deps ce (row_name row)) parts, stripped)),
                   staged_ids \<union> staged, reg1, s1)))"

fun run_tasks ::
    "'s create_env \<Rightarrow> table_input list \<Rightarrow> string set \<Rightarrow> FreezeInfo list \<Rightarrow> 's \<Rightarrow> task_result list \<times> string set \<times> FreezeInfo list \<times> 's" where
  "run_tasks ce [] staged_ids reg s = ([], staged_ids, reg, s)"
| "run_tasks ce (ti # tis) staged_ids reg s =
     (let (r, st1, reg1, s1) = table_task ce ti staged_ids reg s;
          (rs, st2, reg2, s2) = run_tasks ce tis st1 reg1 s1
      in (r # rs, st2, reg2, s2))"

record result_state =
  rs_tables :: "TableManifest btree_map"
  rs_error :: "string option"
  rs_zero_parts :: "string list"
  rs_stripped :: "string set"

definition take_result :: "task_result \<Rightarrow> result_state \<Rightarrow> result_state" where
  "take_result r rs =
     (case r of
        Inr (Some (table_name, tm, stripped)) \<Rightarrow>
          rs\<lparr>rs_stripped := rs_stripped rs \<union> set stripped,
             rs_zero_parts := (if \<not> tm_metadata_only tm \<and> list_all (\<lambda>(_, v). v = []) (tm_parts tm) \<and> 0 < tm_total_bytes tm
                               then rs_zero_parts rs @ [table_name] else rs_zero_parts rs),
             rs_tables := btree_insert table_name tm (rs_tables rs)\<rparr>
      | Inr None \<Rightarrow> rs
      | Inl e \<Rightarrow> (case rs_error rs of None \<Rightarrow> rs\<lparr>rs_error := Some e\<rparr> | Some _ \<Rightarrow> rs))"

definition partition_check :: "PartitionSpec \<Rightarrow> bool \<Rightarrow> string set \<Rightarrow> string option \<Rightarrow> string list option" where
  "partition_check spec allow_empty staged_ids first_error =
     (if first_error \<noteq> None then None
      else case spec of
        Ids requested_ids \<Rightarrow>
          (let unmatched = unmatched_explicit_partitions requested_ids staged_ids
           in if unmatched \<noteq> [] \<and> \<not> allow_empty then Some unmatched else None)
      | _ \<Rightarrow> None)"

datatype create_error = NoTables | TaskFailed string | UnmatchedPartitions "string list" | BackupExists | TailFailed

text \<open>
  From the selection of tables to the end of the command; \<open>dir_exists\<close> tells whether the backup
  directory is there already, \<open>inputs\<close> gives each selected data table its surroundings, \<open>tail_ok\<close> tells whether
  what follows the freezes (metadata files, RBAC, diff, manifest) succeeds.
\<close>

definition create ::
    "'s create_env \<Rightarrow> (TableRow \<Rightarrow> table_input) \<Rightarrow> TableRow list \<Rightarrow> bool \<Rightarrow> bool \<Rightarrow> bool \<Rightarrow> u64 \<Rightarrow> env \<Rightarrow> env \<Rightarrow> bool \<Rightarrow> 's world
       \<Rightarrow> (create_error + TableManifest btree_map) \<times> 's world" where
  "create ce inputs filtered_tables dir_exists schema_only defer_unfreeze_s3 ttl e e' tail_ok w =
     (if filtered_tables = [] \<and> \<not> cr_allow_empty ce then (Inl NoTables, w)
      else if dir_exists then (Inl BackupExists, w)
      else let (metadata_tables, data_tables) = split_tables schema_only (cr_deps ce) filtered_tables;
               (results, staged_ids, reg, s) = run_tasks ce (map inputs data_tables) {} [] (w_server w);
               rs = fold take_result results
                      \<lparr>rs_tables = metadata_tables, rs_error = None, rs_zero_parts = [], rs_stripped = {}\<rparr>;
               error = (case rs_error rs of
                          Some err \<Rightarrow> Some (TaskFailed err)
                        | None \<Rightarrow> map_option UnmatchedPartitions (partition_check (cr_spec ce) (cr_allow_empty ce) staged_ids None))
           in case error of
                Some err \<Rightarrow> (Inl err, w\<lparr>w_server := snd (unfreeze_all_checked (cr_unf ce) reg s)\<rparr>)
              | None \<Rightarrow>
                  (let w' = create_run (cr_unf ce) e (cr_backup_name ce) ttl defer_unfreeze_s3 (tables_with_s3_parts (rs_tables rs))
                              reg e' tail_ok (w\<lparr>w_server := s\<rparr>)
                   in (if tail_ok then Inr (rs_tables rs) else Inl TailFailed, w')))"

section \<open>Manifests\<close>

lemma btree_push_lookup:
  "map_of (btree_push k v m) q = (if q = k then Some (case map_of m k of None \<Rightarrow> [v] | Some vs \<Rightarrow> vs @ [v]) else map_of m q)"
  by (auto simp: btree_push_def map_of_btree_insert split: option.splits)

lemma btree_push_ok: "btree_ok m \<Longrightarrow> btree_ok (btree_push k v m)"
  by (auto simp: btree_push_def btree_insert_ok split: option.splits)

lemma parts_by_disk_snoc: "parts_by_disk (ps @ [p]) = btree_push (cp_disk_name p) (cp_part_info p) (parts_by_disk ps)"
  by (simp add: parts_by_disk_def)

lemma parts_by_disk_ok: "btree_ok (parts_by_disk ps)"
  by (induction ps rule: rev_induct) (simp_all add: parts_by_disk_snoc btree_push_ok, simp add: parts_by_disk_def btree_ok_def)

lemma parts_by_disk_lookup:
  "map_of (parts_by_disk ps) d =
     (let xs = map cp_part_info (filter (\<lambda>cp. cp_disk_name cp = d) ps) in if xs = [] then None else Some xs)"
proof (induction ps rule: rev_induct)
  case (snoc p ps)
  then show ?case by (auto simp: parts_by_disk_snoc btree_push_lookup Let_def split: if_splits option.splits)
qed (simp add: parts_by_disk_def)

text \<open>The parts of a table in the manifest are the parts collected for it, disk by disk and in order.\<close>

lemma parts_by_disk_parts:
  "(d, xs) \<in> set (parts_by_disk ps) \<longleftrightarrow> xs = map cp_part_info (filter (\<lambda>cp. cp_disk_name cp = d) ps) \<and> xs \<noteq> []"
  unfolding btree_ok_map_of[OF parts_by_disk_ok] by (auto simp: parts_by_disk_lookup Let_def)

lemma all_parts_empty: "list_all (\<lambda>(_, v). v = []) (parts_by_disk ps) \<Longrightarrow> ps = []"
proof (rule ccontr)
  assume all: "list_all (\<lambda>(_, v). v = []) (parts_by_disk ps)" and "ps \<noteq> []"
  then obtain p where "p \<in> set ps" by (cases ps) auto
  then have "map cp_part_info (filter (\<lambda>cp. cp_disk_name cp = cp_disk_name p) ps) \<noteq> []"
    by (auto simp: filter_empty_conv)
  then have "(cp_disk_name p, map cp_part_info (filter (\<lambda>cp. cp_disk_name cp = cp_disk_name p) ps)) \<in> set (parts_by_disk ps)"
    by (simp add: parts_by_disk_parts)
  then show False using all \<open>map _ _ \<noteq> []\<close> by (auto simp: list_all_iff)
qed

lemma data_table_never_zero:
  "\<not> (list_all (\<lambda>(_, v). v = []) (tm_parts (data_table_manifest row ms deps parts))
      \<and> 0 < tm_total_bytes (data_table_manifest row ms deps parts))"
  using all_parts_empty[of parts] by (auto simp: data_table_manifest_def)

section \<open>Tasks\<close>

text \<open>What FREEZE may do: it holds at most the freeze asked for, releases none, and holds it when a whole-table statement succeeds.\<close>

definition freeze_contract :: "('s \<Rightarrow> FreezeInfo set) \<Rightarrow> 's freezer \<Rightarrow> bool" where
  "freeze_contract held frz \<longleftrightarrow>
     (\<forall>s i p. held s \<subseteq> held (snd (frz s i p)) \<and> held (snd (frz s i p)) \<subseteq> insert i (held s))
     \<and> (\<forall>s i. \<not> isl (fst (frz s i None)) \<longrightarrow> i \<in> held (snd (frz s i None)))"

lemma freeze_contractD:
  assumes "freeze_contract held frz" and "frz s i p = (r, s')"
  shows "held s \<subseteq> held s'" and "held s' \<subseteq> insert i (held s)" and "p = None \<Longrightarrow> r = Inr u \<Longrightarrow> i \<in> held s'"
  using assms unfolding freeze_contract_def by (metis fst_conv snd_conv isl_def old.sum.distinct(2))+

text \<open>A freeze is accounted for: it was held before, it is in the registry, or a statement for it failed.\<close>

definition accounted :: "('s \<Rightarrow> FreezeInfo set) \<Rightarrow> 's freezer \<Rightarrow> 's \<Rightarrow> FreezeInfo list \<Rightarrow> FreezeInfo \<Rightarrow> bool" where
  "accounted held frz s reg i \<longleftrightarrow> i \<in> held s \<or> i \<in> set reg \<or> (\<exists>s p. isl (fst (frz s i p)))"

lemma set_record_freeze [simp]: "set (record_freeze i reg) = insert i (set reg)"
  by (auto simp: record_freeze_def)

definition reg_grows :: "('s \<Rightarrow> FreezeInfo set) \<Rightarrow> 's freezer \<Rightarrow> FreezeInfo list \<Rightarrow> 's \<Rightarrow> FreezeInfo list \<Rightarrow> 's \<Rightarrow> bool" where
  "reg_grows held frz reg s reg' s' \<longleftrightarrow>
     set reg \<subseteq> set reg' \<and> held s \<subseteq> held s' \<and> (\<forall>i \<in> held s'. accounted held frz s reg' i)"

lemma reg_grows_refl [simp]: "reg_grows held frz reg s reg s"
  by (simp add: reg_grows_def accounted_def)

lemma reg_grows_trans:
  "reg_grows held frz reg s reg1 s1 \<Longrightarrow> reg_grows held frz reg1 s1 reg2 s2 \<Longrightarrow> reg_grows held frz reg s reg2 s2"
  by (auto simp: reg_grows_def accounted_def)

lemma reg_grows_ok:
  assumes "freeze_contract held frz" and "frz s info p = (Inr u, s')"
  shows "reg_grows held frz reg s (record_freeze info reg) s'"
  using freeze_contractD(1,2)[OF assms] by (auto simp: reg_grows_def accounted_def)

lemma reg_grows_error:
  assumes "freeze_contract held frz" and "frz s info p = (Inl e, s')"
  shows "reg_grows held frz reg s reg s'"
proof -
  have "\<exists>s p. isl (fst (frz s info p))" using assms(2) by (metis fst_conv sum.disc(1))
  then show ?thesis using freeze_contractD(1,2)[OF assms] by (auto simp: reg_grows_def accounted_def)
qed

lemma freeze_partitions_grows:
  assumes con: "freeze_contract held frz"
  shows "freeze_partitions frz ign info pids reg s = (r, reg', s') \<Longrightarrow> reg_grows held frz reg s reg' s'"
proof (induction pids arbitrary: reg s r)
  case (Cons pid pids)
  obtain a s1 where f: "frz s info (Some pid) = (a, s1)" by force
  show ?case
  proof (cases a)
    case (Inl e)
    then show ?thesis
      using Cons f reg_grows_trans[OF reg_grows_error[OF con]] reg_grows_error[OF con] by (auto split: if_splits)
  next
    case (Inr u)
    obtain r2 where "freeze_partitions frz ign info pids (record_freeze info reg) s1 = (r2, reg', s')"
      using Cons.prems f Inr by (auto split: prod.splits sum.splits)
    then show ?thesis using Cons.IH reg_grows_trans[OF reg_grows_ok[OF con f[unfolded Inr]]] by blast
  qed
qed auto

lemma freeze_table_task_grows:
  assumes con: "freeze_contract held frz"
    and "freeze_table_task frz walk disk_map ign info partitions from_discovery reg s = (r, reg', s')"
  shows "reg_grows held frz reg s reg' s'"
proof (cases "partitions = []")
  case True
  obtain a s1 where f: "frz s info None = (a, s1)" by force
  show ?thesis
    using assms(2) True f reg_grows_error[OF con, of s info None] reg_grows_ok[OF con, of s info None]
    by (cases a) (auto simp: freeze_table_task_def split: if_splits)
next
  case False
  obtain a reg1 s1 where f: "freeze_partitions frz ign info partitions reg s = (a, reg1, s1)" by (metis prod.collapse)
  show ?thesis
    using assms(2) False f freeze_partitions_grows[OF con f] by (cases a) (auto simp: freeze_table_task_def Let_def)
qed

lemma table_task_grows:
  assumes con: "freeze_contract held (cr_frz ce)" and "table_task ce ti ids reg s = (r, ids', reg', s')"
  shows "reg_grows held (cr_frz ce) reg s reg' s'"
proof -
  obtain ps dis where ep: "effective_partitions (cr_spec ce) (cr_freeze_by_part ce) (ti_discovered ti) = (ps, dis)" by force
  obtain a reg1 s1 where f: "freeze_table_task (cr_frz ce) (cr_walk ce) (cr_disk_map ce) (cr_ignore_not_exists ce)
      (freeze_info ce (ti_row ti)) ps dis reg s = (a, reg1, s1)" by (metis prod.collapse)
  have "reg' = reg1 \<and> s' = s1"
    using assms(2) ep f by (auto simp: table_task_def Let_def split: sum.splits prod.splits if_splits)
  then show ?thesis using freeze_table_task_grows[OF con f] by simp
qed

lemma run_tasks_grows:
  assumes con: "freeze_contract held (cr_frz ce)"
  shows "run_tasks ce tis ids reg s = (rs, ids', reg', s') \<Longrightarrow> reg_grows held (cr_frz ce) reg s reg' s'"
proof (induction tis arbitrary: ids reg s rs)
  case (Cons ti tis)
  obtain r ids1 reg1 s1 where t: "table_task ce ti ids reg s = (r, ids1, reg1, s1)" by (metis prod.collapse)
  obtain rs2 where "run_tasks ce tis ids1 reg1 s1 = (rs2, ids', reg', s')"
    using Cons.prems t by (auto split: prod.splits)
  then show ?case using Cons.IH reg_grows_trans[OF table_task_grows[OF con t]] by blast
qed auto

text \<open>What a task that enters a table into the manifest has done.\<close>

lemma table_task_Some:
  assumes con: "freeze_contract held (cr_frz ce)" and t: "table_task ce ti ids reg s = (Inr (Some (n, tm, stripped)), ids', reg', s')"
  obtains parts where "n = row_name (ti_row ti)" and "ti_collected ti = Inr (parts, stripped)"
    and "tm = data_table_manifest (ti_row ti) (cr_mutations ce n) (cr_deps ce n) parts"
    and "cr_spec ce = WholeTable \<Longrightarrow> freeze_info ce (ti_row ti) \<in> set reg' \<inter> held s'"
proof -
  obtain ps dis where ep: "effective_partitions (cr_spec ce) (cr_freeze_by_part ce) (ti_discovered ti) = (ps, dis)" by force
  obtain a reg1 s1 where f: "freeze_table_task (cr_frz ce) (cr_walk ce) (cr_disk_map ce) (cr_ignore_not_exists ce)
      (freeze_info ce (ti_row ti)) ps dis reg s = (a, reg1, s1)" by (metis prod.collapse)
  obtain parts staged where out: "a = Inr (True, staged)" "ti_collected ti = Inr (parts, stripped)" "n = row_name (ti_row ti)"
    "tm = data_table_manifest (ti_row ti) (cr_mutations ce n) (cr_deps ce n) parts" "reg' = reg1" "s' = s1"
    using t ep f by (auto simp: table_task_def Let_def split: sum.splits prod.splits if_splits)
  have "freeze_info ce (ti_row ti) \<in> set reg' \<inter> held s'" if w: "cr_spec ce = WholeTable"
  proof -
    have "ps = []" using ep w by (simp add: effective_partitions_def)
    moreover obtain b s2 where z: "cr_frz ce s (freeze_info ce (ti_row ti)) None = (b, s2)" by force
    ultimately show ?thesis
      using f out freeze_contractD(3)[OF con z] by (cases b) (auto simp: freeze_table_task_def split: if_splits)
  qed
  then show thesis using that out by blast
qed

lemma run_tasks_Some:
  assumes con: "freeze_contract held (cr_frz ce)"
  shows "run_tasks ce tis ids reg s = (rs, ids', reg', s') \<Longrightarrow> Inr (Some (n, tm, stripped)) \<in> set rs \<Longrightarrow>
    \<exists>ti\<in>set tis. \<exists>parts. n = row_name (ti_row ti) \<and> ti_collected ti = Inr (parts, stripped)
      \<and> tm = data_table_manifest (ti_row ti) (cr_mutations ce n) (cr_deps ce n) parts
      \<and> (cr_spec ce = WholeTable \<longrightarrow> freeze_info ce (ti_row ti) \<in> set reg' \<inter> held s')"
proof (induction tis arbitrary: ids reg s rs)
  case (Cons ti tis)
  obtain r ids1 reg1 s1 where t: "table_task ce ti ids reg s = (r, ids1, reg1, s1)" by (metis prod.collapse)
  obtain rs2 where rest: "run_tasks ce tis ids1 reg1 s1 = (rs2, ids', reg', s')" and rs: "rs = r # rs2"
    using Cons.prems t by (auto split: prod.splits)
  have grow: "set reg1 \<subseteq> set reg'" "held s1 \<subseteq> held s'"
    using run_tasks_grows[OF con rest] by (auto simp: reg_grows_def)
  show ?case
  proof (cases "r = Inr (Some (n, tm, stripped))")
    case True
    then obtain parts where "n = row_name (ti_row ti)" "ti_collected ti = Inr (parts, stripped)"
        "tm = data_table_manifest (ti_row ti) (cr_mutations ce n) (cr_deps ce n) parts"
        "cr_spec ce = WholeTable \<Longrightarrow> freeze_info ce (ti_row ti) \<in> set reg1 \<inter> held s1"
      using table_task_Some[OF con t[unfolded True]] by metis
    then show ?thesis using grow by (intro bexI[of _ ti] exI[of _ parts]) auto
  next
    case False
    then show ?thesis using Cons.IH[OF rest] Cons.prems(2) rs by auto
  qed
qed auto

lemma set_btree_insert: "set (btree_insert k v m) \<subseteq> insert (k, v) (set m)"
  by (induction k v m rule: btree_insert.induct) auto

lemma take_results_tables:
  "(n, tm) \<in> set (rs_tables (fold take_result results rs)) \<Longrightarrow>
     (n, tm) \<in> set (rs_tables rs) \<or> (\<exists>stripped. Inr (Some (n, tm, stripped)) \<in> set results)"
proof (induction results arbitrary: rs)
  case (Cons r results)
  have "(n, tm) \<in> set (rs_tables (take_result r rs)) \<Longrightarrow>
      (n, tm) \<in> set (rs_tables rs) \<or> (\<exists>stripped. r = Inr (Some (n, tm, stripped)))"
    using set_btree_insert by (fastforce simp: take_result_def split: sum.splits option.splits)
  then show ?case using Cons.IH[of "take_result r rs"] Cons.prems by auto
qed simp

lemma take_results_zero:
  "(\<And>n tm stripped. Inr (Some (n, tm, stripped)) \<in> set results \<Longrightarrow>
       \<exists>row ms deps parts. tm = data_table_manifest row ms deps parts) \<Longrightarrow>
     rs_zero_parts (fold take_result results rs) = rs_zero_parts rs"
proof (induction results arbitrary: rs)
  case (Cons r results)
  have "rs_zero_parts (take_result r rs) = rs_zero_parts rs"
  proof (cases "\<exists>n tm stripped. r = Inr (Some (n, tm, stripped))")
    case True
    then obtain n tm stripped where r: "r = Inr (Some (n, tm, stripped))" by blast
    then obtain row ms deps parts where "tm = data_table_manifest row ms deps parts" using Cons.prems by force
    then show ?thesis using data_table_never_zero[of row ms deps parts] by (auto simp: take_result_def r)
  next
    case False
    then show ?thesis by (auto simp: take_result_def split: sum.splits option.splits)
  qed
  moreover have "rs_zero_parts (fold take_result results (take_result r rs)) = rs_zero_parts (take_result r rs)"
    by (rule Cons.IH, rule Cons.prems, erule list.set_intros(2))
  ultimately show ?case by simp
qed simp

lemma split_tables_metadata: "(n, tm) \<in> set (fst (split_tables schema_only deps tables)) \<Longrightarrow> tm_parts tm = []"
proof -
  let ?f = "\<lambda>row m. if \<not> schema_only \<and> is_data_engine (tr_engine row) then m
     else btree_insert (row_name row) (metadata_table_manifest row (deps (row_name row))) m"
  have "(\<forall>(n, tm) \<in> set m. tm_parts tm = []) \<Longrightarrow> \<forall>(n, tm) \<in> set (fold ?f tables m). tm_parts tm = []" for m
  proof (induction tables arbitrary: m)
    case (Cons row tables)
    then have "\<forall>(n, tm) \<in> set (?f row m). tm_parts tm = []"
      using set_btree_insert[of "row_name row" "metadata_table_manifest row (deps (row_name row))" m]
      by (auto simp: metadata_table_manifest_def)
    then show ?case using Cons.IH by simp
  qed simp
  from this[of "[]"] show "(n, tm) \<in> set (fst (split_tables schema_only deps tables)) \<Longrightarrow> tm_parts tm = []"
    by (auto simp: split_tables_def)
qed

lemma create_Ok:
  assumes "create ce inputs tables dir_exists schema_only defer_s3 ttl e e' tail_ok w = (Inr tms, w')"
  obtains results ids reg s where
    "run_tasks ce (map inputs (snd (split_tables schema_only (cr_deps ce) tables))) {} [] (w_server w) = (results, ids, reg, s)"
    and "tms = rs_tables (fold take_result results \<lparr>rs_tables = fst (split_tables schema_only (cr_deps ce) tables),
                rs_error = None, rs_zero_parts = [], rs_stripped = {}\<rparr>)"
    and "partition_check (cr_spec ce) (cr_allow_empty ce) ids None = None" and "tail_ok"
    and "w' = create_run (cr_unf ce) e (cr_backup_name ce) ttl defer_s3 (tables_with_s3_parts tms) reg e' True (w\<lparr>w_server := s\<rparr>)"
proof -
  obtain md dt where sp: "split_tables schema_only (cr_deps ce) tables = (md, dt)" by force
  obtain results ids reg s where rt: "run_tasks ce (map inputs dt) {} [] (w_server w) = (results, ids, reg, s)"
    by (metis prod.collapse)
  show thesis
    using assms sp rt that by (auto simp: create_def Let_def split: if_splits option.splits)
qed

section \<open>Properties\<close>



text \<open>
  The list of tables that have data but no parts is always empty: the byte count it consults is the
  sum over the collected parts, not the size ClickHouse reports, so the summary is never logged.
\<close>

theorem create_zero_parts_never_reported:
  assumes "freeze_contract held (cr_frz ce)" and "run_tasks ce tis ids reg s = (results, ids', reg', s')"
  shows "rs_zero_parts (fold take_result results \<lparr>rs_tables = md, rs_error = None, rs_zero_parts = [], rs_stripped = {}\<rparr>) = []"
proof -
  have "rs_zero_parts (fold take_result results rs) = rs_zero_parts rs" for rs
    using run_tasks_Some[OF assms] by (intro take_results_zero) blast
  then show ?thesis by simp
qed

text \<open>Evidence for a partition: a part directory whose name starts with its id.\<close>

lemma verify_partitions_staged_iff:
  "pid \<in> verify_partitions_staged walk info disk_paths requested explicitly \<longleftrightarrow>
     pid \<in> set requested \<and> (\<exists>p \<in> snd ` set disk_paths. \<exists>n \<in> set (walk p (fi_freeze_name info)). starts_with n (pid @ ''_''))"
  by (auto simp: verify_partitions_staged_def partitions_with_shadow_evidence_def freeze_evidence_outcome_def Let_def list_ex_iff)

definition evidence :: "'s create_env \<Rightarrow> TableRow \<Rightarrow> string \<Rightarrow> bool" where
  "evidence ce row pid \<longleftrightarrow>
     (\<exists>p \<in> snd ` set (cr_disk_map ce). \<exists>n \<in> set (cr_walk ce p (fi_freeze_name (freeze_info ce row))). starts_with n (pid @ ''_''))"

lemma table_task_staged:
  assumes "table_task ce ti ids reg s = (r, ids', reg', s')" and "pid \<in> ids'"
  shows "pid \<in> ids \<or> evidence ce (ti_row ti) pid"
  using assms
  by (auto simp: table_task_def Let_def freeze_table_task_def evidence_def verify_partitions_staged_iff
      split: sum.splits prod.splits if_splits)

lemma run_tasks_staged:
  "run_tasks ce tis ids reg s = (rs, ids', reg', s') \<Longrightarrow> pid \<in> ids' \<Longrightarrow> pid \<in> ids \<or> (\<exists>ti\<in>set tis. evidence ce (ti_row ti) pid)"
proof (induction tis arbitrary: ids reg s rs)
  case (Cons ti tis)
  obtain r ids1 reg1 s1 where t: "table_task ce ti ids reg s = (r, ids1, reg1, s1)" by (metis prod.collapse)
  obtain rs2 where "run_tasks ce tis ids1 reg1 s1 = (rs2, ids', reg', s')"
    using Cons.prems t by (auto split: prod.splits)
  then show ?case using Cons.IH Cons.prems(2) table_task_staged[OF t] by fastforce
qed simp

text \<open>
  A backup of named partitions is not silently partial: when it succeeds and empty backups are not
  allowed, every partition asked for has a part staged for some table of the backup.
\<close>

theorem create_partitions_staged:
  assumes run: "create ce inputs tables dir_exists schema_only defer_s3 ttl e e' tail_ok w = (Inr tms, w')"
    and "cr_spec ce = Ids requested" and "\<not> cr_allow_empty ce" and "pid \<in> set requested"
  shows "\<exists>row\<in>set tables. evidence ce (ti_row (inputs row)) pid"
proof -
  obtain results ids reg s where
    rt: "run_tasks ce (map inputs (snd (split_tables schema_only (cr_deps ce) tables))) {} [] (w_server w) = (results, ids, reg, s)"
    and chk: "partition_check (cr_spec ce) (cr_allow_empty ce) ids None = None"
    using create_Ok[OF run] by metis
  have "pid \<in> ids"
    using chk assms(2-4) by (auto simp: partition_check_def unmatched_explicit_partitions_def filter_empty_conv Let_def split: if_splits)
  then show ?thesis using run_tasks_staged[OF rt] by (auto simp: split_tables_def)
qed

text \<open>Parsing of the partition list.\<close>

theorem parse_partition_list_correct:
  "(case parse_partition_list partitions of
      Ids ps \<Rightarrow> ps \<noteq> [] \<and> [] \<notin> set ps \<and> ps \<noteq> [''all'']
        \<and> (\<exists>s. partitions = Some s \<and> ps = filter (\<lambda>p. p \<noteq> []) (map trim (split_on CHR '','' s)))
    | WholeTable \<Rightarrow> (\<exists>s. partitions = Some s \<and> filter (\<lambda>p. p \<noteq> []) (map trim (split_on CHR '','' s)) = [''all''])
    | Unspecified \<Rightarrow> (\<forall>s. partitions = Some s \<longrightarrow> filter (\<lambda>p. p \<noteq> []) (map trim (split_on CHR '','' s)) = []))"
proof (cases partitions)
  case (Some s)
  define ps where "ps = filter (\<lambda>p. p \<noteq> []) (map trim (split_on CHR '','' s))"
  have "trim [] = []" by code_simp
  then have nil: "s = [] \<Longrightarrow> ps = []" by (simp add: ps_def)
  have mem: "[] \<notin> set ps" by (simp add: ps_def)
  have "parse_partition_list partitions =
      (case ps of [] \<Rightarrow> Unspecified | [p] \<Rightarrow> if p = ''all'' then WholeTable else Ids [p] | _ \<Rightarrow> Ids ps)"
    using nil by (cases "s = []") (simp_all add: parse_partition_list_def Some ps_def[symmetric] Let_def)
  then show ?thesis using mem unfolding Some by (auto simp: ps_def[symmetric] split: list.splits)
qed (simp add: parse_partition_list_def)

section \<open>A backup of two tables\<close>

definition sample_freeze_stmt :: "FreezeInfo list freezer" where
  "sample_freeze_stmt s i p = (Inr (), i # s)"

lemma sample_freeze_contract: "freeze_contract set sample_freeze_stmt"
  by (auto simp: freeze_contract_def sample_freeze_stmt_def)

definition sample_ce :: "PartitionSpec \<Rightarrow> FreezeInfo list create_env" where
  "sample_ce spec = \<lparr>cr_backup_name = ''b'', cr_spec = spec, cr_freeze_by_part = False, cr_ignore_not_exists = True,
     cr_allow_empty = False, cr_disk_map = [(''default'', ''/ch'')], cr_walk = (\<lambda>_ _. [''202401_1_1_0'']),
     cr_mutations = (\<lambda>_. []), cr_deps = (\<lambda>_. []), cr_frz = sample_freeze_stmt, cr_unf = sample_unfreeze\<rparr>"

definition sample_row :: "string \<Rightarrow> TableRow" where
  "sample_row t = \<lparr>tr_database = ''db'', tr_name = t, tr_engine = ''MergeTree'', tr_create_table_query = [], tr_uuid = [],
     tr_data_paths = [], tr_total_bytes = None\<rparr>"

definition sample_inputs :: "TableRow \<Rightarrow> table_input" where
  "sample_inputs row = \<lparr>ti_row = row, ti_discovered = Inr [],
     ti_collected = Inr ([\<lparr>cp_database = ''db'', cp_table = tr_name row,
        cp_part_info = with_s3_objects (PartInfo_new ''202401_1_1_0'' 4 5) [\<lparr>so_path = ''o'', so_size = 4, so_backup_key = []\<rparr>],
        cp_disk_name = ''default''\<rparr>], [])\<rparr>"

definition sample_penv :: env where
  "sample_penv = \<lparr>e_os = \<lparr>os_kill = (\<lambda>_. KillOk), os_stat = (\<lambda>_. None)\<rparr>, e_pid = 1, e_now = 1000, e_write = (\<lambda>_. True),
     e_remove = (\<lambda>_. True)\<rparr>"

definition empty_world :: "FreezeInfo list world" where
  "empty_world = \<lparr>w_recs = [], w_locks = [], w_server = []\<rparr>"

definition sample_create :: "PartitionSpec \<Rightarrow> (create_error + TableManifest btree_map) \<times> FreezeInfo list world" where
  "sample_create spec =
     create (sample_ce spec) sample_inputs [sample_row ''t'', sample_row ''u''] False False True 60 sample_penv sample_penv True empty_world"

lemma sample_ce_contracts:
  "unfreeze_contract set (cr_unf (sample_ce spec))" "freeze_contract set (cr_frz (sample_ce spec))"
  by (simp_all add: sample_ce_def sample_contract sample_freeze_contract)

lemma sample_fresh: "\<not> record_exists empty_world (cr_backup_name (sample_ce spec))"
  by (simp add: empty_world_def record_exists_def)

lemma sample_create_ok: "sample_create spec = (Inr (projr (fst (sample_create spec))), snd (sample_create spec))"
  if "spec = WholeTable \<or> spec = Ids [''202401'']"
proof -
  have "\<not> isl (fst (sample_create WholeTable))" "\<not> isl (fst (sample_create (Ids [''202401''])))" by code_simp+
  then show ?thesis using that by (metis prod.collapse sum.collapse(2))
qed



theorem create_zero_parts_never_reported_witness:
  "rs_zero_parts (fold take_result (fst (run_tasks (sample_ce WholeTable) (map sample_inputs [sample_row ''t'']) {} [] []))
     \<lparr>rs_tables = [], rs_error = None, rs_zero_parts = [], rs_stripped = {}\<rparr>) = []"
  using create_zero_parts_never_reported[OF sample_ce_contracts(2)] by (metis prod.collapse)

theorem create_partitions_staged_witness:
  "\<exists>row\<in>{sample_row ''t'', sample_row ''u''}. evidence (sample_ce (Ids [''202401''])) row ''202401''"
  using create_partitions_staged[OF sample_create_ok[unfolded sample_create_def], of "Ids [''202401'']" "[''202401'']" "''202401''"]
  by (auto simp: sample_ce_def sample_inputs_def)

end
