(* ===== verification/Watch.thy ===== *)
theory Watch
  imports Listing Lock
begin

text \<open>
  Model of \<^verbatim>\<open>src/watch/mod.rs\<close> (name templates, classification of backups, the decision taken
  from the remote backups, the loop) with the duration parser of \<^verbatim>\<open>src/config.rs\<close>, the name
  checks of \<^verbatim>\<open>src/server/state.rs\<close> and the retention counts of \<^verbatim>\<open>src/list.rs\<close>.

  Time is in nanoseconds. Parameters: \<open>fmt\<close>, the strftime of chrono at the current time, and
  \<open>glob\<close>, the glob crate (\<open>None\<close> when it rejects the pattern). One iteration of the loop is a
  function of the answers of its environment, the record \<open>cycle\<close>; it returns the context, the events
  in order and the exit, if any. The \<^verbatim>\<open>PidLock\<close> guard of an iteration lives to the end of the
  loop body, where its release is an event. Metrics and log lines are not modelled.
\<close>

section \<open>Definitions\<close>

subsection \<open>Durations and names\<close>

definition parse_duration_secs :: "string \<Rightarrow> u64 option" where
  "parse_duration_secs s0 =
     (let s = trim s0 in
      if s = [] then None
      else let (num_str, multiplier) =
             (case strip_suffix ''h'' s of Some n \<Rightarrow> (n, 3600)
              | None \<Rightarrow> (case strip_suffix ''m'' s of Some n \<Rightarrow> (n, 60)
                 | None \<Rightarrow> (case strip_suffix ''s'' s of Some n \<Rightarrow> (n, 1) | None \<Rightarrow> (s, 1))))
           in map_option (\<lambda>num. sat_mul num multiplier) (parse_u64 num_str))"

datatype name_error = NameEmpty | NameDotDot | NameSlash | NameBackslash | NameNul | NameDot | NameReserved

definition validate_backup_name :: "string \<Rightarrow> name_error + unit" where
  "validate_backup_name name =
     (if name = [] then Inl NameEmpty
      else if str_contains name ''..'' then Inl NameDotDot
      else if str_contains name ''/'' then Inl NameSlash
      else if str_contains name [CHR 0x5C] then Inl NameBackslash
      else if str_contains name [CHR 0x00] then Inl NameNul
      else if name = ''.'' then Inl NameDot
      else Inr ())"

definition reject_reserved_backup_name :: "string \<Rightarrow> name_error + unit" where
  "reject_reserved_backup_name name = (if name = ''latest'' \<or> name = ''previous'' then Inl NameReserved else Inr ())"

subsection \<open>Name templates\<close>

definition expand_macro :: "(string \<Rightarrow> string) \<Rightarrow> (string \<times> string) list \<Rightarrow> string \<Rightarrow> string \<Rightarrow> string" where
  "expand_macro fmt macros backup_type content =
     (if content = ''type'' then backup_type
      else case strip_prefix ''time:'' content of
        Some format_str \<Rightarrow> fmt format_str
      | None \<Rightarrow> (case map_of macros content of Some value \<Rightarrow> value | None \<Rightarrow> ''{'' @ content @ ''}''))"

lemma split_once_shorter: "split_once c s = Some (a, b) \<Longrightarrow> length b < length s"
  by (simp add: split_once_Some)

function resolve_name_template ::
    "(string \<Rightarrow> string) \<Rightarrow> (string \<times> string) list \<Rightarrow> string \<Rightarrow> string \<Rightarrow> string" where
  "resolve_name_template fmt macros backup_type [] = []"
| "resolve_name_template fmt macros backup_type (ch # chars) =
     (if ch = CHR ''{''
      then (case split_once CHR ''}'' chars of
              None \<Rightarrow> ch # chars
            | Some (content, rest) \<Rightarrow>
                expand_macro fmt macros backup_type content @ resolve_name_template fmt macros backup_type rest)
      else ch # resolve_name_template fmt macros backup_type chars)"
  by pat_completeness auto
termination
  by (relation "measure (\<lambda>(_, _, _, s). length s)") (auto dest: split_once_shorter)

definition escaped_glob_char :: "char \<Rightarrow> string" where
  "escaped_glob_char ch = (if ch \<in> {CHR ''*'', CHR ''?'', CHR ''['', CHR '']''} then [CHR ''['', ch, CHR '']''] else [ch])"

definition macro_glob :: "string \<Rightarrow> string \<Rightarrow> string" where
  "macro_glob candidate macro_name =
     (if takeWhile (\<lambda>c. c \<noteq> CHR '':'') macro_name = ''type'' then concat (map escaped_glob_char candidate) else ''*'')"

function type_glob :: "string \<Rightarrow> string \<Rightarrow> string" where
  "type_glob candidate [] = []"
| "type_glob candidate (ch # chars) =
     (if ch = CHR ''{''
      then (case split_once CHR ''}'' chars of
              None \<Rightarrow> macro_glob candidate chars
            | Some (macro_name, rest) \<Rightarrow> macro_glob candidate macro_name @ type_glob candidate rest)
      else escaped_glob_char ch @ type_glob candidate chars)"
  by pat_completeness auto
termination
  by (relation "measure (\<lambda>(_, s). length s)") (auto dest: split_once_shorter)

definition classify_backup_type :: "(string \<Rightarrow> string \<Rightarrow> bool option) \<Rightarrow> string \<Rightarrow> string \<Rightarrow> string option" where
  "classify_backup_type glob template name =
     (if \<not> str_contains template ''{type}'' then None
      else let matches = (\<lambda>candidate. case glob (type_glob candidate template) name of Some m \<Rightarrow> m | None \<Rightarrow> False);
               full_matches = matches ''full''; incr_matches = matches ''incr''
           in if full_matches \<and> \<not> incr_matches then Some ''full''
              else if \<not> full_matches \<and> incr_matches then Some ''incr'' else None)"

definition resolve_template_prefix :: "string \<Rightarrow> string" where
  "resolve_template_prefix name_template = takeWhile (\<lambda>c. c \<noteq> CHR ''{'') name_template"

subsection \<open>The decision\<close>

datatype ResumeDecision = FullNow | IncrNow string | SleepThen int string

definition elapsed :: "int \<Rightarrow> int \<Rightarrow> int" where
  "elapsed now ts = (if now < ts then 0 else now - ts)"

definition recency :: "BackupSummary \<Rightarrow> int" where
  "recency b = (case bs_timestamp b of Some t \<Rightarrow> - t | None \<Rightarrow> 0)"

definition watch_matching :: "string \<Rightarrow> BackupSummary list \<Rightarrow> BackupSummary list" where
  "watch_matching name_template backups =
     (let pre = resolve_template_prefix name_template
      in sort_by_key recency
           (filter (\<lambda>b. \<not> bs_is_broken b \<and> bs_timestamp b \<noteq> None \<and> (pre = [] \<or> starts_with (bs_name b) pre)) backups))"

definition resume_state ::
    "(string \<Rightarrow> string \<Rightarrow> bool option) \<Rightarrow> BackupSummary list \<Rightarrow> string \<Rightarrow> int \<Rightarrow> int \<Rightarrow> int \<Rightarrow> ResumeDecision" where
  "resume_state glob backups name_template watch_interval full_interval now =
     (let matching = watch_matching name_template backups in
      case matching of
        [] \<Rightarrow> FullNow
      | most_recent # _ \<Rightarrow>
          (let last_full = find (\<lambda>b. classify_backup_type glob name_template (bs_name b) = Some ''full'') matching;
               last_incr = find (\<lambda>b. classify_backup_type glob name_template (bs_name b) = Some ''incr'') matching
           in case Option.bind last_full bs_timestamp of
                None \<Rightarrow> FullNow
              | Some full_ts \<Rightarrow>
                  if full_interval \<le> elapsed now full_ts then FullNow
                  else let last_backup_ts =
                             (case Option.bind last_incr bs_timestamp of
                                Some incr_ts \<Rightarrow> if full_ts < incr_ts then incr_ts else full_ts
                              | None \<Rightarrow> full_ts);
                           last_elapsed = elapsed now last_backup_ts
                       in if watch_interval \<le> last_elapsed then IncrNow (bs_name most_recent)
                          else SleepThen (watch_interval - last_elapsed) ''incr''))"

subsection \<open>The loop\<close>

datatype WatchState = Idle | CreatingFull | CreatingIncr | Uploading | Cleaning | Sleeping | Error

datatype WatchLoopExit = Shutdown | MaxErrors | Stopped

definition watch_state_name :: "WatchState \<Rightarrow> string" where
  "watch_state_name s =
     (case s of Idle \<Rightarrow> ''idle'' | CreatingFull \<Rightarrow> ''creating_full'' | CreatingIncr \<Rightarrow> ''creating_incr''
      | Uploading \<Rightarrow> ''uploading'' | Cleaning \<Rightarrow> ''cleaning'' | Sleeping \<Rightarrow> ''sleeping'' | Error \<Rightarrow> ''error'')"

definition effective_retention_local :: "int \<Rightarrow> int \<Rightarrow> int" where
  "effective_retention_local retention general = (if retention \<noteq> 0 then retention else general)"

definition effective_retention_remote :: "int \<Rightarrow> int \<Rightarrow> int" where
  "effective_retention_remote retention general = (if retention \<noteq> 0 then retention else general)"

record watch_config =
  wc_watch_interval :: string
  wc_full_interval :: string
  wc_retry_interval :: string
  wc_name_template :: string
  wc_max_errors :: u32
  wc_delete_local :: bool
  wc_keep_local :: "int \<times> int"
  wc_keep_remote :: "int \<times> int"

record WatchContext =
  wx_config :: watch_config
  wx_macros :: "(string \<times> string) list"
  wx_state :: WatchState
  wx_errors :: u32
  wx_force_full :: bool
  wx_last_backup :: "string option"

text \<open>What arrives during a sleep, in order; a reload comes with what loading it finds.\<close>

record reload =
  rl_config :: "watch_config option"
  rl_clients_ok :: bool
  rl_macros :: "(string \<times> string) list"

datatype signal = ShutdownChanged bool | ReloadChanged bool reload

record cycle =
  cy_shutdown :: bool
  cy_list :: "BackupSummary list option"
  cy_now :: int
  cy_fmt :: "string \<Rightarrow> string"
  cy_lock_ok :: bool
  cy_create_ok :: bool
  cy_upload_ok :: bool
  cy_signals :: "signal list"

datatype watch_event =
  Locked string | Created string string | Uploaded string "string option" | DeletedLocal string
| RetainedLocal int | RetainedRemote int | Slept int | Unlocked string

definition apply_config_reload :: "reload \<Rightarrow> WatchContext \<Rightarrow> WatchContext" where
  "apply_config_reload r ctx =
     (case rl_config r of
        None \<Rightarrow> ctx
      | Some new_config \<Rightarrow> if \<not> rl_clients_ok r then ctx else ctx\<lparr>wx_macros := rl_macros r, wx_config := new_config\<rparr>)"

fun interruptible_sleep :: "signal list \<Rightarrow> WatchContext \<Rightarrow> WatchContext \<times> WatchLoopExit option" where
  "interruptible_sleep [] ctx = (ctx, None)"
| "interruptible_sleep (ShutdownChanged b # sigs) ctx = (if b then (ctx, Some Shutdown) else interruptible_sleep sigs ctx)"
| "interruptible_sleep (ReloadChanged b r # sigs) ctx =
     interruptible_sleep sigs (if b then apply_config_reload r ctx else ctx)"

definition handle_error :: "signal list \<Rightarrow> WatchContext \<Rightarrow> WatchContext \<times> WatchLoopExit option" where
  "handle_error sigs ctx =
     interruptible_sleep sigs (ctx\<lparr>wx_errors := wx_errors ctx + 1, wx_force_full := True, wx_state := Error\<rparr>)"

definition interval :: "string \<Rightarrow> u64 \<Rightarrow> int" where
  "interval s dflt = uint (case parse_duration_secs s of Some n \<Rightarrow> n | None \<Rightarrow> dflt) * 10 ^ 9"

text \<open>After the upload: local deletion, retention, the reset of the error state and the sleep.\<close>

definition finish_cycle ::
    "cycle \<Rightarrow> int \<Rightarrow> string \<Rightarrow> string \<Rightarrow> watch_event list \<Rightarrow> WatchContext
     \<Rightarrow> WatchContext \<times> watch_event list \<times> WatchLoopExit option" where
  "finish_cycle cy watch_interval backup_name backup_type evs ctx =
     (let cfg = wx_config ctx;
          evs = evs @ (if wc_delete_local cfg then [DeletedLocal backup_name] else []);
          keep_local = case_prod effective_retention_local (wc_keep_local cfg);
          keep_remote = case_prod effective_retention_remote (wc_keep_remote cfg);
          evs = evs @ (if 0 < keep_local then [RetainedLocal keep_local] else [])
            @ (if 0 < keep_remote then [RetainedRemote keep_remote] else []);
          ctx = ctx\<lparr>wx_errors := 0,
                    wx_force_full := (if backup_type = ''full'' then False else wx_force_full ctx),
                    wx_last_backup := Some backup_name, wx_state := Sleeping\<rparr>;
          (ctx', exit) = interruptible_sleep (cy_signals cy) ctx
      in (ctx', evs @ [Slept watch_interval], exit))"

text \<open>From the choice of the backup to the end of the loop body.\<close>

definition backup_cycle ::
    "cycle \<Rightarrow> int \<Rightarrow> int \<Rightarrow> string option \<Rightarrow> WatchContext \<Rightarrow> WatchContext \<times> watch_event list \<times> WatchLoopExit option" where
  "backup_cycle cy watch_interval retry_interval decided ctx =
     (let cfg = wx_config ctx;
          diff_from = (if wx_force_full ctx then None else decided);
          backup_type = (if diff_from = None then ''full'' else ''incr'');
          backup_name = resolve_name_template (cy_fmt cy) (wx_macros ctx) backup_type (wc_name_template cfg);
          fail = (\<lambda>ctx evs. let (ctx', exit) = handle_error (cy_signals cy) ctx in (ctx', evs @ [Slept retry_interval], exit));
          unlock = (\<lambda>(ctx, evs, exit). (ctx, evs @ [Unlocked backup_name], exit))
      in case validate_backup_name backup_name of
           Inl _ \<Rightarrow> fail ctx []
         | Inr _ \<Rightarrow>
             if \<not> cy_lock_ok cy then fail ctx []
             else unlock (
               let ctx = ctx\<lparr>wx_state := (if backup_type = ''full'' then CreatingFull else CreatingIncr)\<rparr>;
                   evs = [Locked backup_name]
               in if \<not> cy_create_ok cy then fail ctx evs
                  else
                    let ctx = ctx\<lparr>wx_state := Uploading\<rparr>; evs = evs @ [Created backup_name backup_type] in
                    if \<not> cy_upload_ok cy then fail ctx evs
                    else
                      finish_cycle cy watch_interval backup_name backup_type (evs @ [Uploaded backup_name diff_from]) ctx))"

definition watch_iteration ::
    "(string \<Rightarrow> string \<Rightarrow> bool option) \<Rightarrow> cycle \<Rightarrow> WatchContext \<Rightarrow> WatchContext \<times> watch_event list \<times> WatchLoopExit option" where
  "watch_iteration glob cy ctx =
     (let cfg = wx_config ctx in
      if wc_max_errors cfg \<le> wx_errors ctx \<and> 0 < wc_max_errors cfg then (ctx, [], Some MaxErrors)
      else if cy_shutdown cy then (ctx\<lparr>wx_state := Idle\<rparr>, [], Some Shutdown)
      else
        let watch_interval = interval (wc_watch_interval cfg) 3600;
            full_interval = interval (wc_full_interval cfg) 86400;
            retry_interval = interval (wc_retry_interval cfg) 300;
            ctx = ctx\<lparr>wx_state := Idle\<rparr>
        in case cy_list cy of
             None \<Rightarrow> (let (ctx', exit) = handle_error (cy_signals cy) ctx in (ctx', [Slept retry_interval], exit))
           | Some remote_backups \<Rightarrow>
               (case resume_state glob remote_backups (wc_name_template cfg) watch_interval full_interval (cy_now cy) of
                  SleepThen remaining _ \<Rightarrow>
                    (let (ctx', exit) = interruptible_sleep (cy_signals cy) (ctx\<lparr>wx_state := Sleeping\<rparr>)
                     in (ctx', [Slept remaining], exit))
                | FullNow \<Rightarrow> backup_cycle cy watch_interval retry_interval None ctx
                | IncrNow diff_from \<Rightarrow> backup_cycle cy watch_interval retry_interval (Some diff_from) ctx))"

inductive watch_step :: "(string \<Rightarrow> string \<Rightarrow> bool option) \<Rightarrow> WatchContext \<Rightarrow> WatchContext \<Rightarrow> bool" for glob where
  iteration: "watch_iteration glob cy ctx = (ctx', evs, None) \<Longrightarrow> watch_step glob ctx ctx'"

section \<open>The decision\<close>

definition usable :: "string \<Rightarrow> BackupSummary \<Rightarrow> int \<Rightarrow> bool" where
  "usable name_template b ts \<longleftrightarrow> \<not> bs_is_broken b \<and> bs_timestamp b = Some ts
     \<and> starts_with (bs_name b) (resolve_template_prefix name_template)"

lemma watch_matching_set:
  "b \<in> set (watch_matching tmpl backups) \<longleftrightarrow> b \<in> set backups \<and> (\<exists>ts. usable tmpl b ts)"
  by (auto simp: watch_matching_def usable_def Let_def)

lemma watch_matching_newest:
  assumes "watch_matching tmpl backups = xs @ b # ys" and "b' \<in> set ys" and "usable tmpl b ts" and "usable tmpl b' ts'"
  shows "ts' \<le> ts"
proof -
  have "sorted_wrt (\<lambda>a b. recency a \<le> recency b) (xs @ b # ys)"
    unfolding assms(1)[symmetric] watch_matching_def Let_def by (rule sorted_sort_by_key)
  then show ?thesis using assms(2-) by (auto simp: sorted_wrt_append usable_def recency_def)
qed

lemma find_split: "find P xs = Some x \<longleftrightarrow> (\<exists>as bs. xs = as @ x # bs \<and> P x \<and> (\<forall>a \<in> set as. \<not> P a))"
proof (induction xs)
  case (Cons y xs)
  show ?case
  proof (cases "P y")
    case True
    then have "find P (y # xs) = Some x \<longleftrightarrow> y = x" by simp
    also have "\<dots> \<longleftrightarrow> (\<exists>as bs. y # xs = as @ x # bs \<and> P x \<and> (\<forall>a \<in> set as. \<not> P a))"
      using True by (auto simp: Cons_eq_append_conv intro: exI[of _ "[]"])
    finally show ?thesis .
  next
    case False
    then show ?thesis using Cons by (auto simp: Cons_eq_append_conv) (metis list.set_intros set_ConsD append_Cons)+
  qed
qed simp

text \<open>The first match in the ordered list is the newest backup of its kind.\<close>

lemma find_newest:
  assumes "find P (watch_matching tmpl backups) = Some b"
  obtains ts where "b \<in> set backups" "usable tmpl b ts" "P b"
    "\<And>b' ts'. b' \<in> set backups \<Longrightarrow> usable tmpl b' ts' \<Longrightarrow> P b' \<Longrightarrow> ts' \<le> ts"
proof -
  obtain as bs where split: "watch_matching tmpl backups = as @ b # bs" "P b" "\<forall>a \<in> set as. \<not> P a"
    using assms unfolding find_split by blast
  have "b \<in> set (watch_matching tmpl backups)" by (simp add: split(1))
  then obtain ts where b: "b \<in> set backups" "usable tmpl b ts" unfolding watch_matching_set by blast
  have "ts' \<le> ts" if b': "b' \<in> set backups" "usable tmpl b' ts'" "P b'" for b' ts'
  proof -
    have "b' \<in> set (as @ b # bs)" using b'(1,2) watch_matching_set[of b' tmpl backups] split(1) by auto
    then have "b' = b \<or> b' \<in> set bs" using split(3) b'(3) by auto
    then show ?thesis using watch_matching_newest[OF split(1) _ b(2) b'(2)] b(2) b'(2) by (auto simp: usable_def)
  qed
  then show thesis using that b split(2) by blast
qed

lemma find_absent:
  assumes "find P (watch_matching tmpl backups) = None" and "b \<in> set backups" and "usable tmpl b ts"
  shows "\<not> P b"
  using assms watch_matching_set[of b tmpl backups] by (auto simp: find_None_iff)

lemma elapsed_mono: "ts' \<le> ts \<Longrightarrow> elapsed now ts \<le> elapsed now ts'"
  by (simp add: elapsed_def)

lemma elapsed_nonneg: "0 \<le> elapsed now ts"
  by (simp add: elapsed_def)

section \<open>The loop\<close>

lemma sleep_keeps:
  "interruptible_sleep sigs ctx = (ctx', exit) \<Longrightarrow>
     wx_errors ctx' = wx_errors ctx \<and> wx_force_full ctx' = wx_force_full ctx \<and> wx_state ctx' = wx_state ctx"
  by (induction sigs ctx rule: interruptible_sleep.induct)
    (auto simp: apply_config_reload_def split: if_splits option.splits)

definition watch_inv :: "WatchContext \<Rightarrow> bool" where
  "watch_inv ctx \<longleftrightarrow> (wx_errors ctx \<noteq> 0 \<longrightarrow> wx_force_full ctx)"

lemma handle_error_inv: "handle_error sigs ctx = (ctx', exit) \<Longrightarrow> watch_inv ctx'"
  unfolding handle_error_def by (drule sleep_keeps) (simp add: watch_inv_def)

lemma backup_cycle_inv:
  "backup_cycle cy wi ri decided ctx = (ctx', evs, exit) \<Longrightarrow> watch_inv ctx'"
  unfolding backup_cycle_def finish_cycle_def Let_def
  by (auto split: sum.splits prod.splits if_splits dest!: handle_error_inv sleep_keeps simp: watch_inv_def)

text \<open>A lock that is taken is the first event of the iteration and its release, after the sleep, the last.\<close>

lemma backup_cycle_lock:
  assumes "backup_cycle cy wi ri decided ctx = (ctx', evs, exit)" and "Locked n \<in> set evs"
  shows "\<exists>mid d. evs = Locked n # mid @ [Slept d, Unlocked n]"
  using assms unfolding backup_cycle_def finish_cycle_def Let_def
  by (auto split: sum.splits prod.splits if_splits)

lemma backup_cycle_base:
  assumes "backup_cycle cy wi ri decided ctx = (ctx', evs, exit)"
  shows "Created n ty \<in> set evs \<Longrightarrow> ty = (if wx_force_full ctx \<or> decided = None then ''full'' else ''incr'')"
    and "Uploaded n b \<in> set evs \<Longrightarrow> b = (if wx_force_full ctx then None else decided)"
  using assms unfolding backup_cycle_def finish_cycle_def Let_def
  by (auto split: sum.splits prod.splits if_splits)

lemma watch_iteration_inv: "watch_inv ctx \<Longrightarrow> watch_iteration glob cy ctx = (ctx', evs, exit) \<Longrightarrow> watch_inv ctx'"
  unfolding watch_iteration_def Let_def
  by (auto split: if_splits option.splits ResumeDecision.splits prod.splits
      dest!: handle_error_inv backup_cycle_inv sleep_keeps simp: watch_inv_def)

definition watch_init :: "WatchContext \<Rightarrow> bool" where
  "watch_init ctx \<longleftrightarrow> wx_errors ctx = 0 \<and> \<not> wx_force_full ctx \<and> wx_state ctx = Idle"

interpretation watch: inv_system watch_init "watch_step glob" watch_inv for glob
proof unfold_locales
  show "watch_inv ctx" if "watch_init ctx" for ctx using that by (simp add: watch_init_def watch_inv_def)
  show "watch_inv ctx'" if "watch_inv ctx" "watch_step glob ctx ctx'" for ctx ctx'
    using that by (auto elim!: watch_step.cases intro: watch_iteration_inv)
qed

definition last_classified :: "(BackupSummary \<Rightarrow> string option) \<Rightarrow> string \<Rightarrow> BackupSummary list \<Rightarrow> int \<Rightarrow> int" where
  "last_classified kind tmpl backups fts =
     (case Option.bind (find (\<lambda>b. kind b = Some ''incr'') (watch_matching tmpl backups)) bs_timestamp of
        Some its \<Rightarrow> if fts < its then its else fts
      | None \<Rightarrow> fts)"

lemma last_classified_newest:
  assumes full: "f \<in> set backups" "usable tmpl f fts" "kind f = Some ''full''"
    and newest: "\<And>b ts. b \<in> set backups \<Longrightarrow> usable tmpl b ts \<Longrightarrow> kind b = Some ''full'' \<Longrightarrow> ts \<le> fts"
  shows "\<exists>b \<in> set backups. usable tmpl b (last_classified kind tmpl backups fts) \<and> kind b \<in> {Some ''full'', Some ''incr''}"
    and "b \<in> set backups \<Longrightarrow> usable tmpl b ts \<Longrightarrow> kind b \<in> {Some ''full'', Some ''incr''} \<Longrightarrow>
      ts \<le> last_classified kind tmpl backups fts"
proof -
  have "(\<exists>b \<in> set backups. usable tmpl b (last_classified kind tmpl backups fts) \<and> kind b \<in> {Some ''full'', Some ''incr''})
    \<and> (\<forall>b \<in> set backups. \<forall>ts. usable tmpl b ts \<and> kind b \<in> {Some ''full'', Some ''incr''} \<longrightarrow>
         ts \<le> last_classified kind tmpl backups fts)"
  proof (cases "find (\<lambda>b. kind b = Some ''incr'') (watch_matching tmpl backups)")
    case None
    then have "last_classified kind tmpl backups fts = fts" by (simp add: last_classified_def)
    then show ?thesis using full newest find_absent[OF None] by auto
  next
    case (Some i)
    from find_newest[OF Some] obtain its where i: "i \<in> set backups" "usable tmpl i its" "kind i = Some ''incr''"
      and newest_i: "\<And>b ts. b \<in> set backups \<Longrightarrow> usable tmpl b ts \<Longrightarrow> kind b = Some ''incr'' \<Longrightarrow> ts \<le> its" by metis
    have "last_classified kind tmpl backups fts = max fts its"
      using Some i(2) by (simp add: last_classified_def usable_def max_def)
    moreover have "usable tmpl f (max fts its) \<or> usable tmpl i (max fts its)" using full(2) i(2) by (simp add: max_def)
    ultimately show ?thesis using full i newest newest_i by (fastforce simp: max_def)
  qed
  then show "\<exists>b \<in> set backups. usable tmpl b (last_classified kind tmpl backups fts) \<and> kind b \<in> {Some ''full'', Some ''incr''}"
    and "b \<in> set backups \<Longrightarrow> usable tmpl b ts \<Longrightarrow> kind b \<in> {Some ''full'', Some ''incr''} \<Longrightarrow>
      ts \<le> last_classified kind tmpl backups fts" by blast+
qed

lemma resume_state_cases:
  fixes glob tmpl
  defines "kind \<equiv> (\<lambda>b. classify_backup_type glob tmpl (bs_name b))"
  assumes "find (\<lambda>b. kind b = Some ''full'') (watch_matching tmpl backups) = Some f" and "usable tmpl f fts"
    and "watch_matching tmpl backups = m # ms"
  shows "resume_state glob backups tmpl wi fi now =
      (if fi \<le> elapsed now fts then FullNow
       else if wi \<le> elapsed now (last_classified kind tmpl backups fts) then IncrNow (bs_name m)
       else SleepThen (wi - elapsed now (last_classified kind tmpl backups fts)) ''incr'')"
  using assms(2-) unfolding resume_state_def kind_def last_classified_def usable_def by (simp add: Let_def)

lemma resume_state_base:
  assumes "resume_state glob backups tmpl wi fi now = IncrNow base"
  shows "\<exists>b \<in> set backups. bs_name b = base \<and> \<not> bs_is_broken b"
proof -
  obtain m ms where m: "watch_matching tmpl backups = m # ms" "base = bs_name m"
    using assms by (auto simp: resume_state_def Let_def split: list.splits option.splits if_splits)
  have "m \<in> set backups \<and> \<not> bs_is_broken m"
    using watch_matching_set[of m tmpl backups] m(1) by (auto simp: usable_def)
  then show ?thesis using m(2) by blast
qed

section \<open>Properties\<close>

text \<open>
  The watch decision is right. A full backup is due now exactly when no usable full backup is
  younger than the full interval. Otherwise an incremental is based on the newest usable backup and
  is due when every classified backup is at least the watch interval old, and a sleep lasts until
  the newest classified backup reaches that age. Broken backups, those without a time and those of
  other templates never count.
\<close>

theorem resume_state_correct:
  fixes glob tmpl
  defines "kind \<equiv> (\<lambda>b. classify_backup_type glob tmpl (bs_name b))"
  shows "case resume_state glob backups tmpl wi fi now of
      FullNow \<Rightarrow> (\<forall>b \<in> set backups. \<forall>ts. usable tmpl b ts \<and> kind b = Some ''full'' \<longrightarrow> fi \<le> elapsed now ts)
    | IncrNow base \<Rightarrow>
        (\<exists>b \<in> set backups. \<exists>ts. bs_name b = base \<and> usable tmpl b ts
           \<and> (\<forall>b' \<in> set backups. \<forall>ts'. usable tmpl b' ts' \<longrightarrow> ts' \<le> ts))
        \<and> (\<exists>b \<in> set backups. \<exists>ts. usable tmpl b ts \<and> kind b = Some ''full'' \<and> elapsed now ts < fi)
        \<and> (\<forall>b \<in> set backups. \<forall>ts. usable tmpl b ts \<and> kind b \<in> {Some ''full'', Some ''incr''} \<longrightarrow> wi \<le> elapsed now ts)
    | SleepThen d ty \<Rightarrow>
        ty = ''incr'' \<and> 0 < d
        \<and> (\<exists>b \<in> set backups. \<exists>ts. usable tmpl b ts \<and> kind b \<in> {Some ''full'', Some ''incr''} \<and> d = wi - elapsed now ts
             \<and> (\<forall>b' \<in> set backups. \<forall>ts'. usable tmpl b' ts' \<and> kind b' \<in> {Some ''full'', Some ''incr''} \<longrightarrow> ts' \<le> ts))
        \<and> (\<exists>b \<in> set backups. \<exists>ts. usable tmpl b ts \<and> kind b = Some ''full'' \<and> elapsed now ts < fi)"
proof (cases "find (\<lambda>b. kind b = Some ''full'') (watch_matching tmpl backups)")
  case None
  then have "resume_state glob backups tmpl wi fi now = FullNow"
    by (cases "watch_matching tmpl backups") (auto simp: resume_state_def Let_def kind_def split: if_splits)
  then show ?thesis using find_absent[OF None] by auto
next
  case (Some f)
  from find_newest[OF Some] obtain fts where f: "f \<in> set backups" "usable tmpl f fts" "kind f = Some ''full''"
    and newest_full: "\<And>b ts. b \<in> set backups \<Longrightarrow> usable tmpl b ts \<Longrightarrow> kind b = Some ''full'' \<Longrightarrow> ts \<le> fts" by metis
  obtain m ms where ms: "watch_matching tmpl backups = m # ms" using Some by (cases "watch_matching tmpl backups") auto
  let ?last = "last_classified kind tmpl backups fts"
  note eq = resume_state_cases[OF Some[unfolded kind_def] f(2) ms, folded kind_def, of wi fi now]
  have last: "\<exists>b \<in> set backups. usable tmpl b ?last \<and> kind b \<in> {Some ''full'', Some ''incr''}"
    by (rule last_classified_newest(1)[where kind = kind, OF f]) (rule newest_full)
  have newest: "ts \<le> ?last" if "b \<in> set backups" "usable tmpl b ts" "kind b \<in> {Some ''full'', Some ''incr''}" for b ts
    by (rule last_classified_newest(2)[where kind = kind, OF f _ that]) (rule newest_full)
  consider "fi \<le> elapsed now fts" | "elapsed now fts < fi" "wi \<le> elapsed now ?last" | "elapsed now fts < fi" "elapsed now ?last < wi"
    by linarith
  then show ?thesis
  proof cases
    case 1
    have "fi \<le> elapsed now ts" if "b \<in> set backups" "usable tmpl b ts" "kind b = Some ''full''" for b ts
      using 1 elapsed_mono[OF newest_full[OF that], of now] by simp
    then show ?thesis using 1 by (simp add: eq)
  next
    case 2
    have "find (\<lambda>_. True) (watch_matching tmpl backups) = Some m" by (simp add: ms)
    from find_newest[OF this] obtain mts where m: "m \<in> set backups" "usable tmpl m mts"
      "\<And>b ts. b \<in> set backups \<Longrightarrow> usable tmpl b ts \<Longrightarrow> ts \<le> mts" by metis
    have "wi \<le> elapsed now ts" if "b \<in> set backups" "usable tmpl b ts" "kind b \<in> {Some ''full'', Some ''incr''}" for b ts
      using 2(2) elapsed_mono[OF newest[OF that], of now] by simp
    moreover have "\<exists>b \<in> set backups. \<exists>ts. bs_name b = bs_name m \<and> usable tmpl b ts
        \<and> (\<forall>b' \<in> set backups. \<forall>ts'. usable tmpl b' ts' \<longrightarrow> ts' \<le> ts)"
      using m by (intro bexI[of _ m] exI[of _ mts]) auto
    ultimately show ?thesis using 2 f by (auto simp: eq)
  next
    case 3
    then show ?thesis using last newest f by (auto simp: eq)
  qed
qed

definition sample_glob :: "string \<Rightarrow> string \<Rightarrow> bool option" where
  "sample_glob p name = Some (starts_with name (takeWhile (\<lambda>c. c \<noteq> CHR ''*'') p))"

definition sample_summary :: "string \<Rightarrow> int \<Rightarrow> BackupSummary" where
  "sample_summary name ts = (broken_summary name [])\<lparr>bs_timestamp := Some ts, bs_is_broken := False\<rparr>"

definition sample_remote :: "BackupSummary list" where
  "sample_remote = [sample_summary ''a-full-1'' 100, sample_summary ''a-incr-2'' 200, sample_summary ''b-full-9'' 900]"

theorem resume_state_correct_witness:
  "resume_state sample_glob sample_remote ''a-{type}-{time:%s}'' 50 1000 260 = IncrNow ''a-incr-2''
   \<and> (\<exists>b \<in> set sample_remote. \<exists>ts. bs_name b = ''a-incr-2'' \<and> usable ''a-{type}-{time:%s}'' b ts)"
proof -
  have "resume_state sample_glob sample_remote ''a-{type}-{time:%s}'' 50 1000 260 = IncrNow ''a-incr-2''" by code_simp
  then show ?thesis
    using resume_state_correct[where glob = sample_glob and backups = sample_remote and tmpl = "''a-{type}-{time:%s}''"
        and wi = 50 and fi = 1000 and now = 260] by auto
qed

text \<open>
  C19. After an error the watch loop starts a new chain: in every state it can reach, a non-zero
  error count comes with the forced-full flag, and the iteration that follows creates and uploads
  nothing but a full backup without a base. An iteration never bases an incremental on anything but
  the newest usable remote backup.
\<close>

theorem watch_errors_force_full:
  assumes "reach watch_init (watch_step glob) ctx" and "watch_iteration glob cy ctx = (ctx', evs, exit)"
    and "Uploaded n b \<in> set evs"
  shows "(wx_errors ctx \<noteq> 0 \<longrightarrow> wx_force_full ctx \<and> b = None \<and> wx_errors ctx' = 0)
    \<and> (b \<noteq> None \<longrightarrow> (\<exists>s \<in> set (the (cy_list cy)). b = Some (bs_name s) \<and> \<not> bs_is_broken s))"
proof -
  have inv: "watch_inv ctx" using assms(1) by (rule watch.reach_inv)
  let ?cfg = "wx_config ctx"
  let ?wi = "interval (wc_watch_interval ?cfg) 3600" and ?fi = "interval (wc_full_interval ?cfg) 86400"
    and ?ri = "interval (wc_retry_interval ?cfg) 300"
  obtain remote decided where remote: "cy_list cy = Some remote"
    and run: "backup_cycle cy ?wi ?ri decided (ctx\<lparr>wx_state := Idle\<rparr>) = (ctx', evs, exit)"
    and decided: "\<And>base. decided = Some base \<Longrightarrow> resume_state glob remote (wc_name_template ?cfg) ?wi ?fi (cy_now cy) = IncrNow base"
    using assms(2,3) unfolding watch_iteration_def Let_def
    by (auto split: if_splits option.splits ResumeDecision.splits prod.splits)
  have b: "b = (if wx_force_full ctx then None else decided)" using backup_cycle_base(2)[OF run assms(3)] by simp
  have "wx_errors ctx' = 0"
    using run assms(3) unfolding backup_cycle_def finish_cycle_def Let_def
    by (auto split: sum.splits prod.splits if_splits dest!: sleep_keeps)
  moreover have "\<exists>s \<in> set remote. b = Some (bs_name s) \<and> \<not> bs_is_broken s" if some: "b \<noteq> None"
  proof -
    obtain base where base: "decided = Some base" "b = Some base" using some b by (cases decided) (auto split: if_splits)
    then show ?thesis using resume_state_base[OF decided[OF base(1)]] by auto
  qed
  ultimately show ?thesis using inv b remote by (auto simp: watch_inv_def)
qed

definition sample_config :: watch_config where
  "sample_config = \<lparr>wc_watch_interval = ''1h'', wc_full_interval = ''24h'', wc_retry_interval = ''5m'',
     wc_name_template = ''a-{type}-{time:%s}'', wc_max_errors = 5, wc_delete_local = True, wc_keep_local = (0, 3), wc_keep_remote = (7, 0)\<rparr>"

definition sample_ctx :: "u32 \<Rightarrow> bool \<Rightarrow> WatchState \<Rightarrow> WatchContext" where
  "sample_ctx errors force state = \<lparr>wx_config = sample_config, wx_macros = [], wx_state = state, wx_errors = errors,
     wx_force_full = force, wx_last_backup = None\<rparr>"

definition sample_cycle :: "bool \<Rightarrow> BackupSummary list option \<Rightarrow> cycle" where
  "sample_cycle ok backups = \<lparr>cy_shutdown = False, cy_list = backups, cy_now = 4000 * 10 ^ 9, cy_fmt = (\<lambda>_. ''77''), cy_lock_ok = True,
     cy_create_ok = ok, cy_upload_ok = ok, cy_signals = []\<rparr>"

lemma sample_failed_cycle:
  "watch_iteration sample_glob (sample_cycle False None) (sample_ctx 0 False Idle) = (sample_ctx 1 True Error, [Slept (300 * 10 ^ 9)], None)"
  by code_simp

lemma sample_watch_reach: "reach watch_init (watch_step sample_glob) (sample_ctx 1 True Error)"
proof -
  have "reach watch_init (watch_step sample_glob) (sample_ctx 0 False Idle)"
    by (rule reach_init) (simp add: watch_init_def sample_ctx_def)
  then show ?thesis by (rule reach_step) (rule watch_step.iteration[OF sample_failed_cycle])
qed

definition sample_events :: "watch_event list" where
  "sample_events = [Locked ''a-full-77'', Created ''a-full-77'' ''full'', Uploaded ''a-full-77'' None, DeletedLocal ''a-full-77'',
     RetainedLocal 3, RetainedRemote 7, Slept (3600 * 10 ^ 9), Unlocked ''a-full-77'']"

lemma sample_forced_cycle:
  "watch_iteration sample_glob (sample_cycle True (Some sample_remote)) (sample_ctx 1 True Error)
     = ((sample_ctx 0 False Sleeping)\<lparr>wx_last_backup := Some ''a-full-77''\<rparr>, sample_events, None)"
  by code_simp

theorem watch_errors_force_full_witness:
  "resume_state sample_glob sample_remote ''a-{type}-{time:%s}'' (3600 * 10 ^ 9) (86400 * 10 ^ 9) (4000 * 10 ^ 9) = IncrNow ''a-incr-2''
   \<and> wx_force_full (sample_ctx 1 True Error)
   \<and> Uploaded ''a-full-77'' None \<in> set sample_events"
proof -
  have "resume_state sample_glob sample_remote ''a-{type}-{time:%s}'' (3600 * 10 ^ 9) (86400 * 10 ^ 9) (4000 * 10 ^ 9) = IncrNow ''a-incr-2''"
    by code_simp
  moreover have up: "Uploaded ''a-full-77'' None \<in> set sample_events" by (simp add: sample_events_def)
  moreover have "wx_errors (sample_ctx 1 True Error) \<noteq> 0" by (simp add: sample_ctx_def)
  ultimately show ?thesis
    using watch_errors_force_full[OF sample_watch_reach sample_forced_cycle up] by blast
qed

text \<open>
  The lock of a watch cycle is held while the loop sleeps: an iteration that takes the lock of
  its backup releases it as its last event, after the sleep, so commands of the global tier are
  refused for the whole watch interval and not only while the backup is made.
\<close>

theorem watch_lock_held_while_sleeping:
  assumes "watch_iteration glob cy ctx = (ctx', evs, exit)" and "Locked n \<in> set evs"
  shows "\<exists>mid d. evs = Locked n # mid @ [Slept d, Unlocked n]"
proof -
  have "\<exists>wi ri decided ctx0. backup_cycle cy wi ri decided ctx0 = (ctx', evs, exit)"
    using assms unfolding watch_iteration_def Let_def
    by (auto split: if_splits option.splits ResumeDecision.splits prod.splits)
  then show ?thesis using backup_cycle_lock assms(2) by blast
qed

theorem watch_lock_held_while_sleeping_witness:
  "\<exists>mid d. sample_events = Locked ''a-full-77'' # mid @ [Slept d, Unlocked ''a-full-77'']"
  using watch_lock_held_while_sleeping[OF sample_forced_cycle, of "''a-full-77''"] by (simp add: sample_events_def)

section \<open>Backup names\<close>

lemma validate_backup_name_iff:
  "validate_backup_name name = Inr () \<longleftrightarrow> name \<noteq> [] \<and> name \<noteq> ''.'' \<and> CHR ''/'' \<notin> set name \<and> CHR 0x5C \<notin> set name
     \<and> CHR 0x00 \<notin> set name \<and> \<not> str_contains name ''..''"
  by (auto simp: validate_backup_name_def str_contains_char)

end
