(* ===== verification/Remap.thy ===== *)
theory Remap
  imports Prelude "HOL-Library.AList"
begin

text \<open>
  Model of \<^verbatim>\<open>src/restore/remap.rs\<close>: the mappings given to restore with \<^verbatim>\<open>--as\<close> and \<^verbatim>\<open>-m\<close>, and
  the rewriting of DDL text. Where the code computes a byte position with \<^verbatim>\<open>find\<close> and slices around
  it, the model splits the text at the first occurrence, which gives the same pieces; the needles are
  ASCII, so the slices never fall inside a character. A hash map is an association list.
\<close>

section \<open>Definitions\<close>

subsection \<open>Text\<close>

text \<open>The text before and after the first occurrence.\<close>

fun split_str :: "string \<Rightarrow> string \<Rightarrow> (string \<times> string) option" where
  "split_str pat [] = (if pat = [] then Some ([], []) else None)"
| "split_str pat (c # cs) =
     (if prefix pat (c # cs) then Some ([], drop (length pat) (c # cs))
      else map_option (\<lambda>(a, b). (c # a, b)) (split_str pat cs))"

text \<open>\<^verbatim>\<open>str::replacen(.., 1)\<close>.\<close>

definition replace_first :: "string \<Rightarrow> string \<Rightarrow> string \<Rightarrow> string" where
  "replace_first pat rep s = (case split_str pat s of Some (a, b) \<Rightarrow> a @ rep @ b | None \<Rightarrow> s)"

definition strip_quotes :: "string \<Rightarrow> string" where
  "strip_quotes s =
     (let s = trim s
      in if starts_with s [CHR 0x27] \<and> ends_with s [CHR 0x27] \<and> 2 \<le> length s then butlast (tl s) else s)"

subsection \<open>Mappings\<close>

datatype remap_error =
  AsNeedsTable | PatternNotQualified string | PatternHasWildcard string | AsNotQualified string
| BadTableMapping string | BadMappingSource string | BadMappingDestination string | NoMappings
| BadDatabaseMapping string | EmptyDatabaseName string

type_synonym table_mapping = "string \<times> string \<times> string \<times> string"

definition parse_table_pair :: "string \<Rightarrow> remap_error + table_mapping" where
  "parse_table_pair pair =
     (case split_once CHR '':'' pair of
        None \<Rightarrow> Inl (BadTableMapping pair)
      | Some (s, d) \<Rightarrow>
          (case split_once CHR ''.'' (trim s) of
             None \<Rightarrow> Inl (BadMappingSource (trim s))
           | Some (src_db, src_table) \<Rightarrow>
               (case split_once CHR ''.'' (trim d) of
                  None \<Rightarrow> Inl (BadMappingDestination (trim d))
                | Some (dst_db, dst_table) \<Rightarrow> Inr (src_db, src_table, dst_db, dst_table))))"

definition mapping_fields :: "string \<Rightarrow> string list" where
  "mapping_fields s = filter (\<lambda>p. p \<noteq> []) (map trim (split_on CHR '','' s))"

definition parse_table_mapping :: "string \<Rightarrow> remap_error + table_mapping list" where
  "parse_table_mapping s =
     (case traverse parse_table_pair (mapping_fields s) of
        Inl e \<Rightarrow> Inl e
      | Inr mappings \<Rightarrow> if mappings = [] then Inl NoMappings else Inr mappings)"

definition parse_database_pair :: "string \<Rightarrow> remap_error + string \<times> string" where
  "parse_database_pair pair =
     (case split_once CHR '':'' pair of
        None \<Rightarrow> Inl (BadDatabaseMapping pair)
      | Some (s, d) \<Rightarrow>
          if trim s = [] \<or> trim d = [] then Inl (EmptyDatabaseName pair) else Inr (trim s, trim d))"

definition parse_database_mapping :: "string \<Rightarrow> remap_error + (string \<times> string) list" where
  "parse_database_mapping s =
     (let s = trim s in
      if s = [] then Inr []
      else case traverse parse_database_pair (mapping_fields s) of
        Inl e \<Rightarrow> Inl e
      | Inr pairs \<Rightarrow> Inr (fold (\<lambda>(src, dst). AList.update src dst) pairs []))"

record RemapConfig =
  rc_rename_as :: "table_mapping list"
  rc_database_mapping :: "(string \<times> string) list"
  rc_default_replica_path :: string

definition has_wildcard :: "string \<Rightarrow> bool" where
  "has_wildcard s \<longleftrightarrow> CHR ''*'' \<in> set s \<or> CHR ''?'' \<in> set s"

definition parse_rename_as :: "string \<Rightarrow> string option \<Rightarrow> remap_error + table_mapping list" where
  "parse_rename_as as_str table_pattern =
     (if CHR '':'' \<in> set as_str then parse_table_mapping as_str
      else case table_pattern of
        None \<Rightarrow> Inl AsNeedsTable
      | Some pattern \<Rightarrow>
          (case split_once CHR ''.'' pattern of
             None \<Rightarrow> Inl (PatternNotQualified pattern)
           | Some (src_db, src_table) \<Rightarrow>
               if has_wildcard src_table \<or> has_wildcard src_db then Inl (PatternHasWildcard pattern)
               else case split_once CHR ''.'' as_str of
                 None \<Rightarrow> Inl (AsNotQualified as_str)
               | Some (dst_db, dst_table) \<Rightarrow> Inr [(src_db, src_table, dst_db, dst_table)]))"

definition RemapConfig_new ::
    "string option \<Rightarrow> string option \<Rightarrow> string option \<Rightarrow> string \<Rightarrow> remap_error + RemapConfig option" where
  "RemapConfig_new rename_as_str table_pattern db_mapping_str default_replica_path =
     (case (case rename_as_str of Some as_str \<Rightarrow> parse_rename_as as_str table_pattern | None \<Rightarrow> Inr []) of
        Inl e \<Rightarrow> Inl e
      | Inr rename_as \<Rightarrow>
          (case (case db_mapping_str of
                   Some s \<Rightarrow> if s \<noteq> [] then parse_database_mapping s else Inr []
                 | None \<Rightarrow> Inr []) of
             Inl e \<Rightarrow> Inl e
           | Inr database_mapping \<Rightarrow>
               if rename_as = [] \<and> database_mapping = [] then Inr None
               else Inr (Some \<lparr>rc_rename_as = rename_as, rc_database_mapping = database_mapping,
                               rc_default_replica_path = default_replica_path\<rparr>)))"

definition is_active :: "RemapConfig \<Rightarrow> bool" where
  "is_active c \<longleftrightarrow> rc_rename_as c \<noteq> [] \<or> rc_database_mapping c \<noteq> []"

definition remap_table_key :: "RemapConfig \<Rightarrow> string \<Rightarrow> string \<times> string" where
  "remap_table_key c original_key =
     (let (orig_db, orig_table) =
            (case split_once CHR ''.'' original_key of Some p \<Rightarrow> p | None \<Rightarrow> (''default'', original_key))
      in case find (\<lambda>(src_db, src_table, _, _). orig_db = src_db \<and> orig_table = src_table) (rc_rename_as c) of
           Some (_, _, dst_db, dst_table) \<Rightarrow> (dst_db, dst_table)
         | None \<Rightarrow>
             (case map_of (rc_database_mapping c) orig_db of
                Some dst_db \<Rightarrow> (dst_db, orig_table)
              | None \<Rightarrow> (orig_db, orig_table)))"

subsection \<open>Rewriting statements\<close>

definition backquoted :: "string \<Rightarrow> string" where
  "backquoted s = ''`'' @ s @ ''`''"

definition rewrite_table_name :: "string \<Rightarrow> string \<Rightarrow> string \<Rightarrow> string \<Rightarrow> string \<Rightarrow> string" where
  "rewrite_table_name ddl src_db src_table dst_db dst_table =
     (let bt_src = backquoted src_db @ ''.'' @ backquoted src_table;
          plain_src = src_db @ ''.'' @ src_table
      in if str_contains ddl bt_src then replace_first bt_src (backquoted dst_db @ ''.'' @ backquoted dst_table) ddl
         else if str_contains ddl plain_src then replace_first plain_src (dst_db @ ''.'' @ dst_table) ddl
         else ddl)"

definition remove_uuid_clause :: "string \<Rightarrow> string" where
  "remove_uuid_clause ddl =
     (case split_str (''UUID '' @ [CHR 0x27]) ddl of
        None \<Rightarrow> ddl
      | Some (before, rest) \<Rightarrow>
          (case split_once (CHR 0x27) rest of
             None \<Rightarrow> ddl
           | Some (_, rest2) \<Rightarrow>
               (let after = trim_start rest2
                in trim_end before @ (if after \<noteq> [] then '' '' @ after else []))))"

text \<open>
  The text up to the opening quote of the first quoted argument after an engine marker, the quoted
  text, and the text from the closing quote on.
\<close>

definition first_quoted :: "string \<Rightarrow> (string \<times> string \<times> string) option" where
  "first_quoted s =
     (case split_once (CHR 0x27) s of
        None \<Rightarrow> None
      | Some (before, rest) \<Rightarrow>
          (case split_once (CHR 0x27) rest of
             None \<Rightarrow> None
           | Some (quoted, after) \<Rightarrow> Some (before @ [CHR 0x27], quoted, CHR 0x27 # after)))"

text \<open>The text up to and including the parenthesis that follows a marker, and the rest.\<close>

definition after_paren :: "string \<Rightarrow> string \<Rightarrow> (string \<times> string) option" where
  "after_paren marker ddl =
     (case split_str marker ddl of
        None \<Rightarrow> None
      | Some (before, rest) \<Rightarrow>
          (case split_once CHR ''('' rest of
             None \<Rightarrow> None
           | Some (engine, inner) \<Rightarrow> Some (before @ marker @ engine @ ''('', inner)))"

definition rewrite_replicated_zk_path :: "string \<Rightarrow> string \<Rightarrow> string \<Rightarrow> string \<Rightarrow> string" where
  "rewrite_replicated_zk_path ddl dst_db dst_table default_replica_path =
     (case after_paren ''Replicated'' ddl of
        None \<Rightarrow> ddl
      | Some (head, inner) \<Rightarrow>
          (case first_quoted inner of
             None \<Rightarrow> ddl
           | Some (before, _, after) \<Rightarrow>
               (let new_path = str_replace ''{table}'' dst_table (str_replace ''{database}'' dst_db default_replica_path)
                in head @ before @ new_path @ after)))"

definition parse_replicated_params :: "string \<Rightarrow> (string \<times> string) option" where
  "parse_replicated_params ddl =
     (case after_paren ''Replicated'' ddl of
        None \<Rightarrow> None
      | Some (_, inner) \<Rightarrow>
          if starts_with (trim_start inner) '')'' then None
          else case first_quoted inner of
            None \<Rightarrow> None
          | Some (_, zk_path, after) \<Rightarrow>
              (case first_quoted (tl after) of
                 None \<Rightarrow> None
               | Some (_, replica, _) \<Rightarrow> Some (zk_path, replica)))"

definition resolve_zk_macros :: "string \<Rightarrow> (string \<times> string) list \<Rightarrow> string" where
  "resolve_zk_macros template macros =
     fold (\<lambda>(key, val) result. str_replace (''{'' @ key @ ''}'') val result) macros template"

text \<open>The text before a \<^verbatim>\<open>Distributed\<close> that is followed by a parenthesis, and the text from it on.\<close>

function find_distributed_engine :: "string \<Rightarrow> (string \<times> string) option" where
  "find_distributed_engine s =
     (case split_str ''Distributed'' s of
        None \<Rightarrow> None
      | Some (before, rest) \<Rightarrow>
          if starts_with (trim_start rest) ''('' then Some (before, ''Distributed'' @ rest)
          else map_option (\<lambda>(b, r). (before @ ''Distributed'' @ b, r)) (find_distributed_engine rest))"
  by pat_completeness auto

lemma split_str_Some: "split_str pat s = Some (a, b) \<Longrightarrow> s = a @ pat @ b"
  by (induction pat s arbitrary: a rule: split_str.induct) (auto split: if_splits simp: prefix_def)

termination find_distributed_engine
  by (relation "measure length") (auto dest: split_str_Some)

declare find_distributed_engine.simps [simp del]

definition dist_args :: "string \<Rightarrow> (string \<times> string) option" where
  "dist_args ddl =
     (case find_distributed_engine ddl of
        None \<Rightarrow> None
      | Some (before, rest) \<Rightarrow>
          (case split_once CHR ''('' rest of
             None \<Rightarrow> None
           | Some (engine, inner) \<Rightarrow> Some (before @ engine @ ''('', inner)))"

definition rewrite_distributed_cluster :: "string \<Rightarrow> string \<Rightarrow> string" where
  "rewrite_distributed_cluster ddl new_cluster =
     (case dist_args ddl of
        None \<Rightarrow> ddl
      | Some (head, inner) \<Rightarrow>
          (case first_quoted inner of
             None \<Rightarrow> ddl
           | Some (before, _, after) \<Rightarrow> head @ before @ new_cluster @ after))"

text \<open>\<^verbatim>\<open>find_matching_paren\<close>: the text before the closing parenthesis and the text from it on.\<close>

fun find_matching_paren :: "nat \<Rightarrow> bool \<Rightarrow> string \<Rightarrow> (string \<times> string) option" where
  "find_matching_paren depth in_quote [] = None"
| "find_matching_paren depth in_quote (c # cs) =
     (let cons = map_option (\<lambda>(a, b). (c # a, b)) in
      if c = CHR 0x27 then cons (find_matching_paren depth (\<not> in_quote) cs)
      else if c = CHR ''('' \<and> \<not> in_quote then cons (find_matching_paren (depth + 1) in_quote cs)
      else if c = CHR '')'' \<and> \<not> in_quote
      then (if depth = 0 then Some ([], c # cs) else cons (find_matching_paren (depth - 1) in_quote cs))
      else cons (find_matching_paren depth in_quote cs))"

definition requote :: "string \<Rightarrow> string \<Rightarrow> string" where
  "requote old new = (if starts_with old [CHR 0x27] then '' '' @ [CHR 0x27] @ new @ [CHR 0x27] else '' '' @ new)"

definition rewrite_distributed_engine :: "string \<Rightarrow> string \<Rightarrow> string \<Rightarrow> string \<Rightarrow> string \<Rightarrow> string" where
  "rewrite_distributed_engine ddl src_db src_table dst_db dst_table =
     (case dist_args ddl of
        None \<Rightarrow> ddl
      | Some (head, inner) \<Rightarrow>
          (case find_matching_paren 0 False inner of
             None \<Rightarrow> ddl
           | Some (args_str, closing) \<Rightarrow>
               (case splitn 4 CHR '','' args_str of
                  a0 # a1 # a2 # rest \<Rightarrow>
                    if strip_quotes (trim a1) \<noteq> src_db \<or> strip_quotes (trim a2) \<noteq> src_table then ddl
                    else head @ a0 @ '','' @ requote (trim a1) dst_db @ '','' @ requote (trim a2) dst_table
                           @ (case rest of a3 # _ \<Rightarrow> '','' @ a3 | [] \<Rightarrow> []) @ closing
                | _ \<Rightarrow> ddl)))"

definition rewrite_create_table_ddl ::
    "string \<Rightarrow> string \<Rightarrow> string \<Rightarrow> string \<Rightarrow> string \<Rightarrow> string \<Rightarrow> string" where
  "rewrite_create_table_ddl ddl src_db src_table dst_db dst_table default_replica_path =
     rewrite_distributed_engine
       (rewrite_replicated_zk_path
         (remove_uuid_clause (rewrite_table_name ddl src_db src_table dst_db dst_table))
         dst_db dst_table default_replica_path)
       src_db src_table dst_db dst_table"

definition rewrite_create_database_ddl :: "string \<Rightarrow> string \<Rightarrow> string \<Rightarrow> string" where
  "rewrite_create_database_ddl ddl src_db dst_db =
     (if src_db = dst_db then ddl
      else if str_contains ddl (backquoted src_db) then str_replace (backquoted src_db) (backquoted dst_db) ddl
      else if str_contains ddl (''CREATE DATABASE IF NOT EXISTS '' @ src_db)
      then replace_first (''CREATE DATABASE IF NOT EXISTS '' @ src_db) (''CREATE DATABASE IF NOT EXISTS '' @ dst_db) ddl
      else if str_contains ddl (''CREATE DATABASE '' @ src_db)
      then replace_first (''CREATE DATABASE '' @ src_db) (''CREATE DATABASE '' @ dst_db) ddl
      else ddl)"

subsection \<open>ON CLUSTER\<close>

definition ident_char :: "char \<Rightarrow> bool" where
  "ident_char c = (let n = (of_char c :: nat) in
     (48 \<le> n \<and> n \<le> 57) \<or> (65 \<le> n \<and> n \<le> 90) \<or> (97 \<le> n \<and> n \<le> 122) \<or> c = CHR ''_'' \<or> c = CHR ''.'')"

text \<open>The length of one quoted or unquoted identifier at the start of a text.\<close>

definition ident_len :: "string \<Rightarrow> nat" where
  "ident_len s =
     (case s of
        [] \<Rightarrow> 0
      | c # cs \<Rightarrow>
          if c = CHR 0x60
          then 1 + length (takeWhile (\<lambda>x. x \<noteq> CHR 0x60) cs) + (if CHR 0x60 \<in> set cs then 1 else 0)
          else length (takeWhile ident_char s))"

function skip_object_name :: "string \<Rightarrow> nat" where
  "skip_object_name s =
     (if ident_len s = 0 then 0
      else case drop (ident_len s) s of
        c # rest \<Rightarrow> if c = CHR ''.'' then ident_len s + 1 + skip_object_name rest else ident_len s
      | [] \<Rightarrow> ident_len s)"
  by pat_completeness auto
termination
proof (relation "measure length")
  fix s c rest
  assume "drop (ident_len s) s = c # rest"
  then have "length (drop (ident_len s) s) = Suc (length rest)" by simp
  then show "(rest, s) \<in> measure length" by simp
qed simp

declare skip_object_name.simps [simp del]

definition cluster_prefixes :: "string list" where
  "cluster_prefixes =
     [''CREATE TABLE IF NOT EXISTS'', ''CREATE TABLE'', ''CREATE MATERIALIZED VIEW IF NOT EXISTS'',
      ''CREATE MATERIALIZED VIEW'', ''CREATE VIEW IF NOT EXISTS'', ''CREATE VIEW'', ''CREATE DICTIONARY IF NOT EXISTS'',
      ''CREATE DICTIONARY'', ''CREATE DATABASE IF NOT EXISTS'', ''CREATE DATABASE'', ''DROP TABLE IF EXISTS'', ''DROP TABLE'',
      ''DROP DATABASE IF EXISTS'', ''DROP DATABASE'']"

definition add_on_cluster_clause :: "string \<Rightarrow> string \<Rightarrow> string" where
  "add_on_cluster_clause ddl cluster =
     (if str_contains ddl ''ON CLUSTER'' then ddl
      else case find (\<lambda>p. starts_with ddl p) cluster_prefixes of
        None \<Rightarrow> ddl
      | Some p \<Rightarrow>
          (let after_prefix = drop (length p) ddl;
               name_start = length p + (length after_prefix - length (trim_start after_prefix));
               insert_pos = name_start + skip_object_name (drop name_start ddl)
           in take insert_pos ddl @ '' ON CLUSTER '' @ [CHR 0x27] @ cluster @ [CHR 0x27] @ drop insert_pos ddl))"

section \<open>Splitting text\<close>

lemma split_str_None: "split_str pat s = None \<longleftrightarrow> \<not> str_contains s pat"
  by (induction pat s rule: split_str.induct) auto

lemma split_str_prefix: "prefix pat s \<Longrightarrow> split_str pat s = Some ([], drop (length pat) s)"
  by (cases s) auto

lemma prefix_of_long: "length pat \<le> length a \<Longrightarrow> prefix pat (a @ b) \<longleftrightarrow> prefix pat a"
  by (auto simp: prefix_append prefix_length_le dest: prefix_length_le)

text \<open>The first occurrence stays the first one whatever follows it.\<close>

lemma split_str_other_tail:
  "split_str pat s = Some (a, b) \<Longrightarrow> split_str pat (a @ pat @ c) = Some (a, c)"
proof (induction pat s arbitrary: a rule: split_str.induct)
  case (1 pat)
  then show ?case by (cases c) (auto split: if_splits)
next
  case (2 pat x xs)
  show ?case
  proof (cases "prefix pat (x # xs)")
    case True
    with 2(2) have "a = []" by simp
    then show ?thesis using split_str_prefix [of pat "pat @ c"] by simp
  next
    case False
    with 2(2) obtain a' where a: "a = x # a'" "split_str pat xs = Some (a', b)" by auto
    then have "xs = a' @ pat @ b" by (auto dest: split_str_Some)
    then have "\<not> prefix pat ((x # a' @ pat) @ b)" using False by simp
    then have "\<not> prefix pat ((x # a' @ pat) @ c)"
      using prefix_of_long [of pat "x # a' @ pat"] by simp
    then show ?thesis using 2(1) [OF False a(2)] a(1) by simp
  qed
qed

lemma first_quoted_intro:
  "CHR 0x27 \<notin> set b \<Longrightarrow> CHR 0x27 \<notin> set q \<Longrightarrow>
     first_quoted (b @ CHR 0x27 # q @ CHR 0x27 # a) = Some (b @ [CHR 0x27], q, CHR 0x27 # a)"
  by (simp add: first_quoted_def split_once_append)

lemma first_quoted_Some:
  assumes "first_quoted s = Some (b, q, a)"
  obtains b' a' where "s = b' @ CHR 0x27 # q @ CHR 0x27 # a'" "CHR 0x27 \<notin> set b'" "CHR 0x27 \<notin> set q"
    "b = b' @ [CHR 0x27]" "a = CHR 0x27 # a'"
  using assms by (auto simp: first_quoted_def split_once_Some split: option.splits)

lemma after_paren_Some:
  assumes "after_paren m ddl = Some (h, inner)"
  shows "ddl = h @ inner" and "after_paren m (h @ x) = Some (h, x)"
proof -
  obtain b e where b: "split_str m ddl = Some (b, e @ CHR ''('' # inner)" and e: "CHR ''('' \<notin> set e"
    and h: "h = b @ m @ e @ ''(''"
    using assms by (auto simp: after_paren_def split_once_Some split: option.splits)
  show "ddl = h @ inner" using split_str_Some [OF b] h by simp
  show "after_paren m (h @ x) = Some (h, x)"
    using split_str_other_tail [OF b, of "e @ CHR ''('' # x"] e h
    by (simp add: after_paren_def split_once_append)
qed

lemma strip_front_before:
  assumes "\<forall>w\<in>set ws. q \<notin> set w"
  shows "strip_front ws (b @ q # x) = strip_front ws b @ q # x"
  using assms
proof (induction ws b rule: strip_front.induct)
  case (1 ws b)
  have px: "prefix w (b @ q # x) \<longleftrightarrow> prefix w b" if "w \<in> set ws" for w
  proof -
    have "q \<notin> set w" using that 1(2) by blast
    then show ?thesis by (auto simp: prefix_append prefix_Cons)
  qed
  have f: "find (\<lambda>w. w \<noteq> [] \<and> prefix w (b @ q # x)) ws = find (\<lambda>w. w \<noteq> [] \<and> prefix w b) ws"
    by (rule find_cong) (auto simp: px)
  show ?case
  proof (cases "find (\<lambda>w. w \<noteq> [] \<and> prefix w b) ws")
    case None
    then show ?thesis using f by (simp add: strip_front.simps)
  next
    case (Some w)
    then have "prefix w b" by (auto simp: find_Some_iff)
    then have "drop (length w) (b @ q # x) = drop (length w) b @ q # x"
      by (auto simp: prefix_def)
    then show ?thesis
      using f Some 1(1) [OF Some] 1(2) by (simp add: strip_front.simps [of _ "b @ q # x"] strip_front.simps [of _ b])
  qed
qed

lemma ws_no_quote: "\<forall>w\<in>set ws_strings. CHR 0x27 \<notin> set w"
  by code_simp

lemma ws_no_backquote: "\<forall>w\<in>set ws_strings. CHR 0x60 \<notin> set w"
  by code_simp

lemma trim_start_head:
  assumes "\<forall>w\<in>set ws_strings. w \<noteq> [] \<and> hd w \<noteq> c"
  shows "trim_start (c # s) = c # s"
proof -
  have "find (\<lambda>w. w \<noteq> [] \<and> prefix w (c # s)) ws_strings = None"
    using assms by (auto simp: find_None_iff prefix_Cons)
  then show ?thesis by (simp add: trim_start_def strip_front.simps [of _ "c # s"])
qed

lemma ws_heads: "\<forall>w\<in>set ws_strings. w \<noteq> [] \<and> hd w \<noteq> CHR '')'' \<and> hd w \<noteq> CHR 0x60"
  by code_simp

lemma trim_start_before_quote: "trim_start (b @ CHR 0x27 # x) = trim_start b @ CHR 0x27 # x"
  unfolding trim_start_def by (rule strip_front_before [OF ws_no_quote])

section \<open>Replication paths\<close>

definition single_quoted :: "string \<Rightarrow> string" where
  "single_quoted s = [CHR 0x27] @ s @ [CHR 0x27]"

definition zk_path :: "string \<Rightarrow> string \<Rightarrow> string \<Rightarrow> string" where
  "zk_path template db table = str_replace ''{table}'' table (str_replace ''{database}'' db template)"

text \<open>
  After a remap the engine names the path of the destination table, built from the configured template,
  and still names the replica it had.
\<close>

theorem replicated_path_rewritten:
  assumes "parse_replicated_params ddl = Some (old, replica)"
    and "CHR 0x27 \<notin> set (zk_path template dst_db dst_table)"
  shows "parse_replicated_params (rewrite_replicated_zk_path ddl dst_db dst_table template)
           = Some (zk_path template dst_db dst_table, replica)"
proof -
  obtain h inner b a where ap: "after_paren ''Replicated'' ddl = Some (h, inner)"
    and ne: "\<not> starts_with (trim_start inner) '')''"
    and q1: "first_quoted inner = Some (b, old, a)"
    and q2: "\<exists>x y. first_quoted (tl a) = Some (x, replica, y)"
    using assms(1) by (auto simp: parse_replicated_params_def split: option.splits if_splits)
  obtain b' a' where i: "inner = b' @ CHR 0x27 # old @ CHR 0x27 # a'" and b': "CHR 0x27 \<notin> set b'"
    and ba: "b = b' @ [CHR 0x27]" "a = CHR 0x27 # a'"
    using q1 by (rule first_quoted_Some)
  let ?p = "zk_path template dst_db dst_table"
  have r: "rewrite_replicated_zk_path ddl dst_db dst_table template = h @ b' @ CHR 0x27 # ?p @ CHR 0x27 # a'"
    using ap q1 ba by (simp add: rewrite_replicated_zk_path_def zk_path_def Let_def)
  have "\<not> starts_with (trim_start (b' @ CHR 0x27 # ?p @ CHR 0x27 # a')) '')''"
    using ne i by (cases "trim_start b'") (auto simp: trim_start_before_quote)
  then show ?thesis
    using r after_paren_Some(2) [OF ap] first_quoted_intro [OF b' assms(2)] q2 ba
    by (auto simp: parse_replicated_params_def)
qed

definition sample_replicated :: string where
  "sample_replicated = ''ENGINE = ReplicatedMergeTree('' @ single_quoted ''/old/{shard}'' @ '', '' @ single_quoted ''{replica}'' @ '')''"

theorem replicated_path_rewritten_witness:
  "parse_replicated_params (rewrite_replicated_zk_path sample_replicated ''d'' ''t'' ''/z/{database}/{table}'')
     = Some (zk_path ''/z/{database}/{table}'' ''d'' ''t'', ''{replica}'')"
proof (rule replicated_path_rewritten)
  show "parse_replicated_params sample_replicated = Some (''/old/{shard}'', ''{replica}'')" by code_simp
  show "CHR 0x27 \<notin> set (zk_path ''/z/{database}/{table}'' ''d'' ''t'')" by code_simp
qed

text \<open>
  For the short engine syntax with empty parentheses, which \<^verbatim>\<open>parse_replicated_params\<close> recognises and
  leaves alone, the rewriting does not look for the closing parenthesis: the first single_quoted text after it,
  such as the value of a setting, is replaced by the replication path.
\<close>

theorem short_syntax_setting_overwritten:
  assumes "after_paren ''Replicated'' ddl = Some (head, '')'' @ clause @ [CHR 0x27] @ setting @ [CHR 0x27] @ rest)"
    and "CHR 0x27 \<notin> set clause" and "CHR 0x27 \<notin> set setting"
  shows "parse_replicated_params ddl = None
       \<and> ddl = head @ '')'' @ clause @ [CHR 0x27] @ setting @ [CHR 0x27] @ rest
       \<and> rewrite_replicated_zk_path ddl dst_db dst_table template
           = head @ '')'' @ clause @ [CHR 0x27] @ zk_path template dst_db dst_table @ [CHR 0x27] @ rest"
proof -
  have t: "trim_start ('')'' @ clause @ [CHR 0x27] @ setting @ [CHR 0x27] @ rest)
             = '')'' @ clause @ [CHR 0x27] @ setting @ [CHR 0x27] @ rest"
    using trim_start_head [of "CHR '')''"] ws_heads by simp
  show ?thesis
    using assms t after_paren_Some(1) [OF assms(1)] first_quoted_intro [of "'')'' @ clause" setting rest]
    by (simp add: parse_replicated_params_def rewrite_replicated_zk_path_def zk_path_def)
qed

text \<open>The storage policy of a table with the short syntax becomes a replication path.\<close>

definition sample_short :: string where
  "sample_short = ''ENGINE = ReplicatedMergeTree() ORDER BY id SETTINGS storage_policy = '' @ single_quoted ''s3''"

theorem short_syntax_setting_overwritten_witness:
  "rewrite_replicated_zk_path sample_short ''d'' ''t'' ''/z/{table}''
     = ''ENGINE = ReplicatedMergeTree() ORDER BY id SETTINGS storage_policy = '' @ single_quoted ''/z/t''"
proof -
  have "after_paren ''Replicated'' sample_short
          = Some (''ENGINE = ReplicatedMergeTree('', '')'' @ '' ORDER BY id SETTINGS storage_policy = ''
                    @ [CHR 0x27] @ ''s3'' @ [CHR 0x27] @ [])"
    by code_simp
  from short_syntax_setting_overwritten [OF this, of "''d''" "''t''" "''/z/{table}''"] show ?thesis
    by (simp add: zk_path_def single_quoted_def)
qed

section \<open>Cluster clauses\<close>

lemma takeWhile_until: "c \<notin> set s \<Longrightarrow> takeWhile (\<lambda>x. x \<noteq> c) (s @ c # rest) = s"
  by (induction s) auto

lemma ident_len_backquoted: "CHR 0x60 \<notin> set s \<Longrightarrow> ident_len (backquoted s @ rest) = length s + 2"
  by (simp add: ident_len_def backquoted_def takeWhile_until)

lemma skip_backquoted:
  assumes "CHR 0x60 \<notin> set s"
  shows "skip_object_name (backquoted s @ ''.'' @ rest) = length s + 3 + skip_object_name rest"
    and "rest = [] \<or> hd rest \<noteq> CHR ''.'' \<Longrightarrow> skip_object_name (backquoted s @ rest) = length s + 2"
proof -
  have d: "drop (ident_len (backquoted s @ r)) (backquoted s @ r) = r" for r
    using ident_len_backquoted [OF assms, of r] by (simp add: backquoted_def)
  show "skip_object_name (backquoted s @ ''.'' @ rest) = length s + 3 + skip_object_name rest"
    using d [of "''.'' @ rest"] ident_len_backquoted [OF assms, of "''.'' @ rest"]
    by (simp add: skip_object_name.simps [of "backquoted s @ _"])
  show "skip_object_name (backquoted s @ rest) = length s + 2" if "rest = [] \<or> hd rest \<noteq> CHR ''.''"
    unfolding skip_object_name.simps [of "backquoted s @ _"] d
    using that ident_len_backquoted [OF assms, of rest] by (cases rest) simp_all
qed

lemma cluster_prefix_found:
  "p \<in> set cluster_prefixes \<Longrightarrow> find (\<lambda>q. starts_with (p @ '' `'' @ rest) q) cluster_prefixes = Some p"
proof -
  have "list_all (\<lambda>p. find (\<lambda>q. starts_with (p @ '' `'' @ rest) q) cluster_prefixes = Some p) cluster_prefixes"
    by code_simp
  then show "p \<in> set cluster_prefixes \<Longrightarrow> find (\<lambda>q. starts_with (p @ '' `'' @ rest) q) cluster_prefixes = Some p"
    by (simp only: list_all_iff)
qed

lemma trim_start_space_backquote: "trim_start ('' `'' @ s) = CHR 0x60 # s"
proof -
  have "find (\<lambda>w. w \<noteq> [] \<and> prefix w ('' `'' @ s)) ws_strings = Some '' ''" by code_simp
  then have "trim_start ('' `'' @ s) = trim_start (CHR 0x60 # s)"
    by (simp add: trim_start_def strip_front.simps [of _ "CHR '' '' # _"])
  also have "\<dots> = CHR 0x60 # s" using trim_start_head ws_heads by blast
  finally show ?thesis .
qed

text \<open>
  The clause is inserted directly after the qualified name of the object, for every kind of statement
  the code names, and adding it again changes nothing.
\<close>

theorem on_cluster_inserted:
  assumes "p \<in> set cluster_prefixes" and "CHR 0x60 \<notin> set db" and "CHR 0x60 \<notin> set table"
    and "rest = [] \<or> hd rest \<noteq> CHR ''.''"
    and "ddl = p @ '' '' @ backquoted db @ ''.'' @ backquoted table @ rest"
    and "\<not> str_contains ddl ''ON CLUSTER''"
  shows "add_on_cluster_clause ddl cluster
           = p @ '' '' @ backquoted db @ ''.'' @ backquoted table @ '' ON CLUSTER '' @ single_quoted cluster @ rest
       \<and> add_on_cluster_clause (add_on_cluster_clause ddl cluster) other = add_on_cluster_clause ddl cluster"
proof -
  let ?name = "backquoted db @ ''.'' @ backquoted table"
  have bq: "backquoted db = CHR 0x60 # db @ [CHR 0x60]" by (simp add: backquoted_def)
  have f: "find (\<lambda>q. starts_with ddl q) cluster_prefixes = Some p"
    using cluster_prefix_found [OF assms(1), of "db @ ''`.'' @ backquoted table @ rest"] assms(5) bq by simp
  have t: "trim_start ('' '' @ ?name @ rest) = ?name @ rest"
    using trim_start_space_backquote [of "db @ ''`.'' @ backquoted table @ rest"] bq by simp
  have "skip_object_name (?name @ rest) = length ?name"
    using skip_backquoted(1) [OF assms(2), of "backquoted table @ rest"] skip_backquoted(2) [OF assms(3,4)]
    by (simp add: backquoted_def)
  then have a: "add_on_cluster_clause ddl cluster = p @ '' '' @ ?name @ '' ON CLUSTER '' @ single_quoted cluster @ rest"
    using assms(5,6) f t by (simp add: add_on_cluster_clause_def Let_def single_quoted_def)
  moreover have "str_contains (add_on_cluster_clause ddl cluster) ''ON CLUSTER''"
    unfolding str_contains_iff a
    by (rule exI [of _ "p @ '' '' @ ?name @ '' ''"], rule exI [of _ "'' '' @ single_quoted cluster @ rest"]) simp
  ultimately show ?thesis by (simp add: add_on_cluster_clause_def)
qed

theorem on_cluster_inserted_witness:
  "add_on_cluster_clause ''CREATE TABLE `d`.`t` (id UInt8)'' ''c''
     = ''CREATE TABLE `d`.`t` ON CLUSTER '' @ single_quoted ''c'' @ '' (id UInt8)''"
  using on_cluster_inserted [of "''CREATE TABLE''" "''d''" "''t''" "'' (id UInt8)''"
      "''CREATE TABLE `d`.`t` (id UInt8)''" "''c''" "''x''"]
  by (simp add: cluster_prefixes_def backquoted_def)

text \<open>
  Statements that create functions and named collections match none of the prefixes: they are executed
  without the clause also when a cluster is configured.
\<close>

lemma on_cluster_skips_functions:
  assumes "prefix ''CREATE FUNCTION'' ddl \<or> prefix ''CREATE NAMED COLLECTION'' ddl"
  shows "add_on_cluster_clause ddl cluster = ddl"
proof -
  have "find (\<lambda>p. starts_with (''CREATE FUNCTION'' @ r) p) cluster_prefixes = None" for r by code_simp
  moreover have "find (\<lambda>p. starts_with (''CREATE NAMED COLLECTION'' @ r) p) cluster_prefixes = None" for r
    by code_simp
  ultimately have "find (\<lambda>p. starts_with ddl p) cluster_prefixes = None"
    using assms by (metis prefixE)
  then show ?thesis by (simp add: add_on_cluster_clause_def)
qed

section \<open>Mappings\<close>

text \<open>Names that the flags can carry: no separator, no white space at the ends.\<close>

definition flag_name :: "string \<Rightarrow> bool" where
  "flag_name s \<longleftrightarrow> s \<noteq> [] \<and> CHR '','' \<notin> set s \<and> CHR '':'' \<notin> set s \<and> CHR ''.'' \<notin> set s
     \<and> list_all (\<lambda>w. \<not> prefix w s \<and> \<not> suffix w s) ws_strings"

definition show_table_pair :: "table_mapping \<Rightarrow> string" where
  "show_table_pair = (\<lambda>(a, b, c, d). a @ ''.'' @ b @ '':'' @ c @ ''.'' @ d)"

definition show_database_pair :: "string \<times> string \<Rightarrow> string" where
  "show_database_pair = (\<lambda>(a, b). a @ '':'' @ b)"

definition table_names :: "table_mapping \<Rightarrow> bool" where
  "table_names = (\<lambda>(a, b, c, d). list_all flag_name [a, b, c, d])"

definition database_names :: "string \<times> string \<Rightarrow> bool" where
  "database_names = (\<lambda>(a, b). flag_name a \<and> flag_name b)"

lemma ws_first: "\<forall>w\<in>set ws_strings. w \<noteq> [] \<and> set w \<inter> {CHR '','', CHR '':'', CHR ''.''} = {}"
  by code_simp

lemma trimmed_ends:
  assumes "flag_name a" and "flag_name b" and "s = a @ x # r" and "s = r' @ y # b"
    and "x \<in> {CHR '','', CHR '':'', CHR ''.''}" and "y \<in> {CHR '','', CHR '':'', CHR ''.''}"
  shows "trimmed s"
proof -
  have "\<not> prefix w s \<and> \<not> suffix w s" if "w \<in> set ws_strings" for w
  proof -
    have w: "\<not> prefix w a" "\<not> suffix w b" "x \<notin> set w" "y \<notin> set w"
      using that assms(1,2,5,6) ws_first by (auto simp: flag_name_def list_all_iff)
    then have "\<not> prefix w s" unfolding assms(3) by (auto simp: prefix_append prefix_Cons)
    moreover have "\<not> suffix w s" unfolding assms(4) using w by (auto simp: suffix_append suffix_Cons)
    ultimately show ?thesis by simp
  qed
  then show ?thesis by (simp add: trimmed_def list_all_iff)
qed

lemma flag_name_trimmed: "flag_name s \<Longrightarrow> trim s = s"
  by (rule trim_trimmed) (simp add: flag_name_def trimmed_def)

lemma parse_show_table_pair:
  assumes "table_names m"
  shows "trim (show_table_pair m) = show_table_pair m" and "parse_table_pair (show_table_pair m) = Inr m"
    and "CHR '','' \<notin> set (show_table_pair m)" and "show_table_pair m \<noteq> []"
proof -
  obtain a b c d where m: "m = (a, b, c, d)" by (cases m)
  have n: "flag_name a" "flag_name b" "flag_name c" "flag_name d" using assms m by (auto simp: table_names_def)
  show "trim (show_table_pair m) = show_table_pair m"
    using trimmed_ends [OF n(1) n(4), of _ "CHR ''.''" "b @ '':'' @ c @ ''.'' @ d" "a @ ''.'' @ b @ '':'' @ c" "CHR ''.''"]
    by (intro trim_trimmed) (simp add: show_table_pair_def m)
  have t: "trim (a @ CHR ''.'' # b) = a @ CHR ''.'' # b" "trim (c @ CHR ''.'' # d) = c @ CHR ''.'' # d"
    using trimmed_ends [OF n(1,2) refl refl] trimmed_ends [OF n(3,4) refl refl] by (simp_all add: trim_trimmed)
  show "parse_table_pair (show_table_pair m) = Inr m"
  proof -
    have "split_once CHR '':'' ((a @ CHR ''.'' # b) @ CHR '':'' # c @ CHR ''.'' # d) = Some (a @ CHR ''.'' # b, c @ CHR ''.'' # d)"
      using n by (intro split_once_append) (simp add: flag_name_def)
    moreover have "split_once CHR ''.'' (a @ CHR ''.'' # b) = Some (a, b)" "split_once CHR ''.'' (c @ CHR ''.'' # d) = Some (c, d)"
      using n by (simp_all add: split_once_append flag_name_def)
    ultimately show ?thesis using t by (simp add: parse_table_pair_def show_table_pair_def m)
  qed
  show "CHR '','' \<notin> set (show_table_pair m)" and "show_table_pair m \<noteq> []"
    using n by (auto simp: show_table_pair_def m flag_name_def)
qed

lemma parse_show_database_pair:
  assumes "database_names m"
  shows "trim (show_database_pair m) = show_database_pair m"
    and "parse_database_pair (show_database_pair m) = Inr m"
    and "CHR '','' \<notin> set (show_database_pair m)" and "show_database_pair m \<noteq> []"
proof -
  obtain a b where m: "m = (a, b)" by (cases m)
  have n: "flag_name a" "flag_name b" using assms m by (auto simp: database_names_def)
  show "trim (show_database_pair m) = show_database_pair m"
    using trimmed_ends [OF n refl refl] by (simp add: trim_trimmed show_database_pair_def m)
  show "parse_database_pair (show_database_pair m) = Inr m"
  proof -
    have "split_once CHR '':'' (a @ CHR '':'' # b) = Some (a, b)"
      using n(1) by (intro split_once_append) (simp add: flag_name_def)
    moreover have "a \<noteq> []" and "b \<noteq> []" using n by (simp_all add: flag_name_def)
    ultimately show ?thesis
      using flag_name_trimmed [OF n(1)] flag_name_trimmed [OF n(2)]
      by (simp add: parse_database_pair_def show_database_pair_def m)
  qed
  show "CHR '','' \<notin> set (show_database_pair m)" and "show_database_pair m \<noteq> []"
    using n by (auto simp: show_database_pair_def m flag_name_def)
qed

lemma split_on_join:
  "xs \<noteq> [] \<Longrightarrow> \<forall>x\<in>set xs. c \<notin> set x \<Longrightarrow> split_on c (join_with [c] xs) = xs"
  by (induction "[c]" xs rule: join_with.induct) (auto simp: split_on_append_sep split_on_no_sep)

lemma mapping_fields_join:
  assumes "xs \<noteq> []" and "\<forall>x\<in>set xs. trim x = x \<and> x \<noteq> [] \<and> CHR '','' \<notin> set x"
  shows "mapping_fields (join_with '','' xs) = xs"
  using assms by (simp add: mapping_fields_def split_on_join map_idI)

lemma traverse_all_Inr: "\<forall>x\<in>set xs. f (g x) = Inr x \<Longrightarrow> traverse f (map g xs) = Inr xs"
  by (induction xs) auto

text \<open>The association list of a hash map filled pair by pair: later pairs win.\<close>

lemma map_of_updates: "map_of (fold (\<lambda>(s, d). AList.update s d) ps m) = map_of m ++ map_of (rev ps)"
  by (induction ps arbitrary: m) (auto simp: update_conv' map_add_def fun_eq_iff split: option.splits)

lemma join_trimmed:
  assumes "xs \<noteq> []" and "\<forall>x\<in>set xs. database_names x"
  shows "trim (join_with '','' (map show_database_pair xs)) = join_with '','' (map show_database_pair xs)"
proof -
  obtain a b where h: "hd xs = (a, b)" by fastforce
  obtain c d where l: "last xs = (c, d)" by fastforce
  have n: "flag_name a" "flag_name d"
    using assms h l hd_in_set [OF assms(1)] last_in_set [OF assms(1)] by (auto simp: database_names_def)
  have "\<exists>r. join_with '','' (map show_database_pair xs) = a @ CHR '':'' # r"
    using assms(1) h by (cases xs rule: remdups_adj.cases) (auto simp: show_database_pair_def)
  moreover have "\<exists>r. join_with '','' (map show_database_pair xs) = r @ CHR '':'' # d"
    using assms(1) l
  proof (induction xs rule: induct_list012)
    case (3 x y zs)
    then obtain r where "join_with '','' (map show_database_pair (y # zs)) = r @ CHR '':'' # d" by auto
    then show ?case by (auto simp: Cons_eq_append_conv intro!: exI [of _ "show_database_pair x @ '','' @ r"])
  qed (auto simp: show_database_pair_def)
  ultimately show ?thesis
    using trimmed_ends [OF n] by (metis insertI1 insertI2 trim_trimmed)
qed

text \<open>What the flags ask for: the first listed rename of the table, else the last listed mapping of its database.\<close>

definition asked :: "table_mapping list \<Rightarrow> (string \<times> string) list \<Rightarrow> string \<Rightarrow> string \<Rightarrow> string \<times> string" where
  "asked renames dbs db table =
     (case map_of (map (\<lambda>(a, b, c, d). ((a, b), (c, d))) renames) (db, table) of
        Some dst \<Rightarrow> dst
      | None \<Rightarrow> (case map_of (rev dbs) db of Some d \<Rightarrow> (d, table) | None \<Rightarrow> (db, table)))"

lemma find_map_of:
  "(case find (\<lambda>(a, b, _, _). db = a \<and> table = b) ms of Some (_, _, c, d) \<Rightarrow> Some (c, d) | None \<Rightarrow> None)
     = map_of (map (\<lambda>(a, b, c, d). ((a, b), (c, d))) ms) (db, table)"
  by (induction ms) auto

text \<open>
  C35. The values of \<^verbatim>\<open>--as\<close> and \<^verbatim>\<open>-m\<close> written from lists of pairs are accepted, and the configuration they
  give sends every table where the lists say.
\<close>

theorem remap_flags_roundtrip:
  assumes "renames \<noteq> []" and "dbs \<noteq> []"
    and "\<forall>m\<in>set renames. table_names m" and "\<forall>m\<in>set dbs. database_names m"
    and "CHR ''.'' \<notin> set db"
  shows "\<exists>c. RemapConfig_new (Some (join_with '','' (map show_table_pair renames))) pat
                 (Some (join_with '','' (map show_database_pair dbs))) path = Inr (Some c)
           \<and> is_active c \<and> remap_table_key c (db @ ''.'' @ table) = asked renames dbs db table"
proof -
  let ?as = "join_with '','' (map show_table_pair renames)" and ?m = "join_with '','' (map show_database_pair dbs)"
  let ?dbs = "fold (\<lambda>(s, d). AList.update s d) dbs []"
  let ?c = "\<lparr>rc_rename_as = renames, rc_database_mapping = ?dbs, rc_default_replica_path = path\<rparr>"
  have "mapping_fields ?as = map show_table_pair renames"
    by (rule mapping_fields_join) (use assms(1,3) parse_show_table_pair in auto)
  then have "parse_table_mapping ?as = Inr renames"
    using traverse_all_Inr [of renames parse_table_pair show_table_pair] assms(1,3) parse_show_table_pair(2)
    by (simp add: parse_table_mapping_def)
  moreover have "CHR '':'' \<in> set ?as"
    using assms(1) by (cases renames rule: remdups_adj.cases) (auto simp: show_table_pair_def)
  ultimately have a: "parse_rename_as ?as pat = Inr renames" by (simp add: parse_rename_as_def)
  have f: "mapping_fields ?m = map show_database_pair dbs"
    by (rule mapping_fields_join) (use assms(2,4) parse_show_database_pair in auto)
  have ne: "?m \<noteq> []"
    using assms(2) by (cases dbs rule: remdups_adj.cases) (auto simp: show_database_pair_def)
  have "parse_database_mapping ?m = Inr ?dbs"
    using f ne join_trimmed [OF assms(2,4)] assms(4) parse_show_database_pair(2)
      traverse_all_Inr [of dbs parse_database_pair show_database_pair]
    by (simp add: parse_database_mapping_def)
  then have new: "RemapConfig_new (Some ?as) pat (Some ?m) path = Inr (Some ?c)"
    using a ne assms(1) by (simp add: RemapConfig_new_def)
  have "remap_table_key ?c (db @ ''.'' @ table) = asked renames dbs db table"
    using assms(5) map_of_updates [of dbs "[]"] find_map_of [of db table renames, symmetric]
    by (auto simp: remap_table_key_def asked_def split_once_append split: option.splits)
  then show ?thesis using new assms(1) by (intro exI [of _ ?c]) (simp add: is_active_def)
qed

theorem remap_flags_roundtrip_witness:
  "\<exists>c. RemapConfig_new (Some ''a.t:b.u'') None (Some ''a:c,a:d'') ''p'' = Inr (Some c)
     \<and> is_active c \<and> remap_table_key c ''a.v'' = (''d'', ''v'')"
proof -
  have "\<forall>m\<in>set [(''a'', ''t'', ''b'', ''u'')]. table_names m" "\<forall>m\<in>set [(''a'', ''c''), (''a'', ''d'')]. database_names m"
    by code_simp+
  from remap_flags_roundtrip [OF _ _ this, of "''a''" None "''p''" "''v''"] show ?thesis
    by (simp add: show_table_pair_def show_database_pair_def asked_def)
qed
end
