(* ===== verification/Schema.thy ===== *)
theory Schema
  imports Remap Topo Freeze
begin

text \<open>
  Model of \<^verbatim>\<open>src/restore/schema.rs\<close>: the statements that drop and create databases, tables and the
  objects without data, in the order the restore sends them. The ClickHouse server is a parameter: a
  record of the calls of \<^verbatim>\<open>ChClient\<close> over a state of the server that is left open; executing a
  statement gives an error message or success, and the next state. Macros are association lists.
  Counters of one round are natural numbers: they count the elements of a list.
\<close>

section \<open>Definitions\<close>

subsection \<open>The server\<close>

record 's ch_client =
  ch_execute :: "string \<Rightarrow> 's \<Rightarrow> string option \<times> 's"
  ch_database_exists :: "string \<Rightarrow> 's \<Rightarrow> string + bool"
  ch_table_exists :: "string \<Rightarrow> string \<Rightarrow> 's \<Rightarrow> string + bool"
  ch_zk_count :: "string \<Rightarrow> string \<Rightarrow> 's \<Rightarrow> string + u64"
  ch_database_engine :: "string \<Rightarrow> 's \<Rightarrow> string + string"

text \<open>The same server with a log of the statements it was sent.\<close>

definition traced :: "'s ch_client \<Rightarrow> ('s \<times> string list) ch_client" where
  "traced ch =
     \<lparr>ch_execute = (\<lambda>sql (s, l). let (r, s') = ch_execute ch sql s in (r, s', l @ [sql])),
      ch_database_exists = (\<lambda>db (s, l). ch_database_exists ch db s),
      ch_table_exists = (\<lambda>db t (s, l). ch_table_exists ch db t s),
      ch_zk_count = (\<lambda>p r (s, l). ch_zk_count ch p r s),
      ch_database_engine = (\<lambda>db (s, l). ch_database_engine ch db s)\<rparr>"

datatype schema_error =
  DatabaseCheckFailed string string | TableCheckFailed string string string
| CreateDatabaseFailed string string string | CreateTableFailed string string string
| RetryStuck string nat "(string \<times> string) list" | RetryExhausted "string list" nat
| ZkUnverified string string string

definition execute_ddl :: "'s ch_client \<Rightarrow> string \<Rightarrow> 's \<Rightarrow> string option \<times> 's" where
  "execute_ddl ch ddl s = ch_execute ch ddl s"

definition drop_table :: "'s ch_client \<Rightarrow> string \<Rightarrow> string \<Rightarrow> string option \<Rightarrow> 's \<Rightarrow> string option \<times> 's" where
  "drop_table ch db table on_cluster s = ch_execute ch (drop_table_sql db table on_cluster) s"

definition drop_database :: "'s ch_client \<Rightarrow> string \<Rightarrow> string option \<Rightarrow> 's \<Rightarrow> string option \<times> 's" where
  "drop_database ch db on_cluster s = ch_execute ch (drop_database_sql db on_cluster) s"

definition drop_replica_from_zkpath :: "'s ch_client \<Rightarrow> string \<Rightarrow> string \<Rightarrow> 's \<Rightarrow> string option \<times> 's" where
  "drop_replica_from_zkpath ch replica_name zk s = ch_execute ch (drop_replica_from_zkpath_sql replica_name zk) s"

datatype ZkReplicaCheck = Exists | Absent | Indeterminate

definition check_zk_replica_exists :: "'s ch_client \<Rightarrow> string \<Rightarrow> string \<Rightarrow> 's \<Rightarrow> ZkReplicaCheck" where
  "check_zk_replica_exists ch zk replica_name s =
     (case ch_zk_count ch zk replica_name s of
        Inr cnt \<Rightarrow> if 0 < cnt then Exists else Absent
      | Inl _ \<Rightarrow> Indeterminate)"

definition query_database_engine :: "'s ch_client \<Rightarrow> string \<Rightarrow> 's \<Rightarrow> string" where
  "query_database_engine ch db s = (case ch_database_engine ch db s of Inr engine \<Rightarrow> engine | Inl _ \<Rightarrow> [])"

subsection \<open>Statements\<close>

definition ensure_if_not_exists_database :: "string \<Rightarrow> string" where
  "ensure_if_not_exists_database ddl =
     (if str_contains ddl ''IF NOT EXISTS'' then ddl
      else replace_first ''CREATE DATABASE'' ''CREATE DATABASE IF NOT EXISTS'' ddl)"

definition create_kinds :: "string list" where
  "create_kinds =
     [''CREATE MATERIALIZED VIEW'', ''CREATE LIVE VIEW'', ''CREATE WINDOW VIEW'', ''CREATE TABLE'', ''CREATE VIEW'',
      ''CREATE DICTIONARY'']"

definition ensure_if_not_exists_table :: "string \<Rightarrow> string" where
  "ensure_if_not_exists_table ddl =
     (if str_contains ddl ''IF NOT EXISTS'' then ddl
      else case find (str_contains ddl) create_kinds of
        Some kind \<Rightarrow> replace_first kind (kind @ '' IF NOT EXISTS'') ddl
      | None \<Rightarrow> ddl)"

text \<open>The content of a string literal after its opening quote, and the text from the closing quote on.\<close>

fun string_literal_end :: "string \<Rightarrow> (string \<times> string) option" where
  "string_literal_end [] = None"
| "string_literal_end [c] = (if c = CHR 0x27 then Some ([], [c]) else None)"
| "string_literal_end (c # d # cs) =
     (if c = CHR 0x5C \<or> c = CHR 0x27 \<and> d = CHR 0x27
      then map_option (\<lambda>(a, b). (c # d # a, b)) (string_literal_end cs)
      else if c = CHR 0x27 then Some ([], c # d # cs)
      else map_option (\<lambda>(a, b). (c # a, b)) (string_literal_end (d # cs)))"

definition engine_name_at :: "string \<Rightarrow> string option" where
  "engine_name_at rest =
     (case strip_prefix ''ENGINE'' rest of
        None \<Rightarrow> None
      | Some after \<Rightarrow> map_option trim_start (strip_prefix ''='' (trim_start after)))"

lemma string_literal_end_Some: "string_literal_end s = Some (a, b) \<Longrightarrow> s = a @ b \<and> b \<noteq> [] \<and> hd b = CHR 0x27"
  by (induction s arbitrary: a rule: string_literal_end.induct) (auto split: if_splits)

text \<open>The text that follows the \<^verbatim>\<open>ENGINE =\<close> clause; string literals before it are stepped over.\<close>

function engine_clause :: "string \<Rightarrow> string option" where
  "engine_clause [] = None"
| "engine_clause (c # cs) =
     (case engine_name_at (c # cs) of
        Some name \<Rightarrow> Some name
      | None \<Rightarrow>
          if c = CHR 0x27
          then (case string_literal_end cs of None \<Rightarrow> None | Some (_, rest) \<Rightarrow> engine_clause (tl rest))
          else engine_clause cs)"
  by pat_completeness auto
termination
  by (relation "measure length") (auto dest!: string_literal_end_Some simp: less_Suc_eq_le)

text \<open>The first string literal of a parameter list: the text before its content, the content, the rest.\<close>

fun first_argument :: "string \<Rightarrow> (string \<times> string \<times> string) option" where
  "first_argument [] = None"
| "first_argument (c # cs) =
     (if c = CHR 0x27 then map_option (\<lambda>(a, b). ([c], a, b)) (string_literal_end cs)
      else if c = CHR '')'' then None
      else map_option (\<lambda>(x, a, b). (c # x, a, b)) (first_argument cs))"

definition engine_char :: "char \<Rightarrow> bool" where
  "engine_char c \<longleftrightarrow> ident_char c \<and> c \<noteq> CHR ''.''"

text \<open>
  The path of the engine, with the text before and after it. Engine names are ASCII, so the letters that
  follow \<^verbatim>\<open>Replicated\<close> are tested on bytes.
\<close>

definition replicated_zk_path_span :: "string \<Rightarrow> (string \<times> string \<times> string) option" where
  "replicated_zk_path_span ddl =
     (case engine_clause ddl of
        None \<Rightarrow> None
      | Some engine_name \<Rightarrow>
          if \<not> starts_with engine_name ''Replicated'' then None
          else case strip_prefix ''('' (trim_start (dropWhile engine_char engine_name)) of
            None \<Rightarrow> None
          | Some args \<Rightarrow>
              map_option (\<lambda>(x, path, rest). (take (length ddl - length args) ddl @ x, path, rest)) (first_argument args))"

definition replace_uuid_macro :: "string \<Rightarrow> string option \<Rightarrow> string" where
  "replace_uuid_macro ddl table_uuid =
     (case table_uuid of
        None \<Rightarrow> ddl
      | Some uuid \<Rightarrow>
          if uuid = [] then ddl
          else case replicated_zk_path_span ddl of
            Some (before, path, after) \<Rightarrow> before @ str_replace ''{uuid}'' uuid path @ after
          | None \<Rightarrow> ddl)"

subsection \<open>Names and clusters\<close>

definition source_names :: "string \<Rightarrow> string \<times> string" where
  "source_names table_key = (case split_once CHR ''.'' table_key of Some p \<Rightarrow> p | None \<Rightarrow> (''default'', table_key))"

definition destination :: "RemapConfig option \<Rightarrow> string \<Rightarrow> string \<times> string" where
  "destination remap table_key =
     (case remap of
        Some rc \<Rightarrow> if is_active rc then remap_table_key rc table_key else source_names table_key
      | None \<Rightarrow> source_names table_key)"

definition destination_db :: "RemapConfig option \<Rightarrow> string \<Rightarrow> string" where
  "destination_db remap db =
     (case remap of
        Some rc \<Rightarrow> if is_active rc then fst (remap_table_key rc (db @ ''.dummy'')) else db
      | None \<Rightarrow> db)"

definition effective_on_cluster :: "string list \<Rightarrow> string option \<Rightarrow> string \<Rightarrow> string option" where
  "effective_on_cluster replicated on_cluster db = (if db \<in> set replicated then None else on_cluster)"

definition with_on_cluster :: "string list \<Rightarrow> string option \<Rightarrow> string \<Rightarrow> string \<Rightarrow> string" where
  "with_on_cluster replicated on_cluster db ddl =
     (case on_cluster of
        Some cluster \<Rightarrow> if db \<notin> set replicated then add_on_cluster_clause ddl cluster else ddl
      | None \<Rightarrow> ddl)"

definition object_ddl :: "RemapConfig option \<Rightarrow> string \<Rightarrow> string \<Rightarrow> string" where
  "object_ddl remap table_key ddl =
     (let (src_db, src_table) = source_names table_key;
          (dst_db, dst_table) = destination remap table_key
      in case remap of
           Some rc \<Rightarrow>
             if is_active rc \<and> (src_db \<noteq> dst_db \<or> src_table \<noteq> dst_table)
             then ensure_if_not_exists_table
                    (rewrite_create_table_ddl ddl src_db src_table dst_db dst_table (rc_default_replica_path rc))
             else ensure_if_not_exists_table ddl
         | None \<Rightarrow> ensure_if_not_exists_table ddl)"

subsection \<open>Databases\<close>

definition create_database_with_cluster ::
    "'s ch_client \<Rightarrow> string option \<Rightarrow> string list \<Rightarrow> DatabaseInfo \<Rightarrow> 's \<Rightarrow> schema_error option \<times> 's" where
  "create_database_with_cluster ch on_cluster replicated db_info s =
     (case ch_database_exists ch (di_name db_info) s of
        Inl e \<Rightarrow> (Some (DatabaseCheckFailed (di_name db_info) e), s)
      | Inr True \<Rightarrow> (None, s)
      | Inr False \<Rightarrow>
          (let ddl = with_on_cluster replicated on_cluster (di_name db_info)
                       (ensure_if_not_exists_database (di_ddl db_info))
           in case execute_ddl ch ddl s of
                (Some e, s') \<Rightarrow> (Some (CreateDatabaseFailed (di_name db_info) ddl e), s')
              | (None, s') \<Rightarrow> (None, s')))"

text \<open>The database a manifest entry is created as.\<close>

definition target_database :: "RemapConfig option \<Rightarrow> DatabaseInfo \<Rightarrow> DatabaseInfo" where
  "target_database remap db_info =
     (let dst_db = destination_db remap (di_name db_info)
      in if dst_db \<noteq> di_name db_info
         then \<lparr>di_name = dst_db, di_ddl = rewrite_create_database_ddl (di_ddl db_info) (di_name db_info) dst_db\<rparr>
         else db_info)"

definition remap_active :: "RemapConfig option \<Rightarrow> bool" where
  "remap_active remap = (case remap of Some rc \<Rightarrow> is_active rc | None \<Rightarrow> False)"

fun create_databases_loop ::
    "'s ch_client \<Rightarrow> RemapConfig option \<Rightarrow> string option \<Rightarrow> string list \<Rightarrow> string list \<Rightarrow> DatabaseInfo list \<Rightarrow> 's
       \<Rightarrow> schema_error option \<times> 's" where
  "create_databases_loop ch remap on_cluster replicated created [] s = (None, s)"
| "create_databases_loop ch remap on_cluster replicated created (db_info # rest) s =
     (let target = target_database remap db_info
      in if remap_active remap \<and> di_name target \<in> set created
         then create_databases_loop ch remap on_cluster replicated created rest s
         else case create_database_with_cluster ch on_cluster replicated target s of
           (Some e, s') \<Rightarrow> (Some e, s')
         | (None, s') \<Rightarrow>
             create_databases_loop ch remap on_cluster replicated (di_name target # created) rest s')"

definition create_databases ::
    "'s ch_client \<Rightarrow> BackupManifest \<Rightarrow> RemapConfig option \<Rightarrow> string option \<Rightarrow> string list \<Rightarrow> 's
       \<Rightarrow> schema_error option \<times> 's" where
  "create_databases ch manifest remap on_cluster replicated s =
     create_databases_loop ch remap on_cluster replicated [] (bm_databases manifest) s"

definition DROP_PROTECTED_DATABASES :: "string list" where
  "DROP_PROTECTED_DATABASES = [''system'', ''information_schema'', ''INFORMATION_SCHEMA'']"

fun drop_databases_loop ::
    "'s ch_client \<Rightarrow> RemapConfig option \<Rightarrow> string option \<Rightarrow> string list \<Rightarrow> string list \<Rightarrow> DatabaseInfo list \<Rightarrow> 's \<Rightarrow> 's" where
  "drop_databases_loop ch remap on_cluster replicated dropped [] s = s"
| "drop_databases_loop ch remap on_cluster replicated dropped (db_info # rest) s =
     (let dst_db = destination_db remap (di_name db_info)
      in if dst_db \<in> set DROP_PROTECTED_DATABASES \<or> dst_db \<in> set dropped
         then drop_databases_loop ch remap on_cluster replicated dropped rest s
         else case drop_database ch dst_db (effective_on_cluster replicated on_cluster dst_db) s of
           (None, s') \<Rightarrow> drop_databases_loop ch remap on_cluster replicated (dst_db # dropped) rest s'
         | (Some _, s') \<Rightarrow> drop_databases_loop ch remap on_cluster replicated dropped rest s')"

definition drop_databases ::
    "'s ch_client \<Rightarrow> BackupManifest \<Rightarrow> RemapConfig option \<Rightarrow> string option \<Rightarrow> string list \<Rightarrow> 's \<Rightarrow> 's" where
  "drop_databases ch manifest remap on_cluster replicated s =
     drop_databases_loop ch remap on_cluster replicated [] (bm_databases manifest) s"

definition detect_replicated_databases ::
    "'s ch_client \<Rightarrow> BackupManifest \<Rightarrow> RemapConfig option \<Rightarrow> 's \<Rightarrow> string list" where
  "detect_replicated_databases ch manifest remap s =
     filter (\<lambda>db. query_database_engine ch db s = ''Replicated'')
       (remdups (map (\<lambda>d. destination_db remap (di_name d)) (bm_databases manifest)))"

subsection \<open>The retry loop\<close>

record RetryLoopState =
  rl_pending :: "string list"
  rl_max_rounds :: nat

datatype RetryAction = Done | Continue

definition finish_round ::
    "RetryLoopState \<Rightarrow> (string \<times> string) list \<Rightarrow> nat \<Rightarrow> nat \<Rightarrow> string \<Rightarrow> schema_error + RetryAction \<times> RetryLoopState" where
  "finish_round st failed progress round op_name =
     (if failed = [] then Inr (Done, st\<lparr>rl_pending := []\<rparr>)
      else if progress = 0 \<and> 0 < round then Inl (RetryStuck op_name (round + 1) failed)
      else Inr (Continue, st\<lparr>rl_pending := map fst failed\<rparr>))"

definition check_exhausted :: "RetryLoopState \<Rightarrow> schema_error option" where
  "check_exhausted st =
     (if rl_pending st \<noteq> [] then Some (RetryExhausted (take 5 (rl_pending st)) (rl_max_rounds st)) else None)"

text \<open>What one object of a round comes to: it counts as progress, it failed, or it is passed over.\<close>

datatype item_outcome = Progress | Failed string | Passed

fun run_round ::
    "(string \<Rightarrow> 's \<Rightarrow> item_outcome \<times> 's) \<Rightarrow> string list \<Rightarrow> 's \<Rightarrow> (string \<times> string) list \<times> nat \<times> 's" where
  "run_round one [] s = ([], 0, s)"
| "run_round one (k # ks) s =
     (case one k s of
        (r, s1) \<Rightarrow>
          (case run_round one ks s1 of
             (failed, progress, s2) \<Rightarrow>
               (case r of
                  Progress \<Rightarrow> (failed, progress + 1, s2)
                | Failed e \<Rightarrow> ((k, e) # failed, progress, s2)
                | Passed \<Rightarrow> (failed, progress, s2))))"

fun retry_rounds ::
    "(string \<Rightarrow> 's \<Rightarrow> item_outcome \<times> 's) \<Rightarrow> string \<Rightarrow> nat \<Rightarrow> nat \<Rightarrow> RetryLoopState \<Rightarrow> 's \<Rightarrow> schema_error option \<times> 's" where
  "retry_rounds one op_name 0 round st s = (check_exhausted st, s)"
| "retry_rounds one op_name (Suc left) round st s =
     (case run_round one (rl_pending st) s of
        (failed, progress, s') \<Rightarrow>
          (case finish_round st failed progress round op_name of
             Inl e \<Rightarrow> (Some e, s')
           | Inr (Done, st') \<Rightarrow> (check_exhausted st', s')
           | Inr (Continue, st') \<Rightarrow> retry_rounds one op_name left (round + 1) st' s'))"

definition ddl_retry_loop ::
    "(string \<Rightarrow> 's \<Rightarrow> item_outcome \<times> 's) \<Rightarrow> string \<Rightarrow> string list \<Rightarrow> 's \<Rightarrow> schema_error option \<times> 's" where
  "ddl_retry_loop one op_name keys s = retry_rounds one op_name 10 0 \<lparr>rl_pending = keys, rl_max_rounds = 10\<rparr> s"

definition drop_one ::
    "'s ch_client \<Rightarrow> RemapConfig option \<Rightarrow> string option \<Rightarrow> string list \<Rightarrow> string \<Rightarrow> 's \<Rightarrow> item_outcome \<times> 's" where
  "drop_one ch remap on_cluster replicated table_key s =
     (let (dst_db, dst_table) = destination remap table_key
      in case drop_table ch dst_db dst_table (effective_on_cluster replicated on_cluster dst_db) s of
           (None, s') \<Rightarrow> (Progress, s')
         | (Some e, s') \<Rightarrow> (Failed e, s'))"

definition drop_tables ::
    "'s ch_client \<Rightarrow> BackupManifest \<Rightarrow> string list \<Rightarrow> RemapConfig option \<Rightarrow> string option \<Rightarrow> string list \<Rightarrow> 's
       \<Rightarrow> schema_error option \<times> 's" where
  "drop_tables ch manifest table_keys remap on_cluster replicated s =
     (if table_keys = [] then (None, s)
      else ddl_retry_loop (drop_one ch remap on_cluster replicated) ''drop'' (sort_tables_for_drop manifest table_keys) s)"

definition create_ddl_one ::
    "'s ch_client \<Rightarrow> BackupManifest \<Rightarrow> RemapConfig option \<Rightarrow> string option \<Rightarrow> string list \<Rightarrow> string \<Rightarrow> 's
       \<Rightarrow> item_outcome \<times> 's" where
  "create_ddl_one ch manifest remap on_cluster replicated table_key s =
     (case map_of (bm_tables manifest) table_key of
        None \<Rightarrow> (Passed, s)
      | Some tm \<Rightarrow>
          (let (dst_db, dst_table) = destination remap table_key
           in if ch_table_exists ch dst_db dst_table s = Inr True then (Progress, s)
              else if tm_ddl tm = [] then (Passed, s)
              else case execute_ddl ch (with_on_cluster replicated on_cluster dst_db (object_ddl remap table_key (tm_ddl tm))) s of
                (None, s') \<Rightarrow> (Progress, s')
              | (Some e, s') \<Rightarrow> (Failed e, s')))"

definition create_ddl_objects ::
    "'s ch_client \<Rightarrow> BackupManifest \<Rightarrow> string list \<Rightarrow> RemapConfig option \<Rightarrow> string option \<Rightarrow> string list \<Rightarrow> 's
       \<Rightarrow> schema_error option \<times> 's" where
  "create_ddl_objects ch manifest ddl_keys remap on_cluster replicated s =
     (if ddl_keys = [] then (None, s)
      else ddl_retry_loop (create_ddl_one ch manifest remap on_cluster replicated) ''create'' ddl_keys s)"

subsection \<open>Tables\<close>

datatype ZkAction = DropReplica | Proceed | FailTable

fun zk_check_action :: "ZkReplicaCheck \<Rightarrow> bool \<Rightarrow> ZkAction" where
  "zk_check_action Exists strict = DropReplica"
| "zk_check_action Absent strict = Proceed"
| "zk_check_action Indeterminate strict = (if strict then FailTable else Proceed)"

definition or_insert_macro :: "string \<Rightarrow> string \<Rightarrow> (string \<times> string) list \<Rightarrow> (string \<times> string) list" where
  "or_insert_macro k v macros = (if k \<in> set (map fst macros) then macros else macros @ [(k, v)])"

definition uuid_macros :: "(string \<times> string) list \<Rightarrow> string option \<Rightarrow> (string \<times> string) list" where
  "uuid_macros macros table_uuid = (case table_uuid of Some uuid \<Rightarrow> or_insert_macro ''uuid'' uuid macros | None \<Rightarrow> macros)"

definition resolve_zk_conflict ::
    "'s ch_client \<Rightarrow> string \<Rightarrow> (string \<times> string) list \<Rightarrow> string option \<Rightarrow> string \<Rightarrow> bool \<Rightarrow> 's \<Rightarrow> schema_error option \<times> 's" where
  "resolve_zk_conflict ch ddl macros table_uuid table strict s =
     (case parse_replicated_params ddl of
        None \<Rightarrow> (None, s)
      | Some (zk_path_template, replica_template) \<Rightarrow>
          (let resolved_path = resolve_zk_macros zk_path_template (uuid_macros macros table_uuid);
               resolved_replica = resolve_zk_macros replica_template (uuid_macros macros table_uuid)
           in case zk_check_action (check_zk_replica_exists ch resolved_path resolved_replica s) strict of
                DropReplica \<Rightarrow> (None, snd (drop_replica_from_zkpath ch resolved_replica resolved_path s))
              | Proceed \<Rightarrow> (None, s)
              | FailTable \<Rightarrow> (Some (ZkUnverified table resolved_replica resolved_path), s)))"

definition is_replicated_engine :: "string \<Rightarrow> bool" where
  "is_replicated_engine engine \<longleftrightarrow> starts_with engine ''Replicated''"

record create_opts =
  co_remap :: "RemapConfig option"
  co_on_cluster :: "string option"
  co_replicated :: "string list"
  co_macros :: "(string \<times> string) list"
  co_dist_cluster :: string
  co_zk_check_strict :: bool
  co_replace_uuid :: bool

text \<open>The statement that creates a table, after every rewriting step.\<close>

definition table_statement :: "create_opts \<Rightarrow> string \<Rightarrow> TableManifest \<Rightarrow> string" where
  "table_statement opts table_key tm =
     (let (dst_db, dst_table) = destination (co_remap opts) table_key;
          ddl = object_ddl (co_remap opts) table_key (tm_ddl tm);
          ddl = (if co_dist_cluster opts \<noteq> [] then rewrite_distributed_cluster ddl (co_dist_cluster opts) else ddl);
          ddl = with_on_cluster (co_replicated opts) (co_on_cluster opts) dst_db ddl
      in if co_replace_uuid opts then replace_uuid_macro ddl (tm_uuid tm) else ddl)"

definition table_macros :: "create_opts \<Rightarrow> string \<Rightarrow> (string \<times> string) list" where
  "table_macros opts table_key =
     (let (dst_db, dst_table) = destination (co_remap opts) table_key
      in or_insert_macro ''table'' dst_table (or_insert_macro ''database'' dst_db (co_macros opts)))"

definition create_table_one ::
    "'s ch_client \<Rightarrow> BackupManifest \<Rightarrow> create_opts \<Rightarrow> string \<Rightarrow> 's \<Rightarrow> schema_error option \<times> 's" where
  "create_table_one ch manifest opts table_key s =
     (case map_of (bm_tables manifest) table_key of
        None \<Rightarrow> (None, s)
      | Some tm \<Rightarrow>
          (let (dst_db, dst_table) = destination (co_remap opts) table_key;
               dst_key = dst_db @ ''.'' @ dst_table;
               ddl = table_statement opts table_key tm
           in case ch_table_exists ch dst_db dst_table s of
                Inl e \<Rightarrow> (Some (TableCheckFailed dst_db dst_table e), s)
              | Inr True \<Rightarrow> (None, s)
              | Inr False \<Rightarrow>
                  if tm_ddl tm = [] then (None, s)
                  else case (if is_replicated_engine (tm_engine tm)
                             then resolve_zk_conflict ch ddl (table_macros opts table_key) (tm_uuid tm) dst_key
                                    (co_zk_check_strict opts) s
                             else (None, s)) of
                    (Some e, s') \<Rightarrow> (Some e, s')
                  | (None, s') \<Rightarrow>
                      (case execute_ddl ch ddl s' of
                         (Some e, s'') \<Rightarrow> (Some (CreateTableFailed dst_key ddl e), s'')
                       | (None, s'') \<Rightarrow> (None, s''))))"

fun create_tables_loop ::
    "'s ch_client \<Rightarrow> BackupManifest \<Rightarrow> create_opts \<Rightarrow> string list \<Rightarrow> 's \<Rightarrow> schema_error option \<times> 's" where
  "create_tables_loop ch manifest opts [] s = (None, s)"
| "create_tables_loop ch manifest opts (k # ks) s =
     (case create_table_one ch manifest opts k s of
        (Some e, s') \<Rightarrow> (Some e, s')
      | (None, s') \<Rightarrow> create_tables_loop ch manifest opts ks s')"

definition create_tables ::
    "'s ch_client \<Rightarrow> BackupManifest \<Rightarrow> string list \<Rightarrow> bool \<Rightarrow> create_opts \<Rightarrow> 's \<Rightarrow> schema_error option \<times> 's" where
  "create_tables ch manifest table_keys data_only opts s =
     (if data_only then (None, s) else create_tables_loop ch manifest opts table_keys s)"

subsection \<open>Functions and named collections\<close>

fun create_each :: "'s ch_client \<Rightarrow> string option \<Rightarrow> string list \<Rightarrow> 's \<Rightarrow> nat \<times> 's" where
  "create_each ch on_cluster [] s = (0, s)"
| "create_each ch on_cluster (ddl # rest) s =
     (case execute_ddl ch (case on_cluster of Some cluster \<Rightarrow> add_on_cluster_clause ddl cluster | None \<Rightarrow> ddl) s of
        (r, s') \<Rightarrow>
          (case create_each ch on_cluster rest s' of
             (created, s'') \<Rightarrow> (if r = None then created + 1 else created, s'')))"

definition create_functions :: "'s ch_client \<Rightarrow> BackupManifest \<Rightarrow> string option \<Rightarrow> 's \<Rightarrow> nat \<times> 's" where
  "create_functions ch manifest on_cluster s = create_each ch on_cluster (bm_functions manifest) s"

definition restore_named_collections :: "'s ch_client \<Rightarrow> BackupManifest \<Rightarrow> string option \<Rightarrow> 's \<Rightarrow> nat \<times> 's" where
  "restore_named_collections ch manifest on_cluster s = create_each ch on_cluster (bm_named_collections manifest) s"

section \<open>The retry loop\<close>

lemma run_round_keeps:
  assumes "\<And>k j s. k \<in> set ks \<Longrightarrow> P j s \<Longrightarrow> P j (snd (one k s))" and "P j s"
    and "run_round one ks s = (failed, progress, s')"
  shows "P j s'"
  using assms
proof (induction ks arbitrary: s failed progress)
  case (Cons k ks)
  obtain r s1 where o: "one k s = (r, s1)" by fastforce
  have "P j s1" using Cons.prems(1) [OF _ Cons.prems(2), of k] o by simp
  moreover obtain f p where "run_round one ks s1 = (f, p, s')"
    using Cons.prems(3) o by (auto split: prod.splits item_outcome.splits)
  ultimately show ?case using Cons.IH [of s1 f p] Cons.prems(1) by simp
qed simp

text \<open>
  One round over objects that are never passed over: what is not reported as failed is there at the end,
  an object whose needs were there at the start is not reported, and a round that reports fewer objects
  than it was given counts progress.
\<close>

lemma run_round_spec:
  assumes keep: "\<And>k j s. k \<in> set ks \<Longrightarrow> P j s \<Longrightarrow> P j (snd (one k s))"
    and prog: "\<And>k s. k \<in> set ks \<Longrightarrow> fst (one k s) = Progress \<Longrightarrow> P k (snd (one k s))"
    and ready: "\<And>k s. k \<in> set ks \<Longrightarrow> \<forall>d\<in>needs k. P d s \<Longrightarrow> fst (one k s) = Progress"
    and act: "\<And>k s. k \<in> set ks \<Longrightarrow> fst (one k s) \<noteq> Passed"
    and run: "run_round one ks s = (failed, progress, s')"
  shows "set (map fst failed) \<subseteq> set ks \<and> (\<forall>k\<in>set ks. k \<notin> set (map fst failed) \<longrightarrow> P k s' \<and> 0 < progress)
       \<and> (\<forall>k\<in>set ks. (\<forall>d\<in>needs k. P d s) \<longrightarrow> k \<notin> set (map fst failed))"
  using keep prog ready act run
proof (induction ks arbitrary: s failed progress)
  case (Cons k ks)
  obtain r s1 where o: "one k s = (r, s1)" by fastforce
  obtain f p where rr: "run_round one ks s1 = (f, p, s')"
    using Cons.prems(5) o by (auto split: prod.splits item_outcome.splits)
  have IH: "set (map fst f) \<subseteq> set ks" "\<forall>k\<in>set ks. k \<notin> set (map fst f) \<longrightarrow> P k s' \<and> 0 < p"
    "\<forall>k\<in>set ks. (\<forall>d\<in>needs k. P d s1) \<longrightarrow> k \<notin> set (map fst f)"
    using Cons.IH [OF _ _ _ _ rr] Cons.prems(1-4) by auto
  have step: "\<And>j. P j s \<Longrightarrow> P j s1" using Cons.prems(1) [of k _ s] o by simp
  show ?case
  proof (cases r)
    case Progress
    then have "P k s1" using Cons.prems(2) [of k s] o by simp
    then have "P k s'" using run_round_keeps [where P = P, OF Cons.prems(1) _ rr] by simp
    moreover have "failed = f" "progress = p + 1" using Cons.prems(5) o rr Progress by auto
    moreover have "k \<notin> set (map fst f)" if "k \<notin> set ks" using IH(1) that by blast
    moreover have "k \<notin> set (map fst f)" if "\<forall>d\<in>needs k. P d s" using IH(1,3) that step by blast
    ultimately show ?thesis using IH step by simp blast
  next
    case (Failed e)
    then have "\<not> (\<forall>d\<in>needs k. P d s)" using Cons.prems(3) [of k s] o by auto
    moreover have "failed = (k, e) # f" "progress = p" using Cons.prems(5) o rr Failed by auto
    ultimately show ?thesis using IH step by simp blast
  next
    case Passed
    then show ?thesis using Cons.prems(4) [of k s] o by simp
  qed
qed simp

text \<open>Objects ranked by their needs are all done after as many rounds as there are ranks.\<close>

lemma retry_rounds_converge:
  assumes keep: "\<And>k j s. k \<in> K \<Longrightarrow> P j s \<Longrightarrow> P j (snd (one k s))"
    and prog: "\<And>k s. k \<in> K \<Longrightarrow> fst (one k s) = Progress \<Longrightarrow> P k (snd (one k s))"
    and ready: "\<And>k s. k \<in> K \<Longrightarrow> \<forall>d\<in>needs k. P d s \<Longrightarrow> fst (one k s) = Progress"
    and act: "\<And>k s. k \<in> K \<Longrightarrow> fst (one k s) \<noteq> Passed"
    and "\<forall>k\<in>K. \<forall>d\<in>needs k. (d \<in> K \<and> rank d < (rank k :: nat)) \<or> P d s"
    and "set (rl_pending st) \<subseteq> K" and "\<forall>k\<in>K. k \<notin> set (rl_pending st) \<longrightarrow> P k s"
    and "\<forall>k\<in>set (rl_pending st). round \<le> rank k \<and> rank k < round + left"
  shows "fst (retry_rounds one op_name left round st s) = None
       \<and> (\<forall>k\<in>K. P k (snd (retry_rounds one op_name left round st s)))"
  using assms(5-)
proof (induction left arbitrary: round st s)
  case 0
  then have "rl_pending st = []" by (cases "rl_pending st") auto
  with 0 show ?case by (simp add: check_exhausted_def)
next
  case (Suc left)
  obtain f p s' where rr: "run_round one (rl_pending st) s = (f, p, s')" by (metis prod_cases3)
  have spec: "set (map fst f) \<subseteq> set (rl_pending st)
      \<and> (\<forall>k\<in>set (rl_pending st). k \<notin> set (map fst f) \<longrightarrow> P k s' \<and> 0 < p)
      \<and> (\<forall>k\<in>set (rl_pending st). (\<forall>d\<in>needs k. P d s) \<longrightarrow> k \<notin> set (map fst f))"
    by (rule run_round_spec [where one = one]) (use keep prog ready act rr Suc.prems(2) in \<open>auto 0 3\<close>)
  have sub: "set (map fst f) \<subseteq> set (rl_pending st)"
    and there: "\<forall>k\<in>set (rl_pending st). k \<notin> set (map fst f) \<longrightarrow> P k s' \<and> 0 < p"
    and free: "\<forall>k\<in>set (rl_pending st). (\<forall>d\<in>needs k. P d s) \<longrightarrow> k \<notin> set (map fst f)"
    using spec Suc.prems(2) by auto
  have kept: "P j s \<Longrightarrow> P j s'" for j using run_round_keeps [where P = P, OF keep _ rr] Suc.prems(2) by blast
  have all': "\<forall>k\<in>K. k \<notin> set (map fst f) \<longrightarrow> P k s'"
    using Suc.prems(3) there kept by blast
  show ?case
  proof (cases "f = []")
    case True
    with rr all' show ?thesis by (simp add: finish_round_def check_exhausted_def)
  next
    case False
    have low: "k \<notin> set (map fst f)" if "k \<in> set (rl_pending st)" "\<forall>j\<in>set (rl_pending st). rank k \<le> rank j" for k
    proof -
      have "k \<in> K" using that(1) Suc.prems(2) by blast
      then have "P d s" if "d \<in> needs k" for d
        using that Suc.prems(1,3) \<open>\<forall>j\<in>set (rl_pending st). rank k \<le> rank j\<close> by (metis not_le)
      then show ?thesis using free that(1) by blast
    qed
    have "rl_pending st \<noteq> []" using False rr by auto
    then obtain m where m: "m \<in> set (rl_pending st)" "\<forall>j\<in>set (rl_pending st). rank m \<le> rank j"
      using arg_min_list_in [of "rl_pending st" rank] f_arg_min_list_f [of "rl_pending st" rank]
      by (metis Min_le finite_imageI finite_set image_eqI list.set_map)
    then have p: "0 < p" using low there by blast
    have next_ranks: "\<forall>k\<in>set (map fst f). round + 1 \<le> rank k \<and> rank k < round + 1 + left"
    proof
      fix k assume k: "k \<in> set (map fst f)"
      then have "k \<in> set (rl_pending st)" using sub by blast
      moreover have "rank k \<noteq> round" using low [of k] k calculation Suc.prems(4) by force
      ultimately show "round + 1 \<le> rank k \<and> rank k < round + 1 + left" using Suc.prems(4) by fastforce
    qed
    have "fst (retry_rounds one op_name left (round + 1) (st\<lparr>rl_pending := map fst f\<rparr>) s') = None \<and>
      (\<forall>k\<in>K. P k (snd (retry_rounds one op_name left (round + 1) (st\<lparr>rl_pending := map fst f\<rparr>) s')))"
      by (rule Suc.IH) (use Suc.prems(1,2) kept sub all' next_ranks in \<open>auto 0 3\<close>)
    with False p rr show ?thesis by (simp add: finish_round_def)
  qed
qed

definition present :: "'s ch_client \<Rightarrow> RemapConfig option \<Rightarrow> string \<Rightarrow> 's \<Rightarrow> bool" where
  "present ch remap k s \<longleftrightarrow> (let (db, table) = destination remap k in ch_table_exists ch db table s = Inr True)"

definition object_statement ::
    "BackupManifest \<Rightarrow> RemapConfig option \<Rightarrow> string option \<Rightarrow> string list \<Rightarrow> string \<Rightarrow> string" where
  "object_statement manifest remap on_cluster replicated k =
     (case map_of (bm_tables manifest) k of
        Some tm \<Rightarrow> with_on_cluster replicated on_cluster (fst (destination remap k)) (object_ddl remap k (tm_ddl tm))
      | None \<Rightarrow> [])"

lemma create_ddl_one_eq:
  assumes "map_of (bm_tables manifest) k = Some tm" and "tm_ddl tm \<noteq> []"
  shows "create_ddl_one ch manifest remap on_cluster replicated k s =
    (if present ch remap k s then (Progress, s)
     else case ch_execute ch (object_statement manifest remap on_cluster replicated k) s of
       (None, s') \<Rightarrow> (Progress, s') | (Some e, s') \<Rightarrow> (Failed e, s'))"
  using assms
  by (simp add: create_ddl_one_def present_def object_statement_def execute_ddl_def split: prod.split)

text \<open>
  C14. Views, dictionaries and other objects without data are all created, in whatever order they are listed,
  when a statement succeeds once the objects it needs exist, no statement removes an object, and the
  needs are at most ten levels deep.
\<close>

theorem create_ddl_objects_converge:
  fixes rank :: "string \<Rightarrow> nat"
  assumes listed: "\<forall>k\<in>set keys. \<exists>tm. map_of (bm_tables manifest) k = Some tm \<and> tm_ddl tm \<noteq> []"
    and keep: "\<forall>k\<in>set keys. \<forall>j s. present ch remap j s \<longrightarrow>
                 present ch remap j (snd (ch_execute ch (object_statement manifest remap on_cluster replicated k) s))"
    and creates: "\<forall>k\<in>set keys. \<forall>s s'. ch_execute ch (object_statement manifest remap on_cluster replicated k) s = (None, s')
                 \<longrightarrow> present ch remap k s'"
    and ready: "\<forall>k\<in>set keys. \<forall>s. (\<forall>d\<in>needs k. present ch remap d s)
                 \<longrightarrow> fst (ch_execute ch (object_statement manifest remap on_cluster replicated k) s) = None"
    and levels: "\<forall>k\<in>set keys. rank k < 10 \<and> (\<forall>d\<in>needs k. d \<in> set keys \<and> rank d < rank k \<or> present ch remap d s)"
  shows "fst (create_ddl_objects ch manifest keys remap on_cluster replicated s) = None
       \<and> (\<forall>k\<in>set keys. present ch remap k (snd (create_ddl_objects ch manifest keys remap on_cluster replicated s)))"
proof -
  let ?one = "create_ddl_one ch manifest remap on_cluster replicated"
  have one: "\<exists>tm. map_of (bm_tables manifest) k = Some tm \<and> tm_ddl tm \<noteq> []" if "k \<in> set keys" for k
    using listed that by blast
  have a: "present ch remap j (snd (?one k t))" if "k \<in> set keys" "present ch remap j t" for k j t
    using one [OF that(1)] that keep [rule_format, OF that]
    by (auto simp: create_ddl_one_eq split: prod.split option.split)
  have b: "present ch remap k (snd (?one k t))" if "k \<in> set keys" "fst (?one k t) = Progress" for k t
    using one [OF that(1)] that creates [rule_format, OF that(1), of t]
    by (auto simp: create_ddl_one_eq split: prod.splits option.splits if_splits)
  have c: "fst (?one k t) = Progress" if "k \<in> set keys" "\<forall>d\<in>needs k. present ch remap d t" for k t
    using one [OF that(1)] ready [rule_format, OF that(1), of t] that
    by (auto simp: create_ddl_one_eq split: prod.splits option.splits)
  have d: "fst (?one k t) \<noteq> Passed" if "k \<in> set keys" for k t
    using one [OF that] by (auto simp: create_ddl_one_eq split: prod.splits option.splits if_splits)
  have "fst (ddl_retry_loop ?one ''create'' keys s) = None
      \<and> (\<forall>k\<in>set keys. present ch remap k (snd (ddl_retry_loop ?one ''create'' keys s)))"
    unfolding ddl_retry_loop_def
    by (rule retry_rounds_converge [where K = "set keys" and needs = needs and rank = rank])
      (use a b c d levels in auto)
  then show ?thesis by (auto simp: create_ddl_objects_def)
qed

text \<open>Two views listed in the wrong order: the first needs the second.\<close>

definition view_entry :: "string \<Rightarrow> TableManifest" where
  "view_entry d =
     \<lparr>tm_ddl = d, tm_uuid = None, tm_engine = ''View'', tm_total_bytes = 0, tm_parts = [], tm_pending_mutations = [],
      tm_metadata_only = True, tm_dependencies = []\<rparr>"

definition view_manifest :: BackupManifest where
  "view_manifest = (blank_manifest ''b'')
     \<lparr>bm_tables := map (\<lambda>(k, d). (k, view_entry d))
        [(''d.u'', ''CREATE VIEW d.u''), (''d.v'', ''CREATE VIEW d.v'')]\<rparr>"

definition view_server :: "string list ch_client" where
  "view_server =
     \<lparr>ch_execute = (\<lambda>sql s. if sql = ''CREATE VIEW IF NOT EXISTS d.v'' \<and> ''CREATE VIEW IF NOT EXISTS d.u'' \<notin> set s
                             then (Some ''unknown table'', s) else (None, sql # s)),
      ch_database_exists = (\<lambda>db s. Inr True),
      ch_table_exists = (\<lambda>db t s. Inr (''CREATE VIEW IF NOT EXISTS '' @ db @ ''.'' @ t \<in> set s)),
      ch_zk_count = (\<lambda>p r s. Inr 0),
      ch_database_engine = (\<lambda>db s. Inr ''Atomic'')\<rparr>"

lemma view_statements:
  "object_statement view_manifest None None [] ''d.u'' = ''CREATE VIEW IF NOT EXISTS d.u''"
  "object_statement view_manifest None None [] ''d.v'' = ''CREATE VIEW IF NOT EXISTS d.v''"
  "destination None ''d.u'' = (''d'', ''u'')" "destination None ''d.v'' = (''d'', ''v'')"
  by code_simp+

theorem create_ddl_objects_converge_witness:
  "fst (create_ddl_objects view_server view_manifest [''d.v'', ''d.u''] None None [] []) = None
     \<and> present view_server None ''d.v'' (snd (create_ddl_objects view_server view_manifest [''d.v'', ''d.u''] None None [] []))
     \<and> present view_server None ''d.u'' (snd (create_ddl_objects view_server view_manifest [''d.v'', ''d.u''] None None [] []))"
proof -
  have "fst (create_ddl_objects view_server view_manifest [''d.v'', ''d.u''] None None [] []) = None
     \<and> (\<forall>k\<in>set [''d.v'', ''d.u'']. present view_server None k
           (snd (create_ddl_objects view_server view_manifest [''d.v'', ''d.u''] None None [] [])))"
  proof (rule create_ddl_objects_converge [where needs = "\<lambda>k. if k = ''d.v'' then {''d.u''} else {}"
        and rank = "\<lambda>k. if k = ''d.v'' then 1 else 0"])
    show "\<forall>k\<in>set [''d.v'', ''d.u'']. \<exists>tm. map_of (bm_tables view_manifest) k = Some tm \<and> tm_ddl tm \<noteq> []"
      by (simp add: view_manifest_def view_entry_def)
  qed (auto simp: view_statements present_def view_server_def split: if_splits)
  then show ?thesis by simp
qed

section \<open>Creating and dropping\<close>

lemma traced_simps [simp]:
  "ch_execute (traced ch) sql (s, l) = (fst (ch_execute ch sql s), snd (ch_execute ch sql s), l @ [sql])"
  "ch_database_exists (traced ch) db (s, l) = ch_database_exists ch db s"
  "ch_table_exists (traced ch) db t (s, l) = ch_table_exists ch db t s"
  "ch_zk_count (traced ch) p r (s, l) = ch_zk_count ch p r s"
  "ch_database_engine (traced ch) db (s, l) = ch_database_engine ch db s"
  by (simp_all add: traced_def split: prod.split)

text \<open>The path and replica a table's statement would register, after macro expansion.\<close>

definition statement_replica :: "create_opts \<Rightarrow> string \<Rightarrow> TableManifest \<Rightarrow> (string \<times> string) option" where
  "statement_replica opts k tm =
     (let macros = uuid_macros (table_macros opts k) (tm_uuid tm)
      in map_option (\<lambda>(p, r). (resolve_zk_macros p macros, resolve_zk_macros r macros))
           (parse_replicated_params (table_statement opts k tm)))"


definition zk_manifest :: BackupManifest where
  "zk_manifest = (blank_manifest ''b'')
     \<lparr>bm_tables := [(''d.t'', (view_entry (''CREATE TABLE d.t (id Int8) '' @ sample_replicated))
        \<lparr>tm_engine := ''ReplicatedMergeTree''\<rparr>)]\<rparr>"

definition zk_opts :: create_opts where
  "zk_opts = \<lparr>co_remap = None, co_on_cluster = None, co_replicated = [], co_macros = [(''shard'', ''1''), (''replica'', ''r'')],
     co_dist_cluster = [], co_zk_check_strict = True, co_replace_uuid = False\<rparr>"

definition zk_server :: "string list ch_client" where
  "zk_server = view_server\<lparr>ch_zk_count := \<lambda>p r s. Inr (if p = ''/old/1'' \<and> r = ''r'' then 1 else 0)\<rparr>"


text \<open>
  The check reads the first quoted text after the first word that starts with \<^verbatim>\<open>Replicated\<close>, not the one
  of the engine clause: a column of such a name makes it look up, and drop a replica at, a path that the
  table does not use.
\<close>

definition decoy_ddl :: string where
  "decoy_ddl = ''CREATE TABLE d.t (ReplicatedCol String DEFAULT concat('' @ single_quoted ''/x'' @ '', '' @ single_quoted ''y'' @ '')) ''
     @ sample_replicated"

theorem zk_check_reads_decoy:
  "parse_replicated_params decoy_ddl = Some (''/x'', ''y'')
     \<and> map_option (\<lambda>(_, path, _). path) (replicated_zk_path_span decoy_ddl) = Some ''/old/{shard}''"
  by code_simp

lemma drop_databases_loop_sent:
  "q \<in> set (snd (drop_databases_loop (traced ch) remap on_cluster replicated dropped dbs (s, l))) \<Longrightarrow>
     q \<in> set l \<or> (\<exists>d\<in>set dbs. let db = destination_db remap (di_name d) in
        db \<notin> set DROP_PROTECTED_DATABASES \<and> q = drop_database_sql db (effective_on_cluster replicated on_cluster db))"
proof (induction dbs arbitrary: dropped s l)
  case (Cons d dbs)
  then show ?case
    by (fastforce simp: Let_def drop_database_def split: if_splits option.splits prod.splits)
qed simp

text \<open>
  Dropping databases never names a system database; every database named is the destination of one of
  the manifest, and one of a replicated database is dropped without a cluster clause.
\<close>

theorem drop_databases_spares_system:
  assumes "q \<in> set (snd (drop_databases (traced ch) manifest remap on_cluster replicated (s, [])))"
  shows "\<exists>d\<in>set (bm_databases manifest). \<exists>db. db = destination_db remap (di_name d)
      \<and> db \<notin> {''system'', ''information_schema'', ''INFORMATION_SCHEMA''}
      \<and> q = drop_database_sql db (if db \<in> set replicated then None else on_cluster)"
  using drop_databases_loop_sent [of q ch remap on_cluster replicated "[]" "bm_databases manifest" s "[]"] assms
  by (fastforce simp: drop_databases_def Let_def DROP_PROTECTED_DATABASES_def effective_on_cluster_def)

definition database_manifest :: BackupManifest where
  "database_manifest = (blank_manifest ''b'')
     \<lparr>bm_databases := [\<lparr>di_name = ''system'', di_ddl = []\<rparr>, \<lparr>di_name = ''d'', di_ddl = []\<rparr>]\<rparr>"

theorem drop_databases_spares_system_witness:
  "\<exists>d\<in>set (bm_databases database_manifest). \<exists>db. db = destination_db None (di_name d)
      \<and> db \<notin> {''system'', ''information_schema'', ''INFORMATION_SCHEMA''}
      \<and> drop_database_sql ''d'' (Some ''c'') = drop_database_sql db (if db \<in> set [] then None else Some ''c'')"
proof (rule drop_databases_spares_system)
  show "drop_database_sql ''d'' (Some ''c'')
    \<in> set (snd (drop_databases (traced view_server) database_manifest None (Some ''c'') [] ([], [])))"
    by code_simp
qed

section \<open>Functions and named collections\<close>

lemma create_each_cluster:
  "\<forall>ddl\<in>set ddls. prefix ''CREATE FUNCTION'' ddl \<or> prefix ''CREATE NAMED COLLECTION'' ddl \<Longrightarrow>
     create_each ch (Some cluster) ddls s = create_each ch None ddls s"
  by (induction ddls arbitrary: s) (simp_all add: on_cluster_skips_functions split: prod.split)

text \<open>
  A configured cluster has no effect on functions and named collections: they are created on the one
  server, with the statements of the manifest.
\<close>

theorem functions_ignore_cluster:
  assumes "\<forall>ddl\<in>set (bm_functions manifest). prefix ''CREATE FUNCTION'' ddl"
    and "\<forall>ddl\<in>set (bm_named_collections manifest). prefix ''CREATE NAMED COLLECTION'' ddl"
  shows "create_functions ch manifest (Some cluster) s = create_functions ch manifest None s
       \<and> restore_named_collections ch manifest (Some cluster) s = restore_named_collections ch manifest None s"
  using assms by (simp add: create_functions_def restore_named_collections_def create_each_cluster)

theorem functions_ignore_cluster_witness:
  "create_functions (traced view_server) ((blank_manifest ''b'')\<lparr>bm_functions := [''CREATE FUNCTION f AS x -> x'']\<rparr>) (Some ''c'') ([], [])
     = (1, [''CREATE FUNCTION f AS x -> x''], [''CREATE FUNCTION f AS x -> x''])"
proof -
  let ?m = "(blank_manifest ''b'')\<lparr>bm_functions := [''CREATE FUNCTION f AS x -> x'']\<rparr>"
  have "create_functions (traced view_server) ?m (Some ''c'') ([], []) = create_functions (traced view_server) ?m None ([], [])"
    using functions_ignore_cluster [of ?m "traced view_server" "''c''" "([], [])"] by (simp add: blank_manifest_def)
  also have "\<dots> = (1, [''CREATE FUNCTION f AS x -> x''], [''CREATE FUNCTION f AS x -> x''])" by code_simp
  finally show ?thesis .
qed

end
