(* ===== verification/Resume.thy ===== *)
theory Resume
  imports Prelude
begin

text \<open>
  Model of \<^verbatim>\<open>src/resume.rs\<close>: the state that lets an interrupted upload, download or restore continue, the
  hash of the parameters it belongs to, and the file it is kept in. A file system is a map from paths to
  contents. The JSON text of a state is written and read by serde, a parameter of the model.
\<close>

unbundle bit_operations_syntax

section \<open>Definitions\<close>

subsection \<open>States\<close>

record UploadState =
  us_completed_keys :: "string set"
  us_backup_name :: string
  us_params_hash :: string

record DownloadState =
  ds_completed_keys :: "string set"
  ds_backup_name :: string
  ds_params_hash :: string
  ds_disk_map :: "(string \<times> string) list"

record RestoreState =
  rs_attached_parts :: "(string \<times> string list) list"
  rs_backup_name :: string
  rs_params_hash :: string

record RestoreParams =
  rp_backup_name :: string
  rp_tables :: "string option"
  rp_schema_only :: bool
  rp_data_only :: bool
  rp_rm :: bool
  rp_rename_as :: "string option"
  rp_database_mapping :: "(string \<times> string) list"
  rp_rbac :: bool
  rp_configs :: bool
  rp_named_collections :: bool
  rp_partitions :: "string option"
  rp_skip_empty_tables :: bool

definition restore_params_path :: "string \<Rightarrow> string" where
  "restore_params_path backup_dir = backup_dir @ ''/restore.params.json''"

subsection \<open>State files\<close>

type_synonym files = "string \<Rightarrow> string option"

datatype state_error = CannotSerialize | CannotCreateDirectory | CannotWrite | CannotRename | CannotRead | CannotParse

text \<open>
  \<^verbatim>\<open>Path::with_extension\<close>: the last extension of the file name is replaced. The state files all have an
  extension; a name without one gets it appended.
\<close>

definition with_extension :: "string \<Rightarrow> string \<Rightarrow> string" where
  "with_extension path ext =
     (case rsplitn 2 CHR ''.'' path of
        [ending, stem] \<Rightarrow> if CHR ''/'' \<in> set ending then path @ ''.'' @ ext else stem @ ''.'' @ ext
      | _ \<Rightarrow> path @ ''.'' @ ext)"

definition tmp_path :: "string \<Rightarrow> string" where
  "tmp_path path = with_extension path ''json.tmp''"

text \<open>What the operating system lets the process do.\<close>

record io_result =
  io_mkdir_ok :: bool
  io_written :: "nat option"
  io_rename_ok :: bool

text \<open>
  A failed write leaves the part of the content that was written. The temporary file is renamed only
  after all of it was written.
\<close>

definition save_state_file ::
    "('a \<Rightarrow> string option) \<Rightarrow> io_result \<Rightarrow> string \<Rightarrow> 'a \<Rightarrow> files \<Rightarrow> (state_error + unit) \<times> files" where
  "save_state_file enc io path state fs =
     (case enc state of
        None \<Rightarrow> (Inl CannotSerialize, fs)
      | Some json \<Rightarrow>
          if \<not> io_mkdir_ok io then (Inl CannotCreateDirectory, fs)
          else case io_written io of
            Some n \<Rightarrow> (Inl CannotWrite, fs(tmp_path path \<mapsto> take n json))
          | None \<Rightarrow>
              if \<not> io_rename_ok io then (Inl CannotRename, fs(tmp_path path \<mapsto> json))
              else (Inr (), (fs(tmp_path path := None))(path \<mapsto> json)))"

definition load_state_file :: "(string \<Rightarrow> 'a option) \<Rightarrow> files \<Rightarrow> string \<Rightarrow> state_error + 'a option" where
  "load_state_file dec fs path =
     (case fs path of
        None \<Rightarrow> Inr None
      | Some contents \<Rightarrow> (case dec contents of None \<Rightarrow> Inl CannotParse | Some state \<Rightarrow> Inr (Some state)))"

definition save_state_graceful :: "('a \<Rightarrow> string option) \<Rightarrow> io_result \<Rightarrow> string \<Rightarrow> 'a \<Rightarrow> files \<Rightarrow> files" where
  "save_state_graceful enc io path state fs = snd (save_state_file enc io path state fs)"

definition delete_state_file :: "bool \<Rightarrow> string \<Rightarrow> files \<Rightarrow> files" where
  "delete_state_file removable path fs = (if removable then fs(path := None) else fs)"

text \<open>The file systems a crash during \<^verbatim>\<open>save_state_file\<close> may leave.\<close>

definition crash_points :: "string \<Rightarrow> string \<Rightarrow> files \<Rightarrow> files list" where
  "crash_points path json fs =
     fs # map (\<lambda>n. fs(tmp_path path \<mapsto> take n json)) [0..<length json + 1]
       @ [(fs(tmp_path path := None))(path \<mapsto> json)]"

subsection \<open>The hash of the parameters\<close>

definition FNV_OFFSET_BASIS :: u64 where "FNV_OFFSET_BASIS = 14695981039346656037"

definition FNV_PRIME :: u64 where "FNV_PRIME = 1099511628211"

definition fnv_byte :: "u64 \<Rightarrow> u64 \<Rightarrow> u64" where
  "fnv_byte b hash = (hash XOR b) * FNV_PRIME"

definition fnv_param :: "string \<Rightarrow> u64 \<Rightarrow> u64" where
  "fnv_param p hash = fnv_byte 0xFF (fold (\<lambda>c. fnv_byte (of_nat (of_char c))) p hash)"

definition lower_hex :: "nat \<Rightarrow> char" where
  "lower_hex d = char_of (if d < 10 then 48 + d else 87 + d)"

definition hex16 :: "u64 \<Rightarrow> string" where
  "hex16 h = map (\<lambda>i. lower_hex (unat (drop_bit (4 * i) h AND 15))) (rev [0..<16])"

definition compute_params_hash :: "string list \<Rightarrow> string" where
  "compute_params_hash params = hex16 (fold fnv_param params FNV_OFFSET_BASIS)"

section \<open>The hash tells parameters apart\<close>

lemma fnv_prime_invertible: "FNV_PRIME * 14886173955864302971 = 1"
  by (simp add: FNV_PRIME_def)

lemma mult_prime_inj: "a * FNV_PRIME = b * FNV_PRIME \<longleftrightarrow> a = b"
proof
  assume eq: "a * FNV_PRIME = b * FNV_PRIME"
  have "a * (FNV_PRIME * 14886173955864302971) = b * (FNV_PRIME * 14886173955864302971)"
    unfolding mult.assoc [symmetric] eq by (rule refl)
  then show "a = b" by (simp add: fnv_prime_invertible)
qed simp

lemma xor_cancel: "(a XOR b = a XOR c) \<longleftrightarrow> (b = (c :: u64))" "(b XOR a = c XOR a) \<longleftrightarrow> (b = c)"
  by (auto simp: bit_eq_iff bit_xor_iff)

lemma fnv_byte_inj: "fnv_byte b h = fnv_byte b h' \<longleftrightarrow> h = h'" "fnv_byte b h = fnv_byte b' h \<longleftrightarrow> b = b'"
  by (simp_all add: fnv_byte_def mult_prime_inj xor_cancel)

lemma fold_fnv_inj: "fold (\<lambda>c. fnv_byte (f c)) p h = fold (\<lambda>c. fnv_byte (f c)) p h' \<longleftrightarrow> h = h'"
  by (induction p arbitrary: h h') (simp_all add: fnv_byte_inj)

lemma fnv_param_inj: "fnv_param p h = fnv_param p h' \<longleftrightarrow> h = h'"
  by (simp add: fnv_param_def fnv_byte_inj fold_fnv_inj)

lemma fold_param_inj: "fold fnv_param ps h = fold fnv_param ps h' \<longleftrightarrow> h = h'"
  by (induction ps arbitrary: h h') (simp_all add: fnv_param_inj)

lemma byte_word_inj: "(of_nat (of_char c) :: u64) = of_nat (of_char d) \<longleftrightarrow> c = (d :: char)"
proof -
  have "of_char x < (2 :: nat) ^ 64" for x :: char by (rule less_trans [OF of_char_less]) simp
  then have "unat (of_nat (of_char x) :: u64) = of_char x" for x :: char
    by (simp add: unat_of_nat take_bit_nat_eq_self)
  then show ?thesis by (metis of_char_eq_iff)
qed

lemma lower_hex_inj: "a < 16 \<Longrightarrow> b < 16 \<Longrightarrow> lower_hex a = lower_hex b \<longleftrightarrow> a = b"
  by (auto simp: lower_hex_def char_of_eq_iff take_bit_eq_mod split: if_splits)

lemma hex16_inj: "hex16 a = hex16 b \<Longrightarrow> a = b"
proof -
  assume eq: "hex16 a = hex16 b"
  have nib: "drop_bit (4 * i) a AND 15 = drop_bit (4 * i) b AND 15" if "i < 16" for i
  proof -
    have "lower_hex (unat (drop_bit (4 * i) a AND 15)) = lower_hex (unat (drop_bit (4 * i) b AND 15))"
      using eq that by (simp add: hex16_def)
    moreover have "unat (x AND 15) < 16" for x :: u64
    proof -
      have "x AND 15 \<le> 15" by (rule word_and_le1)
      then have "unat (x AND 15) \<le> unat (15 :: u64)" by (simp only: word_le_nat_alt)
      then show ?thesis by simp
    qed
    ultimately show ?thesis by (simp add: lower_hex_inj word_unat_eq_iff)
  qed
  show "a = b"
  proof (rule bit_word_eqI)
    fix n assume n: "n < LENGTH(64)"
    have "bit x n = bit (drop_bit (4 * (n div 4)) x AND 15) (n mod 4)" for x :: u64
    proof -
      have "bit (15 :: u64) (n mod 4)"
        by (rule disjE [of "n mod 4 = 0" "n mod 4 = 1 \<or> n mod 4 = 2 \<or> n mod 4 = 3"]) auto
      then show ?thesis by (simp add: bit_and_iff bit_drop_bit_eq)
    qed
    then show "bit a n \<longleftrightarrow> bit b n" using nib [of "n div 4"] n by simp
  qed
qed

text \<open>The bytes that are hashed: the parameters, each followed by the byte 255.\<close>

definition hashed_bytes :: "string list \<Rightarrow> string" where
  "hashed_bytes params = concat (map (\<lambda>p. p @ [CHR 0xFF]) params)"

lemma hashed_bytes_inj:
  assumes "list_all (\<lambda>p. CHR 0xFF \<notin> set p) ps" and "list_all (\<lambda>p. CHR 0xFF \<notin> set p) qs"
    and "hashed_bytes ps = hashed_bytes qs"
  shows "ps = qs"
  using assms
proof (induction ps arbitrary: qs)
  case Nil
  then show ?case by (cases qs) (auto simp: hashed_bytes_def)
next
  case (Cons p ps)
  obtain q qs' where qs: "qs = q # qs'" using Cons.prems(3) by (cases qs) (auto simp: hashed_bytes_def)
  have "p @ CHR 0xFF # hashed_bytes ps = q @ CHR 0xFF # hashed_bytes qs'"
    using Cons.prems(3) qs by (simp add: hashed_bytes_def)
  then have "split_once CHR 0xFF (p @ CHR 0xFF # hashed_bytes ps) = split_once CHR 0xFF (q @ CHR 0xFF # hashed_bytes qs')"
    by (rule arg_cong)
  then have "p = q \<and> hashed_bytes ps = hashed_bytes qs'"
    using Cons.prems(1,2) qs by (simp add: split_once_append)
  then show ?case using Cons.IH [of qs'] Cons.prems(1,2) qs by simp
qed

lemma compute_params_hash_bytes:
  "compute_params_hash ps = hex16 (fold (\<lambda>c. fnv_byte (of_nat (of_char c))) (hashed_bytes ps) FNV_OFFSET_BASIS)"
proof -
  have "fold fnv_param ps h = fold (\<lambda>c. fnv_byte (of_nat (of_char c))) (hashed_bytes ps) h" for h
    by (induction ps arbitrary: h) (simp_all add: hashed_bytes_def fnv_param_def)
  then show ?thesis by (simp add: compute_params_hash_def)
qed

text \<open>
  Different lists of UTF-8 parameters are hashed from different bytes, and a change of a single byte of
  a parameter always changes the hash: a state written under the other parameters is not used.
\<close>

theorem params_hash_separates:
  assumes "list_all (\<lambda>p. CHR 0xFF \<notin> set p) ps" and "list_all (\<lambda>p. CHR 0xFF \<notin> set p) qs"
  shows "(hashed_bytes ps = hashed_bytes qs \<longleftrightarrow> ps = qs)
       \<and> (ps = before @ [x @ c # y] @ after \<longrightarrow> c \<noteq> d \<longrightarrow>
            compute_params_hash ps \<noteq> compute_params_hash (before @ [x @ d # y] @ after))"
proof -
  have "compute_params_hash (before @ [x @ c # y] @ after) \<noteq> compute_params_hash (before @ [x @ d # y] @ after)"
    if "c \<noteq> d"
    using that by (auto simp: compute_params_hash_def fold_param_inj fnv_param_def fnv_byte_inj fold_fnv_inj
        byte_word_inj dest!: hex16_inj)
  then show ?thesis using hashed_bytes_inj [OF assms] by blast
qed

theorem params_hash_separates_witness:
  "compute_params_hash [''backup1'', ''a.b''] \<noteq> compute_params_hash [''backup1'', ''a.c'']"
  using params_hash_separates [of "[''backup1'', ''a.b'']" "[''backup1'', ''a.c'']" "[''backup1'']" "''a.''" "CHR ''b''" "[]" "[]" "CHR ''c''"]
  by simp

section \<open>A state file is replaced atomically\<close>

lemma tmp_path_neq: "path = stem @ ''.json'' \<Longrightarrow> tmp_path path = stem @ ''.json.tmp''"
  by (simp add: tmp_path_def with_extension_def rsplitn_def numeral_2_eq_2)

text \<open>
  C23. Whatever the operating system does, and wherever a crash interrupts the write, the state file reads as
  before or as the new state, and no other file but the temporary one changes.
\<close>

theorem save_state_atomic:
  assumes "path = stem @ ''.json''" and "enc state = Some json" and "dec json = Some state"
  shows "(\<forall>fs'\<in>set (crash_points path json fs). load_state_file dec fs' path \<in> {load_state_file dec fs path, Inr (Some state)})
       \<and> snd (save_state_file enc io path state fs) \<in> set (crash_points path json fs)
       \<and> (fst (save_state_file enc io path state fs) = Inr () \<longrightarrow>
            load_state_file dec (snd (save_state_file enc io path state fs)) path = Inr (Some state))
       \<and> (\<forall>fs'\<in>set (crash_points path json fs). \<forall>p. p \<noteq> path \<longrightarrow> p \<noteq> path @ ''.tmp'' \<longrightarrow> fs' p = fs p)"
proof -
  have t: "tmp_path path = path @ ''.tmp''" using tmp_path_neq [OF assms(1)] assms(1) by simp
  have pt: "take n json = take (min n (length json)) json" for n by (metis take_all take_take linorder_linear min.absorb1 min.absorb2)
  have "fs(tmp_path path \<mapsto> take n json) \<in> set (crash_points path json fs)" for n
    unfolding crash_points_def using pt [of n]
    by (auto simp del: upt_Suc intro!: image_eqI [of _ _ "min n (length json)"])
  then have "snd (save_state_file enc io path state fs) \<in> set (crash_points path json fs)"
    using assms(2) take_all [of json "length json"]
    by (auto simp: save_state_file_def crash_points_def t split: option.splits)
  moreover have "\<forall>fs'\<in>set (crash_points path json fs). load_state_file dec fs' path \<in> {load_state_file dec fs path, Inr (Some state)}"
    using assms(3) by (auto simp: crash_points_def load_state_file_def t)
  moreover have "\<forall>fs'\<in>set (crash_points path json fs). \<forall>p. p \<noteq> path \<longrightarrow> p \<noteq> path @ ''.tmp'' \<longrightarrow> fs' p = fs p"
    by (auto simp: crash_points_def t)
  moreover have "fst (save_state_file enc io path state fs) = Inr () \<longrightarrow>
      load_state_file dec (snd (save_state_file enc io path state fs)) path = Inr (Some state)"
    using assms(2,3) by (simp add: save_state_file_def load_state_file_def split: option.split)
  ultimately show ?thesis by blast
qed

theorem save_state_atomic_witness:
  "load_state_file Some (snd (save_state_file Some \<lparr>io_mkdir_ok = True, io_written = Some 1, io_rename_ok = True\<rparr>
      ''restore.state.json'' ''new'' [''restore.state.json'' \<mapsto> ''old''])) ''restore.state.json'' = Inr (Some ''old'')"
  using save_state_atomic [of "''restore.state.json''" "''restore.state''" Some "''new''" "''new''" Some
      "[''restore.state.json'' \<mapsto> ''old'']" "\<lparr>io_mkdir_ok = True, io_written = Some 1, io_rename_ok = True\<rparr>"]
  by (simp add: save_state_file_def load_state_file_def tmp_path_neq [of _ "''restore.state''"])

end
