(* ===== verification/Attach.thy ===== *)
theory Attach
  imports Schema Collect Part_Sort
begin

text \<open>
  Model of \<^verbatim>\<open>src/restore/attach.rs\<close>: how the parts of one table are brought back. The world the code
  acts on is a state that is left open: the server is the record of \<^verbatim>\<open>ChClient\<close> calls of the schema
  theory, and the file system calls are parameters that may fail. Parallel attaches run in an order the
  scheduler chooses, a parameter. Counts are natural numbers, since they count parts of a list.
\<close>

section \<open>Definitions\<close>

definition uuid_s3_prefix :: "string \<Rightarrow> string" where
  "uuid_s3_prefix uuid = ''store/'' @ take 3 (filter (\<lambda>c. c \<noteq> CHR ''-'') uuid) @ ''/'' @ uuid"

definition is_s3_not_found :: "string \<Rightarrow> bool" where
  "is_s3_not_found msg \<longleftrightarrow> str_contains msg ''NoSuchKey'' \<or> str_contains msg ''404'' \<or> str_contains msg ''not found''"

subsection \<open>Errors of ATTACH PART\<close>

datatype AttachErrorClass = MissingPart | DuplicatePart | TemporarilyLocked | Unknown

definition counts_as_missing_data :: "AttachErrorClass \<Rightarrow> bool" where
  "counts_as_missing_data c \<longleftrightarrow> c = MissingPart"

definition classify_attach_error :: "string \<Rightarrow> AttachErrorClass" where
  "classify_attach_error err =
     (if str_contains err ''NO_SUCH_DATA_PART'' \<or> str_contains err ''Code: 232''
          \<or> str_contains err ''BAD_DATA_PART_NAME'' \<or> str_contains err ''Code: 233'' then MissingPart
      else if str_contains err ''DUPLICATE_DATA_PART'' \<or> str_contains err ''Code: 235'' then DuplicatePart
      else if str_contains err ''PART_IS_TEMPORARILY_LOCKED'' \<or> str_contains err ''Code: 384'' then TemporarilyLocked
      else Unknown)"

subsection \<open>Parameters\<close>

record 's attach_env =
  at_ch :: "'s ch_client"
  at_uni :: "nat \<Rightarrow> bool"
  at_exists :: "string \<Rightarrow> bool"
  at_mkdir :: "string \<Rightarrow> 's \<Rightarrow> string option \<times> 's"
  at_link :: "string \<Rightarrow> string \<Rightarrow> 's \<Rightarrow> string option \<times> 's"

text \<open>\<open>at_link\<close> is \<^verbatim>\<open>hardlink_or_copy_dir\<close> followed by \<^verbatim>\<open>chown_recursive\<close>.\<close>

record AttachParams =
  ap_db :: string
  ap_table :: string
  ap_parts :: "PartInfo list"
  ap_backup_dir :: string
  ap_backup_name :: string
  ap_table_data_path :: string
  ap_already_attached :: "string set"
  ap_manifest_disks :: "string btree_map"
  ap_source_db :: string
  ap_source_table :: string
  ap_parts_by_disk :: "PartInfo list btree_map"

record AttachResult =
  ar_attached :: nat
  ar_skipped :: nat

datatype attach_error = DetachedDirFailed string | HardlinkFailed string string | AttachFailed string string

text \<open>The parts recorded in the resume state, when the restore is resumable.\<close>

type_synonym resume_parts = "(string \<Rightarrow> string list) option"

definition record_attached :: "string \<Rightarrow> string \<Rightarrow> resume_parts \<Rightarrow> resume_parts" where
  "record_attached key name = map_option (\<lambda>m. m(key := m key @ [name]))"

subsection \<open>Attaching\<close>

definition attach_part_sql :: "string \<Rightarrow> string \<Rightarrow> string \<Rightarrow> string" where
  "attach_part_sql db table part_name =
     ''ALTER TABLE '' @ quote_identifier db @ ''.'' @ quote_identifier table @ '' ATTACH PART '' @ quoted part_name"

definition attach_part :: "'s attach_env \<Rightarrow> AttachParams \<Rightarrow> string \<Rightarrow> 's \<Rightarrow> string option \<times> 's" where
  "attach_part env params part_name s = ch_execute (at_ch env) (attach_part_sql (ap_db params) (ap_table params) part_name) s"

definition part_to_disk :: "AttachParams \<Rightarrow> string \<Rightarrow> string" where
  "part_to_disk params name =
     (case map_of (rev (concat (map (\<lambda>(d, ps). map (\<lambda>p. (pi_name p, d)) ps) (ap_parts_by_disk params)))) name of
        Some d \<Rightarrow> d
      | None \<Rightarrow> ''default'')"

definition part_source :: "'s attach_env \<Rightarrow> AttachParams \<Rightarrow> PartInfo \<Rightarrow> string option" where
  "part_source env params part =
     resolve_shadow_part_path (at_exists env) (ap_backup_dir params) (ap_manifest_disks params) (ap_backup_name params)
       (part_to_disk params (pi_name part))
       (encode_component (at_uni env) (ap_source_db params)) (encode_component (at_uni env) (ap_source_table params))
       (ap_source_db params) (ap_source_table params) (pi_name part)"

text \<open>Hardlinks every part to \<^verbatim>\<open>detached/\<close>; the parts without a source directory are collected.\<close>

fun prepare_parts ::
    "'s attach_env \<Rightarrow> AttachParams \<Rightarrow> PartInfo list \<Rightarrow> 's \<Rightarrow> (attach_error + string list) \<times> 's" where
  "prepare_parts env params [] s = (Inr [], s)"
| "prepare_parts env params (part # rest) s =
     (if pi_s3_objects part \<noteq> None then prepare_parts env params rest s
      else case part_source env params part of
        None \<Rightarrow>
          (case prepare_parts env params rest s of
             (Inr missing, s') \<Rightarrow> (Inr (pi_name part # missing), s')
           | (Inl e, s') \<Rightarrow> (Inl e, s'))
      | Some dir \<Rightarrow>
          (case at_link env dir (path_join (path_join (ap_table_data_path params) ''detached'') (pi_name part)) s of
             (Some e, s') \<Rightarrow> (Inl (HardlinkFailed (pi_name part) e), s')
           | (None, s') \<Rightarrow> prepare_parts env params rest s'))"

text \<open>One ATTACH: the class of its failure, if any, and the resume state with the part recorded on success.\<close>

definition attach_one ::
    "'s attach_env \<Rightarrow> AttachParams \<Rightarrow> PartInfo \<Rightarrow> 's \<times> resume_parts \<Rightarrow> (AttachErrorClass \<times> string) option \<times> 's \<times> resume_parts" where
  "attach_one env params part = (\<lambda>(s, resume).
     case attach_part env params (pi_name part) s of
       (None, s') \<Rightarrow>
         (None, s', record_attached (ap_source_db params @ ''.'' @ ap_source_table params) (pi_name part) resume)
     | (Some e, s') \<Rightarrow> (Some (classify_attach_error e, e), s', resume))"

text \<open>Every part is tried: the outcomes, in the order they happened.\<close>

fun attach_each ::
    "'s attach_env \<Rightarrow> AttachParams \<Rightarrow> PartInfo list \<Rightarrow> 's \<times> resume_parts
       \<Rightarrow> (PartInfo \<times> (AttachErrorClass \<times> string) option) list \<times> 's \<times> resume_parts" where
  "attach_each env params [] st = ([], st)"
| "attach_each env params (part # rest) st =
     (case attach_one env params part st of
        (r, st1) \<Rightarrow> (case attach_each env params rest st1 of (rs, st2) \<Rightarrow> ((part, r) # rs, st2)))"

text \<open>One part after the other: the first unclassified failure ends the loop.\<close>

fun attach_sequential ::
    "'s attach_env \<Rightarrow> AttachParams \<Rightarrow> PartInfo list \<Rightarrow> 's \<times> resume_parts
       \<Rightarrow> (attach_error + (PartInfo \<times> (AttachErrorClass \<times> string) option) list) \<times> 's \<times> resume_parts" where
  "attach_sequential env params [] st = (Inr [], st)"
| "attach_sequential env params (part # rest) st =
     (case attach_one env params part st of
        (Some (Unknown, e), st1) \<Rightarrow> (Inl (AttachFailed (pi_name part) e), st1)
      | (r, st1) \<Rightarrow>
          (case attach_sequential env params rest st1 of
             (Inr rs, st2) \<Rightarrow> (Inr ((part, r) # rs), st2)
           | (Inl e, st2) \<Rightarrow> (Inl e, st2)))"

definition is_unknown :: "PartInfo \<times> (AttachErrorClass \<times> string) option \<Rightarrow> bool" where
  "is_unknown x = (case snd x of Some (Unknown, _) \<Rightarrow> True | _ \<Rightarrow> False)"

text \<open>All parts at once, in the order of the scheduler; the first unclassified failure,
  in the order the parts were given, is reported afterwards.\<close>

definition attach_parallel ::
    "(PartInfo list \<Rightarrow> PartInfo list) \<Rightarrow> 's attach_env \<Rightarrow> AttachParams \<Rightarrow> PartInfo list \<Rightarrow> 's \<times> resume_parts
       \<Rightarrow> (attach_error + (PartInfo \<times> (AttachErrorClass \<times> string) option) list) \<times> 's \<times> resume_parts" where
  "attach_parallel schedule env params parts st =
     (case attach_each env params (schedule parts) st of
        (rs, st') \<Rightarrow>
          (case find is_unknown (concat (map (\<lambda>p. filter (\<lambda>x. fst x = p) rs) parts)) of
             Some (part, Some (_, e)) \<Rightarrow> (Inl (AttachFailed (pi_name part) e), st')
           | _ \<Rightarrow> (Inr rs, st')))"

definition count_attached :: "(PartInfo \<times> (AttachErrorClass \<times> string) option) list \<Rightarrow> nat" where
  "count_attached rs = length (filter (\<lambda>(_, r). r = None) rs)"

definition count_missing :: "(PartInfo \<times> (AttachErrorClass \<times> string) option) list \<Rightarrow> nat" where
  "count_missing rs = length (filter (\<lambda>(_, r). case r of Some (c, _) \<Rightarrow> counts_as_missing_data c | None \<Rightarrow> False) rs)"

definition attach_parts_inner ::
    "(PartInfo list \<Rightarrow> PartInfo list) \<Rightarrow> 's attach_env \<Rightarrow> AttachParams \<Rightarrow> string \<Rightarrow> bool \<Rightarrow> 's \<times> resume_parts
       \<Rightarrow> (attach_error + AttachResult) \<times> 's \<times> resume_parts" where
  "attach_parts_inner schedule env params engine semaphore = (\<lambda>(s, resume).
     if ap_parts params = [] then (Inr \<lparr>ar_attached = 0, ar_skipped = 0\<rparr>, s, resume)
     else
       (let sequential = needs_sequential_attach engine \<or> engine = [];
            sorted_parts = sort_parts_by_min_block (ap_parts params);
            work_parts = filter (\<lambda>p. pi_name p \<notin> ap_already_attached params) sorted_parts
        in case at_mkdir env (path_join (ap_table_data_path params) ''detached'') s of
             (Some e, s1) \<Rightarrow> (Inl (DetachedDirFailed e), s1, resume)
           | (None, s1) \<Rightarrow>
               (case prepare_parts env params work_parts s1 of
                  (Inl e, s2) \<Rightarrow> (Inl e, s2, resume)
                | (Inr missing, s2) \<Rightarrow>
                    (let work_parts = filter (\<lambda>p. pi_name p \<notin> set missing) work_parts
                     in case (if \<not> sequential \<and> semaphore then attach_parallel schedule env params work_parts (s2, resume)
                              else attach_sequential env params work_parts (s2, resume)) of
                          (Inl e, st) \<Rightarrow> (Inl e, st)
                        | (Inr rs, st) \<Rightarrow>
                            (Inr \<lparr>ar_attached = count_attached rs,
                                  ar_skipped = card (set missing) + count_missing rs\<rparr>, st)))))"

section \<open>Accounting\<close>

text \<open>The same environment with a log of the statements and the replies to them.\<close>

definition logged :: "'s attach_env \<Rightarrow> ('s \<times> (string \<times> string option) list) attach_env" where
  "logged env =
     \<lparr>at_ch = \<lparr>ch_execute = (\<lambda>sql (s, l). let (r, s') = ch_execute (at_ch env) sql s in (r, s', l @ [(sql, r)])),
               ch_database_exists = (\<lambda>db (s, l). ch_database_exists (at_ch env) db s),
               ch_table_exists = (\<lambda>db t (s, l). ch_table_exists (at_ch env) db t s),
               ch_zk_count = (\<lambda>p r (s, l). ch_zk_count (at_ch env) p r s),
               ch_database_engine = (\<lambda>db (s, l). ch_database_engine (at_ch env) db s)\<rparr>,
      at_uni = at_uni env, at_exists = at_exists env,
      at_mkdir = (\<lambda>d (s, l). let (r, s') = at_mkdir env d s in (r, s', l)),
      at_link = (\<lambda>a b (s, l). let (r, s') = at_link env a b s in (r, s', l))\<rparr>"

lemma part_source_logged [simp]: "part_source (logged env) params p = part_source env params p"
  by (simp add: part_source_def logged_def)

lemma logged_io [simp]:
  "at_link (logged env) a b (s, l) = (fst (at_link env a b s), snd (at_link env a b s), l)"
  "at_mkdir (logged env) d (s, l) = (fst (at_mkdir env d s), snd (at_mkdir env d s), l)"
  by (simp_all add: logged_def split: prod.split)

definition no_source :: "'s attach_env \<Rightarrow> AttachParams \<Rightarrow> PartInfo \<Rightarrow> bool" where
  "no_source env params p \<longleftrightarrow> pi_s3_objects p = None \<and> part_source env params p = None"

definition attach_sql :: "AttachParams \<Rightarrow> PartInfo \<Rightarrow> string" where
  "attach_sql params p = attach_part_sql (ap_db params) (ap_table params) (pi_name p)"

definition resume_key :: "AttachParams \<Rightarrow> string" where
  "resume_key params = ap_source_db params @ ''.'' @ ap_source_table params"

definition record_all :: "string \<Rightarrow> string list \<Rightarrow> resume_parts \<Rightarrow> resume_parts" where
  "record_all key names = map_option (\<lambda>m. m(key := m key @ names))"

lemma record_all_simps [simp]:
  "record_all key [] resume = resume"
  "record_all key ns (record_attached key n resume) = record_all key (n # ns) resume"
  by (cases resume; simp add: record_all_def record_attached_def)+

lemma prepare_parts_spec:
  "prepare_parts (logged env) params ps (s, l) = (Inr missing, s', l') \<Longrightarrow>
     l' = l \<and> missing = map pi_name (filter (no_source env params) ps)"
proof (induction ps arbitrary: s missing)
  case (Cons p ps)
  show ?case
  proof (cases "pi_s3_objects p = None")
    case True
    note s3 = this
    show ?thesis
    proof (cases "part_source env params p")
      case None
      with Cons s3 show ?thesis by (auto simp: no_source_def split: prod.splits sum.splits)
    next
      case (Some d)
      obtain e s1 where "at_link env d (path_join (path_join (ap_table_data_path params) ''detached'') (pi_name p)) s = (e, s1)"
        by fastforce
      with Cons s3 Some show ?thesis by (cases e) (auto simp: no_source_def)
    qed
  next
    case False
    with Cons show ?thesis by (simp add: no_source_def)
  qed
qed simp

lemma prepare_parts_log: "prepare_parts (logged env) params ps (s, l) = (q, s', l') \<Longrightarrow> l' = l"
  by (induction ps arbitrary: s q) (auto split: if_splits option.splits prod.splits sum.splits)

lemma distinct_work:
  "distinct (map pi_name ps) \<Longrightarrow> distinct (map pi_name (filter P (sort_parts_by_min_block ps)))"
  by (rule distinct_map_filter)
    (metis mset_eq_imp_distinct_iff mset_map mset_sort_by sort_parts_by_min_block_def)

lemma attach_one_logged:
  "attach_one (logged env) params p ((s, l), resume) =
     (case ch_execute (at_ch env) (attach_sql params p) s of
        (None, s') \<Rightarrow> (None, (s', l @ [(attach_sql params p, None)]), record_attached (resume_key params) (pi_name p) resume)
      | (Some e, s') \<Rightarrow> (Some (classify_attach_error e, e), (s', l @ [(attach_sql params p, Some e)]), resume))"
  by (simp add: attach_one_def attach_part_def logged_def attach_sql_def resume_key_def split: prod.split option.split)

lemma attach_each_spec:
  "attach_each (logged env) params ps ((s, l), resume) = (rs, (s', l'), resume') \<Longrightarrow>
     map fst rs = ps \<and> l' = l @ map (\<lambda>(p, r). (attach_sql params p, map_option snd r)) rs
     \<and> resume' = record_all (resume_key params) (map (\<lambda>(p, _). pi_name p) (filter (\<lambda>(_, r). r = None) rs)) resume
     \<and> (\<forall>(p, r)\<in>set rs. \<forall>c e. r = Some (c, e) \<longrightarrow> c = classify_attach_error e)"
proof (induction ps arbitrary: s l resume rs)
  case (Cons p ps)
  obtain e s1 where x: "ch_execute (at_ch env) (attach_sql params p) s = (e, s1)" by fastforce
  define r where "r = map_option (\<lambda>e. (classify_attach_error e, e)) e"
  define l1 where "l1 = l @ [(attach_sql params p, map_option snd r)]"
  define resume1 where "resume1 = (if r = None then record_attached (resume_key params) (pi_name p) resume else resume)"
  have o: "attach_one (logged env) params p ((s, l), resume) = (r, (s1, l1), resume1)"
    using x by (cases e) (simp_all add: attach_one_logged r_def l1_def resume1_def)
  have c: "\<forall>c e. r = Some (c, e) \<longrightarrow> c = classify_attach_error e" by (auto simp: r_def)
  obtain rs1 where e1: "attach_each (logged env) params ps ((s1, l1), resume1) = (rs1, (s', l'), resume')" "rs = (p, r) # rs1"
    using Cons.prems o by (auto split: prod.splits)
  note IH = Cons.IH [OF e1(1)]
  have "\<forall>(p, r)\<in>set rs. \<forall>c e. r = Some (c, e) \<longrightarrow> c = classify_attach_error e"
    using IH [THEN conjunct2, THEN conjunct2, THEN conjunct2] c e1(2) by force
  moreover have "map fst rs = p # ps" "l' = l @ map (\<lambda>(p, r). (attach_sql params p, map_option snd r)) rs"
    using IH [THEN conjunct1] IH [THEN conjunct2, THEN conjunct1] e1(2) l1_def by simp_all
  moreover have "resume' = record_all (resume_key params) (map (\<lambda>(p, _). pi_name p) (filter (\<lambda>(_, r). r = None) rs)) resume"
    using IH [THEN conjunct2, THEN conjunct2, THEN conjunct1] e1(2) resume1_def by (cases r) simp_all
  ultimately show ?case by blast
qed simp

lemma attach_sequential_Inr:
  "attach_sequential env params ps st = (Inr rs, st') \<Longrightarrow>
     attach_each env params ps st = (rs, st') \<and> (\<forall>x\<in>set rs. \<not> is_unknown x)"
proof (induction ps arbitrary: st rs)
  case (Cons p ps)
  obtain r st1 where o: "attach_one env params p st = (r, st1)" by (metis surj_pair)
  have u: "\<not> is_unknown (p, r)"
    using Cons.prems o by (auto simp: is_unknown_def split: option.splits AttachErrorClass.splits)
  then have "attach_sequential env params (p # ps) st =
      (case attach_sequential env params ps st1 of (Inr rs, st2) \<Rightarrow> (Inr ((p, r) # rs), st2) | (Inl e, st2) \<Rightarrow> (Inl e, st2))"
    using o by (auto simp: is_unknown_def split: option.splits AttachErrorClass.splits)
  then obtain rs' where "attach_sequential env params ps st1 = (Inr rs', st')" "rs = (p, r) # rs'"
    using Cons.prems by (auto split: prod.splits sum.splits)
  then show ?case using Cons.IH [of st1 rs'] o u by simp
qed simp

lemma attach_parallel_Inr:
  assumes "attach_parallel schedule env params ps st = (Inr rs, st')" and "mset (schedule ps) = mset ps"
    and "\<And>rs st'. attach_each env params (schedule ps) st = (rs, st') \<Longrightarrow> map fst rs = schedule ps"
  shows "attach_each env params (schedule ps) st = (rs, st') \<and> (\<forall>x\<in>set rs. \<not> is_unknown x)"
proof -
  obtain rs' st'' where e: "attach_each env params (schedule ps) st = (rs', st'')" by (metis surj_pair)
  have f: "find is_unknown (concat (map (\<lambda>p. filter (\<lambda>x. fst x = p) rs') ps)) = None \<and> rs = rs' \<and> st' = st''"
    using assms(1) e
    by (auto simp: attach_parallel_def is_unknown_def find_Some_iff split: option.splits prod.splits AttachErrorClass.splits)
  have "fst x \<in> set ps" if "x \<in> set rs'" for x
    using assms(2,3) e that by (metis image_eqI list.set_map mset_eq_setD)
  then show ?thesis using f e by (auto simp: find_None_iff)
qed

lemma unknown_iff: "is_unknown (p, r) \<longleftrightarrow> (\<exists>e. r = Some (Unknown, e))"
  by (auto simp: is_unknown_def split: option.splits AttachErrorClass.splits)

lemma mset_partition: "mset xs = mset (filter P xs) + mset (filter (\<lambda>x. \<not> P x) xs)"
  by (induction xs) auto

lemma same_name_filter:
  "distinct (map pi_name ps) \<Longrightarrow> filter (\<lambda>p. pi_name p \<notin> pi_name ` {q \<in> set ps. P q}) ps = filter (\<lambda>p. \<not> P p) ps"
  by (rule filter_cong) (auto simp: distinct_map inj_on_def)

lemma attach_accounting:
  assumes "\<forall>xs. mset (schedule xs) = mset xs" and "distinct (map pi_name (ap_parts params))"
    and "attach_parts_inner schedule (logged env) params engine semaphore ((s, l), resume) = (Inr res, (s', log), resume')"
  shows "\<exists>rs missing. log = l @ map (\<lambda>(p, r). (attach_sql params p, r)) rs
     \<and> mset (ap_parts params) = mset (filter (\<lambda>p. pi_name p \<in> ap_already_attached params) (ap_parts params))
                                  + mset missing + mset (map fst rs)
     \<and> list_all (no_source env params) missing
     \<and> list_all (\<lambda>(p, r). case r of None \<Rightarrow> True | Some e \<Rightarrow> classify_attach_error e \<noteq> Unknown) rs
     \<and> ar_attached res = length (filter (\<lambda>(_, r). r = None) rs)
     \<and> ar_skipped res = length missing + length (filter (\<lambda>(_, r). \<exists>e. r = Some e \<and> classify_attach_error e = MissingPart) rs)
     \<and> resume' = record_all (resume_key params) (map (\<lambda>(p, _). pi_name p) (filter (\<lambda>(_, r). r = None) rs)) resume"
proof (cases "ap_parts params = []")
  case True
  with assms(3) show ?thesis
    by (intro exI [of _ "[]"]) (auto simp: attach_parts_inner_def)
next
  case False
  define work where "work = filter (\<lambda>p. pi_name p \<notin> ap_already_attached params) (sort_parts_by_min_block (ap_parts params))"
  define missing where "missing = filter (no_source env params) work"
  define left where "left = filter (\<lambda>p. \<not> no_source env params p) work"
  have ms: "mset (sort_parts_by_min_block (ap_parts params)) = mset (ap_parts params)"
    by (simp add: sort_parts_by_min_block_def)
  have dw: "distinct (map pi_name work)" unfolding work_def by (rule distinct_work [OF assms(2)])
  obtain e s1 where mk: "at_mkdir env (path_join (ap_table_data_path params) ''detached'') s = (e, s1)" by fastforce
  have "e = None" using assms(3) False mk by (cases e) (auto simp: attach_parts_inner_def)
  obtain m s2 l2 where pr: "prepare_parts (logged env) params work (s1, l) = (Inr m, s2, l2)"
    using assms(3) False mk \<open>e = None\<close>
    by (auto simp: attach_parts_inner_def work_def [symmetric] Let_def split: prod.splits sum.splits)
  have m: "l2 = l" "m = map pi_name missing" using prepare_parts_spec [OF pr] by (simp_all add: missing_def)
  have "filter (\<lambda>p. pi_name p \<notin> set m) work = left"
    using same_name_filter [OF dw, of "no_source env params"] by (simp add: m missing_def left_def)
  then obtain rs where run: "(if \<not> (needs_sequential_attach engine \<or> engine = []) \<and> semaphore
       then attach_parallel schedule (logged env) params left ((s2, l), resume)
       else attach_sequential (logged env) params left ((s2, l), resume)) = (Inr rs, (s', log), resume')"
    and res: "res = \<lparr>ar_attached = count_attached rs, ar_skipped = card (set m) + count_missing rs\<rparr>"
    using assms(3) False mk \<open>e = None\<close> pr m(1)
    by (auto simp: attach_parts_inner_def work_def [symmetric] Let_def split: prod.splits sum.splits if_splits)
  obtain order where order: "mset order = mset left"
    and each: "attach_each (logged env) params order ((s2, l), resume) = (rs, (s', log), resume')"
    and known: "\<forall>x\<in>set rs. \<not> is_unknown x"
  proof (cases "\<not> (needs_sequential_attach engine \<or> engine = []) \<and> semaphore")
    case True
    then have "attach_each (logged env) params (schedule left) ((s2, l), resume) = (rs, (s', log), resume') \<and> (\<forall>x\<in>set rs. \<not> is_unknown x)"
      using run assms(1) by (intro attach_parallel_Inr) (auto dest: attach_each_spec)
    then show ?thesis using that assms(1) by blast
  next
    case False
    then show ?thesis using run that attach_sequential_Inr by metis
  qed
  note spec = attach_each_spec [OF each]
  define replies where "replies = map (\<lambda>(p, r). (p, map_option snd r)) rs"
  have fst_r: "map fst replies = order" using spec by (auto simp: replies_def comp_def case_prod_unfold)
  have "mset (ap_parts params) = mset (filter (\<lambda>p. pi_name p \<in> ap_already_attached params) (ap_parts params)) + mset work"
    using mset_partition [of "ap_parts params" "\<lambda>p. pi_name p \<in> ap_already_attached params"] ms
    by (simp add: work_def mset_filter)
  also have "mset work = mset missing + mset left" unfolding missing_def left_def by (rule mset_partition)
  finally have part: "mset (ap_parts params) = mset (filter (\<lambda>p. pi_name p \<in> ap_already_attached params) (ap_parts params))
      + mset missing + mset (map fst replies)" unfolding fst_r order by (simp only: add.assoc)
  have cls: "classify_attach_error e = c" if "(p, Some (c, e)) \<in> set rs" for p c e
    using spec that by fastforce
  have "list_all (\<lambda>(p, r). case r of None \<Rightarrow> True | Some e \<Rightarrow> classify_attach_error e \<noteq> Unknown) replies"
    using known cls by (fastforce simp: replies_def list_all_iff unknown_iff split: option.splits)
  moreover have "count_attached rs = length (filter (\<lambda>(_, r). r = None) replies)"
    by (simp add: count_attached_def replies_def filter_map comp_def case_prod_unfold)
  moreover have "count_missing rs = length (filter (\<lambda>(_, r). \<exists>e. r = Some e \<and> classify_attach_error e = MissingPart) replies)"
  proof -
    have "filter (\<lambda>(_, r). case r of Some (c, _) \<Rightarrow> counts_as_missing_data c | None \<Rightarrow> False) rs
        = filter (\<lambda>(_, r). \<exists>e. map_option snd r = Some e \<and> classify_attach_error e = MissingPart) rs"
      using cls by (intro filter_cong refl) (fastforce simp: counts_as_missing_data_def split: option.splits)
    then show ?thesis by (simp add: count_missing_def replies_def filter_map comp_def case_prod_unfold)
  qed
  moreover have "map (\<lambda>(p, _). pi_name p) (filter (\<lambda>(_, r). r = None) rs)
      = map (\<lambda>(p, _). pi_name p) (filter (\<lambda>(_, r). r = None) replies)"
    by (simp add: replies_def filter_map comp_def case_prod_unfold)
  moreover have "card (set m) = length missing"
    using distinct_card [OF distinct_map_filter [OF dw, of "no_source env params"]] by (simp only: m missing_def length_map)
  moreover have "log = l @ map (\<lambda>(p, r). (attach_sql params p, r)) replies"
    using spec by (simp add: replies_def comp_def case_prod_unfold)
  ultimately show ?thesis
    using part spec res by (intro exI [of _ replies] exI [of _ missing]) (simp add: missing_def list_all_iff)
qed

text \<open>
  C13. Every part of the table ends in exactly one place: already attached before, without a source, or sent
  to the server once. The parts the server took are counted and recorded for a resume; the parts that
  are missing are counted as skipped; no reply that is not classified goes unreported.
\<close>

theorem attach_parts_accounted:
  assumes "\<forall>xs. mset (schedule xs) = mset xs" and "distinct (map pi_name (ap_parts params))"
    and "attach_parts_inner schedule (logged env) params engine semaphore ((s, []), resume) = (Inr res, (s', log), resume')"
  shows "\<exists>rs missing. log = map (\<lambda>(p, r). (attach_sql params p, r)) rs
     \<and> mset (ap_parts params) = mset (filter (\<lambda>p. pi_name p \<in> ap_already_attached params) (ap_parts params))
                                  + mset missing + mset (map fst rs)
     \<and> list_all (no_source env params) missing
     \<and> list_all (\<lambda>(p, r). case r of None \<Rightarrow> True | Some e \<Rightarrow> classify_attach_error e \<noteq> Unknown) rs
     \<and> ar_attached res = length (filter (\<lambda>(_, r). r = None) rs)
     \<and> ar_skipped res = length missing + length (filter (\<lambda>(_, r). \<exists>e. r = Some e \<and> classify_attach_error e = MissingPart) rs)
     \<and> resume' = record_all (resume_key params) (map (\<lambda>(p, _). pi_name p) (filter (\<lambda>(_, r). r = None) rs)) resume"
  using attach_accounting [OF assms] by (simp only: append_Nil)

text \<open>Two parts of a table with the short path layout: one was attached before, one is a duplicate.\<close>

definition attach_sample_part :: "string \<Rightarrow> PartInfo" where
  "attach_sample_part name = \<lparr>pi_name = name, pi_size = 1, pi_backup_key = [], pi_source = [], pi_checksum_crc64 = 0,
     pi_s3_objects = None, pi_backup_size = 0\<rparr>"

definition attach_sample_params :: AttachParams where
  "attach_sample_params = \<lparr>ap_db = ''d'', ap_table = ''t'', ap_parts = map attach_sample_part [''all_2_2_0'', ''all_1_1_0'', ''all_3_3_0''],
     ap_backup_dir = ''/b'', ap_backup_name = ''b'', ap_table_data_path = ''/ch/t'', ap_already_attached = {''all_3_3_0''},
     ap_manifest_disks = [], ap_source_db = ''d'', ap_source_table = ''t'', ap_parts_by_disk = []\<rparr>"

definition attach_sample_env :: "string list attach_env" where
  "attach_sample_env = \<lparr>at_ch = view_server\<lparr>ch_execute := (\<lambda>sql s. if str_contains sql ''all_1'' then (Some ''Code: 235'', s) else (None, sql # s))\<rparr>,
     at_uni = (\<lambda>_. True), at_exists = (\<lambda>_. True), at_mkdir = (\<lambda>_ s. (None, s)), at_link = (\<lambda>_ _ s. (None, s))\<rparr>"

definition attach_sample_run where
  "attach_sample_run = attach_parts_inner rev (logged attach_sample_env) attach_sample_params ''MergeTree'' True (([], []), Some (\<lambda>_. []))"

theorem attach_parts_accounted_witness:
  "ar_attached (projr (fst attach_sample_run)) = 1 \<and> ar_skipped (projr (fst attach_sample_run)) = 0
   \<and> (\<exists>rs missing. mset (ap_parts attach_sample_params) =
        mset (filter (\<lambda>p. pi_name p \<in> ap_already_attached attach_sample_params) (ap_parts attach_sample_params))
          + mset missing + mset (map fst (rs :: (PartInfo \<times> string option) list)))"
proof -
  have r: "\<not> isl (fst attach_sample_run)" by code_simp
  obtain res s' log resume' where run: "attach_sample_run = (Inr res, (s', log), resume')"
    using r by (metis prod.collapse sum.collapse(2))
  have "distinct (map pi_name (ap_parts attach_sample_params))" by code_simp
  from attach_parts_accounted [OF _ this run [unfolded attach_sample_run_def]]
  have "\<exists>rs missing. mset (ap_parts attach_sample_params) =
        mset (filter (\<lambda>p. pi_name p \<in> ap_already_attached attach_sample_params) (ap_parts attach_sample_params))
          + mset missing + mset (map fst (rs :: (PartInfo \<times> string option) list))"
    by (auto simp: mset_rev)
  moreover have "ar_attached (projr (fst attach_sample_run)) = 1" by code_simp
  moreover have "ar_skipped (projr (fst attach_sample_run)) = 0" by code_simp
  ultimately show ?thesis by blast
qed

section \<open>Order\<close>

lemma attach_sequential_sent:
  "attach_sequential (logged env) params ps ((s, l), resume) = (r, (s', l'), resume') \<Longrightarrow>
     \<exists>n. map fst l' = map fst l @ map (attach_sql params) (take n ps) \<and> (\<not> isl r \<longrightarrow> take n ps = ps)"
proof (induction ps arbitrary: s l resume r)
  case (Cons p ps)
  obtain e s1 where x: "ch_execute (at_ch env) (attach_sql params p) s = (e, s1)" by fastforce
  show ?case
  proof (cases "\<exists>m. e = Some m \<and> classify_attach_error m = Unknown")
    case True
    with Cons.prems x show ?thesis by (intro exI [of _ 1]) (auto simp: attach_one_logged)
  next
    case False
    obtain st r1 where rest: "attach_sequential (logged env) params ps ((s1, l @ [(attach_sql params p, e)]), st) = (r1, (s', l'), resume')"
      and rr: "isl r = isl r1"
      using Cons.prems x False
      by (cases e) (auto simp: attach_one_logged split: prod.splits sum.splits AttachErrorClass.splits)
    obtain n where "map fst l' = map fst (l @ [(attach_sql params p, e)]) @ map (attach_sql params) (take n ps)"
      "\<not> isl r1 \<longrightarrow> take n ps = ps"
      using Cons.IH [OF rest] by blast
    then show ?thesis using rr by (intro exI [of _ "Suc n"]) simp
  qed
qed simp

definition sendable :: "'s attach_env \<Rightarrow> AttachParams \<Rightarrow> PartInfo list" where
  "sendable env params = filter (\<lambda>p. pi_name p \<notin> ap_already_attached params \<and> \<not> no_source env params p)
     (sort_parts_by_min_block (ap_parts params))"

text \<open>A name in one of the two forms ClickHouse gives to parts, with its partition and first block.\<close>

definition part_named :: "string \<Rightarrow> string \<Rightarrow> u64 \<Rightarrow> bool" where
  "part_named name pid min_block \<longleftrightarrow>
     (\<exists>max_block level. name = part_name4 pid min_block max_block level \<and> CHR ''_'' \<notin> set pid
        \<or> (\<exists>data_version. name = part_name5 pid min_block max_block level data_version))"

lemma part_named_key:
  "part_named name pid min_block \<Longrightarrow>
     \<exists>mx. from_part_name name = Some \<lparr>psk_partition = pid, psk_min_block = min_block, psk_max_block = mx\<rparr>"
  unfolding part_named_def using from_part_name_4 from_part_name_5 by blast

lemma sequential_sent:
  assumes "needs_sequential_attach engine" and "distinct (map pi_name (ap_parts params))"
    and "attach_parts_inner schedule (logged env) params engine semaphore ((s, []), resume) = (r, (s', log), resume')"
  shows "\<exists>n. map fst log = map (attach_sql params) (take n (sendable env params))
           \<and> (\<not> isl r \<longrightarrow> take n (sendable env params) = sendable env params)"
proof -
  define work where "work = filter (\<lambda>p. pi_name p \<notin> ap_already_attached params) (sort_parts_by_min_block (ap_parts params))"
  have send: "filter (\<lambda>p. \<not> no_source env params p) work = sendable env params"
    by (simp add: work_def sendable_def conj_commute)
  have dw: "distinct (map pi_name work)" unfolding work_def by (rule distinct_work [OF assms(2)])
  show ?thesis
  proof (cases "ap_parts params = [] \<or> fst (at_mkdir env (path_join (ap_table_data_path params) ''detached'') s) \<noteq> None")
    case True
    show ?thesis
    proof (cases "ap_parts params = []")
      case True
      then show ?thesis using assms(3)
        by (intro exI [of _ 0]) (auto simp: attach_parts_inner_def sendable_def sort_parts_by_min_block_def sort_by_def)
    next
      case False
      then obtain e s1 where "at_mkdir env (path_join (ap_table_data_path params) ''detached'') s = (Some e, s1)"
        using True by (metis not_None_eq prod.collapse)
      then show ?thesis using assms(3) False by (intro exI [of _ 0]) (auto simp: attach_parts_inner_def Let_def)
    qed
  next
    case False
    define s1 where "s1 = snd (at_mkdir env (path_join (ap_table_data_path params) ''detached'') s)"
    obtain q s2 l2 where pr: "prepare_parts (logged env) params work (s1, []) = (q, s2, l2)" by (metis surj_pair)
    have l2: "l2 = []" using prepare_parts_log [OF pr] .
    show ?thesis
    proof (cases q)
      case (Inl e)
      then show ?thesis using assms(3) False pr l2
        by (intro exI [of _ 0]) (auto simp: attach_parts_inner_def work_def [symmetric] s1_def [symmetric] Let_def)
    next
      case (Inr m)
      have "m = map pi_name (filter (no_source env params) work)" using prepare_parts_spec [OF pr [unfolded Inr]] by simp
      then have "filter (\<lambda>p. pi_name p \<notin> set m) work = sendable env params"
        using same_name_filter [OF dw, of "no_source env params"] send by simp
      then have run: "(r, (s', log), resume') =
          (case attach_sequential (logged env) params (sendable env params) ((s2, []), resume) of
             (Inl e, st) \<Rightarrow> (Inl e, st)
           | (Inr rs, st) \<Rightarrow> (Inr \<lparr>ar_attached = count_attached rs, ar_skipped = card (set m) + count_missing rs\<rparr>, st))"
        using assms(1,3) False pr l2 Inr
        by (simp add: attach_parts_inner_def work_def [symmetric] s1_def [symmetric] Let_def)
      obtain r' st where sq: "attach_sequential (logged env) params (sendable env params) ((s2, []), resume) = (r', st)"
        by (metis surj_pair)
      then have "st = ((s', log), resume')" "isl r = isl r'" using run by (cases r'; simp)+
      then show ?thesis using attach_sequential_sent [of env params "sendable env params" s2 "[]" resume r' s' log resume'] sq by simp
    qed
  qed
qed


end
