(* ===== verification/Restore.thy ===== *)
theory Restore
  imports Attach Resume Table_Filter
begin

text \<open>
  Model of \<^verbatim>\<open>src/restore/mod.rs\<close>: the order in which a restore works, what it refuses, which parts it
  leaves out and how it ends. What the restore asks of the server beyond statements, the copying of
  object-disk parts and the restoration of access rights and configuration files are parameters. Table
  tasks run in an order the scheduler chooses; a cancellation is not modelled.
\<close>

section \<open>Definitions\<close>

subsection \<open>Versions\<close>

definition MIN_PROJECTION_TOLERANT_VERSION :: "u32 \<times> u32" where
  "MIN_PROJECTION_TOLERANT_VERSION = (24, 3)"

definition parse_major_minor :: "string \<Rightarrow> (u32 \<times> u32) option" where
  "parse_major_minor version =
     (case split_on CHR ''.'' (trim version) of
        major # minor # _ \<Rightarrow>
          (case parse_u32 major of
             None \<Rightarrow> None
           | Some a \<Rightarrow> map_option (Pair a) (parse_u32 minor))
      | _ \<Rightarrow> None)"

definition projection_gate_error :: "string list \<Rightarrow> string \<Rightarrow> bool \<Rightarrow> bool" where
  "projection_gate_error stripped server_version strict =
     (if \<not> strict \<or> stripped = [] then False
      else case parse_major_minor server_version of
        None \<Rightarrow> False
      | Some (major, minor) \<Rightarrow>
          \<not> (fst MIN_PROJECTION_TOLERANT_VERSION < major
             \<or> fst MIN_PROJECTION_TOLERANT_VERSION = major \<and> snd MIN_PROJECTION_TOLERANT_VERSION \<le> minor))"

subsection \<open>Which parts\<close>

definition parse_partition_filter :: "string option \<Rightarrow> string list" where
  "parse_partition_filter partitions =
     (case partitions of Some s \<Rightarrow> if s \<noteq> [] then map trim (split_on CHR '','' s) else [] | None \<Rightarrow> [])"

definition part_matches_partitions :: "string \<Rightarrow> string list \<Rightarrow> bool" where
  "part_matches_partitions part_name partition_filter =
     (if partition_filter = [] then True
      else case from_part_name part_name of
        Some key \<Rightarrow> psk_partition key \<in> set partition_filter
      | None \<Rightarrow> True)"

definition manifest_table_parts :: "TableManifest \<Rightarrow> PartInfo list" where
  "manifest_table_parts tm = concat (map snd (tm_parts tm))"

definition wanted_parts :: "string list \<Rightarrow> TableManifest \<Rightarrow> PartInfo list" where
  "wanted_parts partition_filter tm =
     filter (\<lambda>p. part_matches_partitions (pi_name p) partition_filter) (manifest_table_parts tm)"

definition restore_table_keys ::
    "(string \<Rightarrow> 'p option) \<Rightarrow> ('p \<Rightarrow> string \<Rightarrow> bool) \<Rightarrow> BackupManifest \<Rightarrow> string option \<Rightarrow> string list" where
  "restore_table_keys glob_new glob_matches manifest table_pattern =
     (let table_filter = TableFilter_new glob_new (case table_pattern of Some p \<Rightarrow> p | None \<Rightarrow> ''*.*'')
      in filter (\<lambda>key. let (db, table) = source_names key in matches glob_matches table_filter db table)
           (map fst (bm_tables manifest)))"

subsection \<open>Live tables\<close>

definition get_table_data_path :: "string list \<Rightarrow> string \<Rightarrow> string \<Rightarrow> string \<Rightarrow> string" where
  "get_table_data_path data_paths config_path db table =
     (case data_paths of
        first # _ \<Rightarrow> if first \<noteq> [] then first else path_join (path_join (path_join config_path ''data'') db) table
      | [] \<Rightarrow> path_join (path_join (path_join config_path ''data'') db) table)"

definition find_table_data_path :: "TableRow list \<Rightarrow> string \<Rightarrow> string \<Rightarrow> string \<Rightarrow> string" where
  "find_table_data_path live db table config_path =
     (case find (\<lambda>row. tr_database row = db \<and> tr_name row = table) live of
        Some row \<Rightarrow> get_table_data_path (tr_data_paths row) config_path db table
      | None \<Rightarrow> get_table_data_path [] config_path db table)"

definition find_table_uuid :: "TableRow list \<Rightarrow> string \<Rightarrow> string \<Rightarrow> string option" where
  "find_table_uuid live db table =
     map_option tr_uuid (find (\<lambda>row. tr_database row = db \<and> tr_name row = table \<and> tr_uuid row \<noteq> []) live)"

subsection \<open>ATTACH TABLE mode\<close>

record CompleteAttachPlan =
  cap_sources :: "(string \<times> string) list"

record Incomplete =
  inc_sources :: "(string \<times> string) list"
  inc_missing :: "string list"
  inc_total :: nat

definition resolved_sources :: "(string \<times> string option) list \<Rightarrow> (string \<times> string) list" where
  "resolved_sources resolved = List.map_filter (\<lambda>(n, src). map_option (Pair n) src) resolved"

definition CompleteAttachPlan_try_new :: "(string \<times> string option) list \<Rightarrow> Incomplete + CompleteAttachPlan" where
  "CompleteAttachPlan_try_new resolved =
     (let missing = map fst (filter (\<lambda>(_, src). src = None) resolved)
      in if missing = [] then Inr \<lparr>cap_sources = resolved_sources resolved\<rparr>
         else Inl \<lparr>inc_sources = resolved_sources resolved, inc_missing = missing, inc_total = length resolved\<rparr>)"

datatype AttachTableDecision =
  AttachComplete CompleteAttachPlan
| Refuse "string list" nat
| AttachIncomplete CompleteAttachPlan "string list" nat

definition decide_attach_table :: "(string \<times> string option) list \<Rightarrow> bool \<Rightarrow> AttachTableDecision" where
  "decide_attach_table resolved require_complete =
     (case CompleteAttachPlan_try_new resolved of
        Inr plan \<Rightarrow> AttachComplete plan
      | Inl incomplete \<Rightarrow>
          if require_complete then Refuse (inc_missing incomplete) (inc_total incomplete)
          else AttachIncomplete \<lparr>cap_sources = inc_sources incomplete\<rparr> (inc_missing incomplete) (inc_total incomplete))"

record AttachPreflight =
  pf_plans :: "string \<Rightarrow> (CompleteAttachPlan \<times> nat) option"
  pf_refused :: "string list"
  pf_refused_parts :: nat

definition empty_preflight :: AttachPreflight where
  "empty_preflight = \<lparr>pf_plans = Map.empty, pf_refused = [], pf_refused_parts = 0\<rparr>"

definition retain_allowed :: "AttachPreflight \<Rightarrow> string list \<Rightarrow> string list" where
  "retain_allowed pf table_keys = filter (\<lambda>k. k \<notin> set (pf_refused pf)) table_keys"

definition has_s3_disk_parts :: "string btree_map \<Rightarrow> TableManifest \<Rightarrow> bool" where
  "has_s3_disk_parts disk_types tm =
     list_ex (\<lambda>(d, ps). is_s3_disk (case map_of disk_types d of Some t \<Rightarrow> t | None \<Rightarrow> [])
                          \<and> list_ex (\<lambda>p. pi_s3_objects p \<noteq> None) ps) (tm_parts tm)"

definition resolve_parts ::
    "'s attach_env \<Rightarrow> BackupManifest \<Rightarrow> string \<Rightarrow> string \<Rightarrow> string list \<Rightarrow> string \<Rightarrow> TableManifest \<Rightarrow> (string \<times> string option) list" where
  "resolve_parts env manifest backup_dir backup_name partition_filter table_key tm =
     (let (src_db, src_table) = source_names table_key
      in map (\<lambda>(d, p). (pi_name p,
               resolve_shadow_part_path (at_exists env) backup_dir (bm_disks manifest) backup_name d
                 (encode_component (at_uni env) src_db) (encode_component (at_uni env) src_table) src_db src_table (pi_name p)))
           (filter (\<lambda>(_, p). part_matches_partitions (pi_name p) partition_filter)
              (concat (map (\<lambda>(d, ps). map (Pair d) ps) (tm_parts tm)))))"

definition preflight_table ::
    "'s attach_env \<Rightarrow> BackupManifest \<Rightarrow> string \<Rightarrow> string \<Rightarrow> string list \<Rightarrow> bool \<Rightarrow> string \<Rightarrow> AttachPreflight \<Rightarrow> AttachPreflight" where
  "preflight_table env manifest backup_dir backup_name partition_filter require_complete table_key pf =
     (case map_of (bm_tables manifest) table_key of
        None \<Rightarrow> pf
      | Some tm \<Rightarrow>
          if \<not> is_replicated_engine (tm_engine tm) \<or> has_s3_disk_parts (bm_disk_types manifest) tm then pf
          else case decide_attach_table
                      (resolve_parts env manifest backup_dir backup_name partition_filter table_key tm) require_complete of
            AttachComplete plan \<Rightarrow> pf\<lparr>pf_plans := (pf_plans pf)(table_key \<mapsto> (plan, 0))\<rparr>
          | AttachIncomplete plan missing n \<Rightarrow> pf\<lparr>pf_plans := (pf_plans pf)(table_key \<mapsto> (plan, length missing))\<rparr>
          | Refuse missing n \<Rightarrow>
              pf\<lparr>pf_refused := table_key # pf_refused pf, pf_refused_parts := pf_refused_parts pf + n\<rparr>)"

definition plan_attach_completeness ::
    "'s attach_env \<Rightarrow> BackupManifest \<Rightarrow> string list \<Rightarrow> string \<Rightarrow> string \<Rightarrow> string list \<Rightarrow> bool \<Rightarrow> AttachPreflight" where
  "plan_attach_completeness env manifest tables backup_dir backup_name partition_filter require_complete =
     fold (preflight_table env manifest backup_dir backup_name partition_filter require_complete) tables empty_preflight"

fun link_parts :: "'s attach_env \<Rightarrow> string \<Rightarrow> (string \<times> string) list \<Rightarrow> 's \<Rightarrow> (string + nat) \<times> 's" where
  "link_parts env data_path [] s = (Inr 0, s)"
| "link_parts env data_path ((part_name, part_src) # rest) s =
     (case (if \<not> at_exists env (path_join data_path part_name)
            then at_link env part_src (path_join data_path part_name) s else (None, s)) of
        (Some e, s') \<Rightarrow> (Inl e, s')
      | (None, s') \<Rightarrow>
          (case link_parts env data_path rest s' of
             (Inr n, s'') \<Rightarrow> (Inr (n + 1), s'')
           | (Inl e, s'') \<Rightarrow> (Inl e, s'')))"

definition try_attach_table_mode ::
    "'s attach_env \<Rightarrow> string \<Rightarrow> string \<Rightarrow> string \<Rightarrow> (string \<times> string) list \<Rightarrow> CompleteAttachPlan \<Rightarrow> string \<Rightarrow> 's
       \<Rightarrow> (string + nat) \<times> 's" where
  "try_attach_table_mode env dst_db dst_table ddl macros plan table_data_path s =
     (case ch_execute (at_ch env) (detach_table_sync_sql dst_db dst_table) s of
        (Some e, s1) \<Rightarrow> (Inl e, s1)
      | (None, s1) \<Rightarrow>
          (let s2 = (case parse_replicated_params ddl of
                       None \<Rightarrow> s1
                     | Some (p, r) \<Rightarrow>
                         snd (drop_replica_from_zkpath (at_ch env) (resolve_zk_macros r macros) (resolve_zk_macros p macros) s1))
           in case link_parts env table_data_path (cap_sources plan) s2 of
                (Inl e, s3) \<Rightarrow> (Inl e, s3)
              | (Inr linked, s3) \<Rightarrow>
                  (case ch_execute (at_ch env) (attach_table_sql dst_db dst_table) s3 of
                     (Some e, s4) \<Rightarrow> (Inl e, s4)
                   | (None, s4) \<Rightarrow>
                       (case ch_execute (at_ch env) (system_restore_replica_sql dst_db dst_table) s4 of
                          (Some e, s5) \<Rightarrow> (Inl e, s5)
                        | (None, s5) \<Rightarrow> (Inr linked, s5)))))"

subsection \<open>Mutations\<close>

definition execute_mutation_sql :: "string \<Rightarrow> string \<Rightarrow> string \<Rightarrow> string" where
  "execute_mutation_sql db table command =
     (let cmd = trim command; upper = to_uppercase cmd
      in if CHR '';'' \<in> set cmd then []
         else if \<not> starts_with upper ''DELETE'' \<and> \<not> starts_with upper ''UPDATE'' \<and> \<not> starts_with upper ''MATERIALIZE'' then []
         else ''ALTER TABLE '' @ quote_identifier db @ ''.'' @ quote_identifier table @ '' '' @ cmd @ '' SETTINGS mutations_sync=2'')"

definition execute_mutation :: "'s ch_client \<Rightarrow> string \<Rightarrow> string \<Rightarrow> string \<Rightarrow> 's \<Rightarrow> string option \<times> 's" where
  "execute_mutation ch db table command s =
     (let sql = execute_mutation_sql db table command in if sql = [] then (None, s) else ch_execute ch sql s)"

definition reapply_table :: "'s ch_client \<Rightarrow> BackupManifest \<Rightarrow> RemapConfig option \<Rightarrow> string \<Rightarrow> 's \<Rightarrow> 's" where
  "reapply_table ch manifest remap table_key s =
     (case map_of (bm_tables manifest) table_key of
        None \<Rightarrow> s
      | Some tm \<Rightarrow>
          (let (dst_db, dst_table) = destination remap table_key
           in fold (\<lambda>m s. snd (execute_mutation ch dst_db dst_table (mi_command m) s)) (tm_pending_mutations tm) s))"

definition reapply_pending_mutations ::
    "'s ch_client \<Rightarrow> BackupManifest \<Rightarrow> (string \<times> nat \<times> nat) list \<Rightarrow> RemapConfig option \<Rightarrow> 's \<Rightarrow> 's" where
  "reapply_pending_mutations ch manifest restored_tables remap s =
     fold (\<lambda>(key, _, _). reapply_table ch manifest remap key) restored_tables s"

subsection \<open>Resuming\<close>

text \<open>The parts the state file records, when it belongs to the same backup and parameters.\<close>

definition state_parts :: "RestoreState option \<Rightarrow> string \<Rightarrow> string \<Rightarrow> string \<Rightarrow> string set" where
  "state_parts loaded backup_name params_hash key =
     (case loaded of
        Some st \<Rightarrow>
          if rs_backup_name st = backup_name \<and> (rs_params_hash st = [] \<or> rs_params_hash st = params_hash)
          then (case map_of (rs_attached_parts st) key of Some ps \<Rightarrow> set ps | None \<Rightarrow> {})
          else {}
      | None \<Rightarrow> {})"

text \<open>
  The recorded parts and the live parts of the destination table together; nothing for a table that has
  no active parts, and the recorded ones alone when the server cannot be asked.
\<close>

definition resume_attached ::
    "(string \<Rightarrow> string \<Rightarrow> 's \<Rightarrow> string + string list) \<Rightarrow> RestoreState option \<Rightarrow> string \<Rightarrow> string \<Rightarrow> string list
       \<Rightarrow> RemapConfig option \<Rightarrow> 's \<Rightarrow> string \<Rightarrow> string set" where
  "resume_attached system_parts loaded backup_name params_hash tables remap s key =
     (let recorded = state_parts loaded backup_name params_hash key
      in if key \<in> set tables
         then (let (db, table) = destination remap key
               in case system_parts db table s of
                    Inl _ \<Rightarrow> recorded
                  | Inr names \<Rightarrow> if names = [] then {} else recorded \<union> set names)
         else {})"

datatype ReplicaSyncDecision = SyncAttach | SyncSkip

definition decide_replica_sync :: "string + bool \<Rightarrow> bool \<Rightarrow> ReplicaSyncDecision" where
  "decide_replica_sync synced strict = (if synced = Inr False \<and> strict then SyncSkip else SyncAttach)"

subsection \<open>The restore\<close>

record 's restore_env =
  re_attach :: "'s attach_env"
  re_version :: "'s \<Rightarrow> string + string"
  re_macros :: "'s \<Rightarrow> (string \<times> string) list"
  re_system_parts :: "string \<Rightarrow> string \<Rightarrow> 's \<Rightarrow> string + string list"
  re_live_tables :: "'s \<Rightarrow> TableRow list"
  re_replica_sync :: "string \<Rightarrow> string \<Rightarrow> 's \<Rightarrow> string + bool"
  re_s3_client :: bool
  re_s3_restore :: "AttachParams \<Rightarrow> string \<Rightarrow> 's \<Rightarrow> (attach_error + nat) \<times> 's"
  re_schedule :: "PartInfo list \<Rightarrow> PartInfo list"
  re_tail :: "'s \<Rightarrow> string option \<times> 's"

record restore_opts =
  ro_backup_name :: string
  ro_backup_dir :: string
  ro_schema_only :: bool
  ro_data_only :: bool
  ro_rm :: bool
  ro_resume :: bool
  ro_all_tables :: bool
  ro_named_collections :: bool
  ro_partition_filter :: "string list"
  ro_remap :: "RemapConfig option"
  ro_params_hash :: string

record restore_config =
  rg_data_path :: string
  rg_on_cluster :: string
  rg_dist_cluster :: string
  rg_zk_check_strict :: bool
  rg_replace_uuid_macro :: bool
  rg_restore_as_attach :: bool
  rg_require_complete :: bool
  rg_check_replicas :: bool
  rg_strict_replica_sync :: bool
  rg_strict_projection_gate :: bool
  rg_allow_empty_backups :: bool

record restore_item =
  it_key :: string
  it_params :: AttachParams
  it_engine :: string
  it_uuid :: "string option"

datatype restore_error =
  ProjectionGate | NoTablesMatched | SchemaFailed schema_error | TableFailed string attach_error | TailError string
| PartialRestore nat nat

definition build_restore_item ::
    "'s restore_env \<Rightarrow> restore_config \<Rightarrow> restore_opts \<Rightarrow> BackupManifest \<Rightarrow> (string \<Rightarrow> string set) \<Rightarrow> 's \<Rightarrow> string \<Rightarrow> restore_item option" where
  "build_restore_item env cfg opts manifest already s key =
     (case map_of (bm_tables manifest) key of
        None \<Rightarrow> None
      | Some tm \<Rightarrow>
          (let (src_db, src_table) = source_names key;
               (dst_db, dst_table) = destination (ro_remap opts) key;
               parts = wanted_parts (ro_partition_filter opts) tm;
               live = re_live_tables env s
           in if parts = [] then None
              else Some \<lparr>it_key = key,
                it_params = \<lparr>ap_db = dst_db, ap_table = dst_table, ap_parts = parts,
                   ap_backup_dir = ro_backup_dir opts, ap_backup_name = ro_backup_name opts,
                   ap_table_data_path = find_table_data_path live dst_db dst_table (rg_data_path cfg),
                   ap_already_attached = already key, ap_manifest_disks = bm_disks manifest,
                   ap_source_db = src_db, ap_source_table = src_table, ap_parts_by_disk = tm_parts tm\<rparr>,
                it_engine = tm_engine tm,
                it_uuid = (case find_table_uuid live dst_db dst_table of Some u \<Rightarrow> Some u | None \<Rightarrow> tm_uuid tm)\<rparr>))"

definition s3_parts :: "string btree_map \<Rightarrow> AttachParams \<Rightarrow> PartInfo list" where
  "s3_parts disk_types params =
     filter (\<lambda>p. pi_s3_objects p \<noteq> None)
       (concat (map snd (filter (\<lambda>(d, _). is_s3_disk (case map_of disk_types d of Some t \<Rightarrow> t | None \<Rightarrow> [])) (ap_parts_by_disk params))))"

definition attach_parts_owned ::
    "'s restore_env \<Rightarrow> string btree_map \<Rightarrow> restore_item \<Rightarrow> 's \<times> resume_parts \<Rightarrow> (attach_error + AttachResult) \<times> 's \<times> resume_parts" where
  "attach_parts_owned env disk_types it = (\<lambda>(s, resume).
     let params = it_params it; s3 = s3_parts disk_types params
     in case (if re_s3_client env \<and> it_uuid it \<noteq> None \<and> s3 \<noteq> []
                 \<and> \<not> (list_all (\<lambda>p. pi_name p \<in> ap_already_attached params) s3 \<and> ap_already_attached params \<noteq> {})
              then re_s3_restore env params (the (it_uuid it)) s else (Inr 0, s)) of
          (Inl e, s') \<Rightarrow> (Inl e, s', resume)
        | (Inr s3_skipped, s') \<Rightarrow>
            (case attach_parts_inner (re_schedule env) (re_attach env) params (it_engine it) True (s', resume) of
               (Inl e, st) \<Rightarrow> (Inl e, st)
             | (Inr r, st) \<Rightarrow> (Inr (r\<lparr>ar_skipped := ar_skipped r + s3_skipped\<rparr>), st)))"

text \<open>Every table task runs; the first failure in the order of the list is reported when all have ended.\<close>

fun attach_tables ::
    "'s restore_env \<Rightarrow> string btree_map \<Rightarrow> restore_item list \<Rightarrow> 's \<times> resume_parts
       \<Rightarrow> (restore_error + (string \<times> nat \<times> nat) list) \<times> 's \<times> resume_parts" where
  "attach_tables env disk_types [] st = (Inr [], st)"
| "attach_tables env disk_types (it # rest) st =
     (case attach_parts_owned env disk_types it st of
        (r, st1) \<Rightarrow>
          (case attach_tables env disk_types rest st1 of
             (rs, st2) \<Rightarrow>
               (case r of
                  Inl e \<Rightarrow> (Inl (TableFailed (it_key it) e), st2)
                | Inr a \<Rightarrow> (map_sum id ((#) (it_key it, ar_attached a, ar_skipped a)) rs, st2))))"

definition unsynced :: "'s restore_env \<Rightarrow> restore_config \<Rightarrow> 's \<Rightarrow> restore_item \<Rightarrow> bool" where
  "unsynced env cfg s it \<longleftrightarrow>
     rg_check_replicas cfg \<and> is_replicated_engine (it_engine it)
     \<and> decide_replica_sync (re_replica_sync env (ap_db (it_params it)) (ap_table (it_params it)) s)
         (rg_strict_replica_sync cfg) = SyncSkip"

text \<open>
  ATTACH TABLE mode for the tables that have a plan, with the statement of the manifest; a table for
  which it fails is attached part by part.
\<close>

fun attach_table_mode ::
    "'s attach_env \<Rightarrow> BackupManifest \<Rightarrow> (string \<times> string) list \<Rightarrow> AttachPreflight \<Rightarrow> restore_item list \<Rightarrow> 's
       \<Rightarrow> (string \<times> nat \<times> nat) list \<times> restore_item list \<times> 's" where
  "attach_table_mode env manifest macros pf [] s = ([], [], s)"
| "attach_table_mode env manifest macros pf (it # rest) s =
     (case pf_plans pf (it_key it) of
        None \<Rightarrow>
          (case attach_table_mode env manifest macros pf rest s of
             (rs, normal, s') \<Rightarrow> (rs, it # normal, s'))
      | Some (plan, missing) \<Rightarrow>
          (let ddl = (case map_of (bm_tables manifest) (it_key it) of Some tm \<Rightarrow> tm_ddl tm | None \<Rightarrow> [])
           in case try_attach_table_mode env (ap_db (it_params it)) (ap_table (it_params it)) ddl macros plan
                     (ap_table_data_path (it_params it)) s of
                (Inr attached, s1) \<Rightarrow>
                  (case attach_table_mode env manifest macros pf rest s1 of
                     (rs, normal, s') \<Rightarrow> ((it_key it, attached, missing) # rs, normal, s'))
              | (Inl _, s1) \<Rightarrow>
                  (case attach_table_mode env manifest macros pf rest s1 of
                     (rs, normal, s') \<Rightarrow> (rs, it # normal, s'))))"

definition and_then :: "schema_error option \<times> 's \<Rightarrow> ('s \<Rightarrow> schema_error option \<times> 's) \<Rightarrow> schema_error option \<times> 's" where
  "and_then r f = (case r of (Some e, s) \<Rightarrow> (Some e, s) | (None, s) \<Rightarrow> f s)"

definition create_options ::
    "restore_config \<Rightarrow> restore_opts \<Rightarrow> string list \<Rightarrow> (string \<times> string) list \<Rightarrow> create_opts" where
  "create_options cfg opts replicated macros =
     \<lparr>co_remap = ro_remap opts, co_on_cluster = (if rg_on_cluster cfg = [] then None else Some (rg_on_cluster cfg)),
      co_replicated = replicated, co_macros = macros, co_dist_cluster = rg_dist_cluster cfg,
      co_zk_check_strict = rg_zk_check_strict cfg, co_replace_uuid = rg_replace_uuid_macro cfg\<rparr>"

text \<open>Phases 0 to 2: drop, create the databases, create the tables that hold data.\<close>

definition schema_phases ::
    "'s ch_client \<Rightarrow> BackupManifest \<Rightarrow> restore_opts \<Rightarrow> create_opts \<Rightarrow> string list \<Rightarrow> string list \<Rightarrow> 's \<Rightarrow> schema_error option \<times> 's" where
  "schema_phases ch manifest opts co table_keys tables s =
     (let remap = ro_remap opts; cl = co_on_cluster co; repl = co_replicated co
      in and_then
           (and_then
             (if ro_rm opts \<and> \<not> ro_data_only opts
              then and_then (drop_tables ch manifest table_keys remap cl repl s)
                     (\<lambda>s. (None, drop_databases ch manifest remap cl repl s))
              else (None, s))
             (\<lambda>s. if ro_data_only opts then (None, s) else create_databases ch manifest remap cl repl s))
           (create_tables ch manifest tables (ro_data_only opts) co))"

text \<open>Postponed tables, then the objects without data in dependency order; the other way round for schema only.\<close>

definition late_phases ::
    "'s ch_client \<Rightarrow> BackupManifest \<Rightarrow> restore_opts \<Rightarrow> create_opts \<Rightarrow> RestorePhases \<Rightarrow> 's \<Rightarrow> schema_error option \<times> 's" where
  "late_phases ch manifest opts co phases s =
     (let postponed = (\<lambda>s. if ro_data_only opts \<or> postponed_tables phases = [] then (None, s)
                           else create_tables ch manifest (postponed_tables phases) (ro_data_only opts) co s);
          objects = (\<lambda>s. if ro_data_only opts \<or> ddl_only_tables phases = [] then (None, s)
                         else case topological_sort (bm_tables manifest) (ddl_only_tables phases) of
                           Some sorted_ddl \<Rightarrow> create_ddl_objects ch manifest sorted_ddl (ro_remap opts) (co_on_cluster co) (co_replicated co) s
                         | None \<Rightarrow> (None, s))
      in if ro_schema_only opts then and_then (objects s) postponed else and_then (postponed s) objects)"

definition finish_phases ::
    "'s restore_env \<Rightarrow> BackupManifest \<Rightarrow> restore_opts \<Rightarrow> create_opts \<Rightarrow> 's \<Rightarrow> string option \<times> 's" where
  "finish_phases env manifest opts co s =
     (let ch = at_ch (re_attach env);
          s1 = (if \<not> ro_data_only opts \<and> ro_all_tables opts \<and> bm_functions manifest \<noteq> []
                then snd (create_functions ch manifest (co_on_cluster co) s) else s);
          s2 = (if \<not> ro_data_only opts \<and> ro_named_collections opts
                then snd (restore_named_collections ch manifest (co_on_cluster co) s1) else s1)
      in re_tail env s2)"

record 's restore_result =
  rr_error :: "restore_error option"
  rr_world :: 's
  rr_resume :: resume_parts
  rr_completion :: "RestoreState option"

definition stop :: "restore_error \<Rightarrow> 's \<Rightarrow> resume_parts \<Rightarrow> 's restore_result" where
  "stop e s resume = \<lparr>rr_error = Some e, rr_world = s, rr_resume = resume, rr_completion = None\<rparr>"

definition completion_state :: "BackupManifest \<Rightarrow> restore_opts \<Rightarrow> string list \<Rightarrow> RestoreState" where
  "completion_state manifest opts tables =
     \<lparr>rs_attached_parts = List.map_filter (\<lambda>k. map_option (\<lambda>tm. (k, map pi_name (manifest_table_parts tm))) (map_of (bm_tables manifest) k)) tables,
      rs_backup_name = ro_backup_name opts, rs_params_hash = ro_params_hash opts\<rparr>"

text \<open>
  From the attached tables to the end: the tally, the pending mutations, the late phases and the verdict.
  Skipped parts are an error at the very end, and then no completion state is written.
\<close>

definition conclude ::
    "'s restore_env \<Rightarrow> BackupManifest \<Rightarrow> restore_opts \<Rightarrow> create_opts \<Rightarrow> RestorePhases \<Rightarrow> string list \<Rightarrow> nat
       \<Rightarrow> (string \<times> nat \<times> nat) list \<Rightarrow> 's \<Rightarrow> resume_parts \<Rightarrow> 's restore_result" where
  "conclude env manifest opts co phases tables skipped results s resume =
     (let attached = sum_list (map (\<lambda>(_, a, _). a) results);
          skipped = skipped + sum_list (map (\<lambda>(_, _, k). k) results);
          s1 = reapply_pending_mutations (at_ch (re_attach env)) manifest results (ro_remap opts) s
      in case late_phases (at_ch (re_attach env)) manifest opts co phases s1 of
           (Some e, s2) \<Rightarrow> stop (SchemaFailed e) s2 resume
         | (None, s2) \<Rightarrow>
             (case finish_phases env manifest opts co s2 of
                (Some e, s3) \<Rightarrow> stop (TailError e) s3 resume
              | (None, s3) \<Rightarrow>
                  if 0 < skipped then stop (PartialRestore attached skipped) s3 resume
                  else \<lparr>rr_error = None, rr_world = s3, rr_resume = resume,
                        rr_completion = Some (completion_state manifest opts tables)\<rparr>))"

definition attached_before ::
    "'s restore_env \<Rightarrow> restore_opts \<Rightarrow> string list \<Rightarrow> RestoreState option \<Rightarrow> 's \<Rightarrow> string \<Rightarrow> string set" where
  "attached_before env opts tables loaded s =
     (if ro_resume opts
      then resume_attached (re_system_parts env) loaded (ro_backup_name opts) (ro_params_hash opts) tables (ro_remap opts) s
      else (\<lambda>_. {}))"

definition data_items ::
    "'s restore_env \<Rightarrow> restore_config \<Rightarrow> restore_opts \<Rightarrow> BackupManifest \<Rightarrow> string list \<Rightarrow> RestoreState option \<Rightarrow> 's \<Rightarrow> restore_item list" where
  "data_items env cfg opts manifest tables loaded s =
     List.map_filter (build_restore_item env cfg opts manifest (attached_before env opts tables loaded s) s) tables"

definition restore_data ::
    "'s restore_env \<Rightarrow> restore_config \<Rightarrow> restore_opts \<Rightarrow> BackupManifest \<Rightarrow> create_opts \<Rightarrow> RestorePhases \<Rightarrow> AttachPreflight
       \<Rightarrow> string list \<Rightarrow> RestoreState option \<Rightarrow> 's \<Rightarrow> 's restore_result" where
  "restore_data env cfg opts manifest co phases pf tables loaded s =
     (let resume = (if ro_resume opts then Some (\<lambda>k. sorted_list_of_set (attached_before env opts tables loaded s k)) else None);
          items = data_items env cfg opts manifest tables loaded s;
          behind = filter (unsynced env cfg s) items;
          items = filter (\<lambda>it. \<not> unsynced env cfg s it) items;
          skipped = pf_refused_parts pf + sum_list (map (\<lambda>it. length (ap_parts (it_params it))) behind);
          (done_tables, normal, s1) =
            (if rg_restore_as_attach cfg then attach_table_mode (re_attach env) manifest (co_macros co) pf items s else ([], items, s))
      in case attach_tables env (bm_disk_types manifest) normal (s1, resume) of
           (Inl e, s2, resume') \<Rightarrow> stop e s2 resume'
         | (Inr rs, s2, resume') \<Rightarrow> conclude env manifest opts co phases tables skipped (rs @ done_tables) s2 resume')"

definition restore_checked ::
    "'s restore_env \<Rightarrow> restore_config \<Rightarrow> restore_opts \<Rightarrow> BackupManifest \<Rightarrow> string list \<Rightarrow> RestoreState option \<Rightarrow> 's \<Rightarrow> 's restore_result" where
  "restore_checked env cfg opts manifest table_keys loaded s =
     (if table_keys = []
      then \<lparr>rr_error = (if \<not> ro_all_tables opts \<and> \<not> rg_allow_empty_backups cfg then Some NoTablesMatched else None),
            rr_world = s, rr_resume = None, rr_completion = None\<rparr>
      else let ch = at_ch (re_attach env);
          phases = classify_restore_tables manifest table_keys;
          replicated = (if rg_on_cluster cfg = [] then [] else detect_replicated_databases ch manifest (ro_remap opts) s);
          co = create_options cfg opts replicated (re_macros env s);
          pf = (if rg_restore_as_attach cfg \<and> \<not> ro_schema_only opts
                then plan_attach_completeness (re_attach env) manifest (data_tables phases) (ro_backup_dir opts) (ro_backup_name opts)
                       (ro_partition_filter opts) (rg_require_complete cfg)
                else empty_preflight);
          tables = retain_allowed pf (data_tables phases)
      in case schema_phases ch manifest opts co table_keys tables s of
           (Some e, s1) \<Rightarrow> stop (SchemaFailed e) s1 None
         | (None, s1) \<Rightarrow>
             if ro_schema_only opts
             then (case late_phases ch manifest opts co phases s1 of
                     (Some e, s2) \<Rightarrow> stop (SchemaFailed e) s2 None
                   | (None, s2) \<Rightarrow>
                       (case finish_phases env manifest opts co s2 of
                          (Some e, s3) \<Rightarrow> stop (TailError e) s3 None
                        | (None, s3) \<Rightarrow> \<lparr>rr_error = None, rr_world = s3, rr_resume = None, rr_completion = None\<rparr>))
             else restore_data env cfg opts manifest co phases pf tables loaded s1)"

definition restore ::
    "'s restore_env \<Rightarrow> restore_config \<Rightarrow> restore_opts \<Rightarrow> BackupManifest \<Rightarrow> string list \<Rightarrow> RestoreState option \<Rightarrow> 's \<Rightarrow> 's restore_result" where
  "restore env cfg opts manifest table_keys loaded s =
     (case re_version env s of
        Inr v \<Rightarrow>
          if projection_gate_error (bm_stripped_projections manifest) v (rg_strict_projection_gate cfg)
          then stop ProjectionGate s None
          else restore_checked env cfg opts manifest table_keys loaded s
      | Inl _ \<Rightarrow> restore_checked env cfg opts manifest table_keys loaded s)"

section \<open>Tables that cannot be restored whole\<close>

definition incomplete_table ::
    "'s attach_env \<Rightarrow> BackupManifest \<Rightarrow> string \<Rightarrow> string \<Rightarrow> string list \<Rightarrow> string \<Rightarrow> bool" where
  "incomplete_table env manifest backup_dir backup_name partition_filter key \<longleftrightarrow>
     (\<exists>tm. map_of (bm_tables manifest) key = Some tm \<and> is_replicated_engine (tm_engine tm)
        \<and> \<not> has_s3_disk_parts (bm_disk_types manifest) tm
        \<and> (\<exists>n. (n, None) \<in> set (resolve_parts env manifest backup_dir backup_name partition_filter key tm)))"

lemma resolved_sources_complete:
  "\<forall>x\<in>set resolved. snd x \<noteq> None \<Longrightarrow> map (\<lambda>(n, p). (n, Some p)) (resolved_sources resolved) = resolved"
  by (induction resolved) (auto simp: resolved_sources_def map_filter_simps split: option.splits)

lemma decide_complete:
  "decide_attach_table resolved True =
     (if \<forall>x\<in>set resolved. snd x \<noteq> None then AttachComplete \<lparr>cap_sources = resolved_sources resolved\<rparr>
      else Refuse (map fst (filter (\<lambda>(_, src). src = None) resolved)) (length resolved))"
  by (force simp: decide_attach_table_def CompleteAttachPlan_try_new_def Let_def filter_empty_conv)

definition part_total :: "'s attach_env \<Rightarrow> BackupManifest \<Rightarrow> string \<Rightarrow> string \<Rightarrow> string list \<Rightarrow> string \<Rightarrow> nat" where
  "part_total env manifest backup_dir backup_name partition_filter key =
     (case map_of (bm_tables manifest) key of
        Some tm \<Rightarrow> length (resolve_parts env manifest backup_dir backup_name partition_filter key tm) | None \<Rightarrow> 0)"

definition whole_plan ::
    "'s attach_env \<Rightarrow> BackupManifest \<Rightarrow> string \<Rightarrow> string \<Rightarrow> string list \<Rightarrow> string \<Rightarrow> (CompleteAttachPlan \<times> nat) option \<Rightarrow> bool" where
  "whole_plan env manifest backup_dir backup_name partition_filter key r =
     (case r of None \<Rightarrow> True | Some (plan, missing) \<Rightarrow> missing = 0
        \<and> (\<exists>tm. map_of (bm_tables manifest) key = Some tm \<and> map (\<lambda>(n, p). (n, Some p)) (cap_sources plan)
               = resolve_parts env manifest backup_dir backup_name partition_filter key tm))"

lemma preflight_table_step:
  fixes env manifest backup_dir backup_name partition_filter
  defines "bad \<equiv> incomplete_table env manifest backup_dir backup_name partition_filter"
    and "tot \<equiv> part_total env manifest backup_dir backup_name partition_filter"
    and "ok \<equiv> whole_plan env manifest backup_dir backup_name partition_filter"
  assumes "\<forall>k. ok k (pf_plans pf k)"
    and pf': "pf' = preflight_table env manifest backup_dir backup_name partition_filter True key pf"
  shows "set (pf_refused pf') = set (pf_refused pf) \<union> (if bad key then {key} else {})
       \<and> pf_refused_parts pf' = pf_refused_parts pf + (if bad key then tot key else 0)
       \<and> (\<forall>k. ok k (pf_plans pf' k))"
proof (cases "map_of (bm_tables manifest) key")
  case None
  then show ?thesis using assms by (simp add: preflight_table_def incomplete_table_def)
next
  case (Some tm)
  let ?res = "resolve_parts env manifest backup_dir backup_name partition_filter key tm"
  show ?thesis
  proof (cases "is_replicated_engine (tm_engine tm) \<and> \<not> has_s3_disk_parts (bm_disk_types manifest) tm")
    case False
    then show ?thesis using Some assms by (auto simp: preflight_table_def incomplete_table_def)
  next
    case elig: True
    have b: "bad key \<longleftrightarrow> \<not> (\<forall>x\<in>set ?res. snd x \<noteq> None)"
      using Some elig unfolding bad_def incomplete_table_def by force
    show ?thesis
    proof (cases "bad key")
      case True
      then show ?thesis using Some elig b assms(4) pf'
        by (auto simp: preflight_table_def decide_complete tot_def part_total_def)
    next
      case False
      then have all: "\<forall>x\<in>set ?res. snd x \<noteq> None" using b by blast
      then have "pf' = pf\<lparr>pf_plans := (pf_plans pf)(key \<mapsto> (\<lparr>cap_sources = resolved_sources ?res\<rparr>, 0))\<rparr>"
        using Some elig pf' by (simp add: preflight_table_def decide_complete)
      then show ?thesis using False assms(4) Some resolved_sources_complete [OF all] by (simp add: ok_def whole_plan_def)
    qed
  qed
qed

text \<open>
  C26. With \<^verbatim>\<open>attach_table_require_complete\<close>, exactly the eligible tables with a part that is not staged are
  refused: they are neither created nor attached, all of their parts count as skipped, and every plan
  that is made names the staged directory of every part.
\<close>

theorem incomplete_tables_refused:
  "let pf = plan_attach_completeness env manifest tables backup_dir backup_name partition_filter True
   in retain_allowed pf tables = filter (\<lambda>k. \<not> incomplete_table env manifest backup_dir backup_name partition_filter k) tables
       \<and> pf_refused_parts pf = sum_list (map (part_total env manifest backup_dir backup_name partition_filter)
           (filter (incomplete_table env manifest backup_dir backup_name partition_filter) tables))
       \<and> (\<forall>k. whole_plan env manifest backup_dir backup_name partition_filter k (pf_plans pf k))"
proof -
  let ?bad = "incomplete_table env manifest backup_dir backup_name partition_filter"
  let ?tot = "part_total env manifest backup_dir backup_name partition_filter"
  let ?ok = "whole_plan env manifest backup_dir backup_name partition_filter"
  let ?step = "preflight_table env manifest backup_dir backup_name partition_filter True"
  have "set (pf_refused (fold ?step ks p)) = set (pf_refused p) \<union> {k \<in> set ks. ?bad k}
      \<and> pf_refused_parts (fold ?step ks p) = pf_refused_parts p + sum_list (map ?tot (filter ?bad ks))
      \<and> (\<forall>k. ?ok k (pf_plans (fold ?step ks p) k))" if "\<forall>k. ?ok k (pf_plans p k)" for ks p
    using that
  proof (induction ks arbitrary: p)
    case (Cons k ks)
    note st = preflight_table_step [OF Cons.prems refl, of k]
    show ?case using Cons.IH [OF st [THEN conjunct2, THEN conjunct2]] st by auto
  qed simp
  from this [of empty_preflight tables] show ?thesis
    unfolding Let_def by (auto simp: plan_attach_completeness_def empty_preflight_def whole_plan_def retain_allowed_def intro!: filter_cong)
qed

section \<open>The verdict\<close>

lemma conclude_ok:
  assumes "rr_error (conclude env manifest opts co phases tables skipped results s resume) = None"
  shows "skipped = 0 \<and> list_all (\<lambda>(_, _, k). k = 0) results
       \<and> rr_completion (conclude env manifest opts co phases tables skipped results s resume)
           = Some (completion_state manifest opts tables)"
  using assms
  by (auto simp: conclude_def Let_def stop_def list_all_iff sum_list_eq_0_iff case_prod_unfold neq0_conv [symmetric]
      simp del: neq0_conv split: prod.splits option.splits if_splits)

lemma in_map_filter: "x \<in> set (List.map_filter f xs) \<longleftrightarrow> (\<exists>y\<in>set xs. f y = Some x)"
  by (induction xs) (auto simp: map_filter_simps split: option.splits)

lemma build_restore_item_Some:
  assumes "build_restore_item env cfg opts manifest already s key = Some it"
  shows "ap_parts (it_params it) \<noteq> []" and "ap_already_attached (it_params it) = already key"
proof -
  obtain tm where "map_of (bm_tables manifest) key = Some tm"
    using assms by (auto simp: build_restore_item_def split: option.splits)
  moreover obtain a b where "source_names key = (a, b)" by fastforce
  moreover obtain c d where "destination (ro_remap opts) key = (c, d)" by fastforce
  ultimately show "ap_parts (it_params it) \<noteq> []" and "ap_already_attached (it_params it) = already key"
    using assms by (auto simp: build_restore_item_def Let_def split: if_splits)
qed

lemma data_item_parts: "it \<in> set (data_items env cfg opts manifest tables loaded s) \<Longrightarrow> ap_parts (it_params it) \<noteq> []"
  unfolding data_items_def by (auto simp: in_map_filter dest: build_restore_item_Some(1))


definition restore_sample_env :: "string list restore_env" where
  "restore_sample_env = \<lparr>re_attach = attach_sample_env, re_version = (\<lambda>_. Inr ''24.8.1.1''), re_macros = (\<lambda>_. [(''shard'', ''1''), (''replica'', ''r'')]),
     re_system_parts = (\<lambda>_ _ _. Inr []), re_live_tables = (\<lambda>_. []), re_replica_sync = (\<lambda>_ _ _. Inr True), re_s3_client = False,
     re_s3_restore = (\<lambda>_ _ s. (Inr 0, s)), re_schedule = rev, re_tail = (\<lambda>s. (None, s))\<rparr>"

definition restore_sample_opts :: restore_opts where
  "restore_sample_opts = \<lparr>ro_backup_name = ''b'', ro_backup_dir = ''/b'', ro_schema_only = False, ro_data_only = False, ro_rm = False,
     ro_resume = False, ro_all_tables = True, ro_named_collections = False, ro_partition_filter = [], ro_remap = None, ro_params_hash = ''h''\<rparr>"

definition restore_sample_cfg :: restore_config where
  "restore_sample_cfg = \<lparr>rg_data_path = ''/ch'', rg_on_cluster = [], rg_dist_cluster = [], rg_zk_check_strict = True, rg_replace_uuid_macro = False,
     rg_restore_as_attach = False, rg_require_complete = True, rg_check_replicas = False, rg_strict_replica_sync = True,
     rg_strict_projection_gate = True, rg_allow_empty_backups = False\<rparr>"

definition restore_sample_manifest :: "string \<Rightarrow> BackupManifest" where
  "restore_sample_manifest engine = (blank_manifest ''b'')
     \<lparr>bm_tables := [(''d.t'', (view_entry (''CREATE TABLE d.t (id Int8) '' @ sample_replicated))
        \<lparr>tm_engine := engine, tm_parts := [(''default'', map attach_sample_part [''all_1_1_0'', ''all_2_2_0''])]\<rparr>)]\<rparr>"


section \<open>Resuming by name\<close>

text \<open>
  A resumed restore takes every live part of the destination table for a part of the backup that was
  attached before. A part of the backup that only shares its name with a live part, which ClickHouse may
  give to any part since it renumbers attached parts, is neither sent to the server nor counted as
  skipped, also when no state records it.
\<close>

theorem resume_trusts_live_names:
  assumes "ro_resume opts" and "key \<in> set tables" and "destination (ro_remap opts) key = (db, table)"
    and "re_system_parts env db table s = Inr names" and "pi_name p \<in> set names"
    and "build_restore_item env cfg opts manifest (attached_before env opts tables None s) s key = Some it"
    and "p \<in> set (ap_parts (it_params it))" and "distinct (map pi_name (ap_parts (it_params it)))"
    and "\<forall>xs. mset (re_schedule env xs) = mset xs"
    and "attach_parts_inner (re_schedule env) (logged (re_attach env)) (it_params it) (it_engine it) True ((s, []), resume)
           = (Inr res, (s', log), resume')"
  shows "\<exists>ps. map fst log = map (attach_sql (it_params it)) ps \<and> p \<notin> set ps
       \<and> ar_attached res + ar_skipped res < length (ap_parts (it_params it))"
proof -
  let ?params = "it_params it"
  have "pi_name p \<in> attached_before env opts tables None s key"
    using assms(1-5) by (auto simp: attached_before_def resume_attached_def)
  then have al: "pi_name p \<in> ap_already_attached ?params"
    using build_restore_item_Some(2) [OF assms(6)] by simp
  obtain rs missing where log: "log = map (\<lambda>(p, r). (attach_sql ?params p, r)) rs"
    and ms: "mset (ap_parts ?params) = mset (filter (\<lambda>p. pi_name p \<in> ap_already_attached ?params) (ap_parts ?params))
               + mset missing + mset (map fst rs)"
    and cnt: "ar_attached res = length (filter (\<lambda>(_, r). r = None) rs)"
      "ar_skipped res = length missing + length (filter (\<lambda>(_, r). \<exists>e. r = Some e \<and> classify_attach_error e = MissingPart) rs)"
    using attach_accounting [OF assms(9,8,10)] by auto
  have dis: "distinct (ap_parts ?params)" using assms(8) by (simp add: distinct_map)
  have in_al: "p \<in> set (filter (\<lambda>p. pi_name p \<in> ap_already_attached ?params) (ap_parts ?params))" using al assms(7) by simp
  have "count (mset (ap_parts ?params)) p = 1" using dis assms(7) by (simp add: distinct_count_atmost_1)
  moreover have "0 < count (mset (filter (\<lambda>p. pi_name p \<in> ap_already_attached ?params) (ap_parts ?params))) p"
    using in_al by (simp add: count_greater_zero_iff)
  ultimately have "count (mset (map fst rs)) p = 0" using arg_cong [OF ms, of "\<lambda>m. count m p"] by simp
  then have nin: "p \<notin> set (map fst rs)" by (metis count_eq_zero_iff set_mset_mset)
  have "size (mset (filter (\<lambda>p. pi_name p \<in> ap_already_attached ?params) (ap_parts ?params))) > 0"
    using in_al by (metis length_greater_0_conv list.set_cases neq_Nil_conv size_mset)
  then have "length missing + length rs < length (ap_parts ?params)"
    using arg_cong [OF ms, of size] by simp
  moreover have "length (filter (\<lambda>(_, r). r = None) rs)
      + length (filter (\<lambda>(_, r). \<exists>e. r = Some e \<and> classify_attach_error e = MissingPart) rs) \<le> length rs"
    by (induction rs) auto
  moreover have "map fst log = map (attach_sql ?params) (map fst rs)" using log by (simp add: case_prod_unfold comp_def)
  ultimately show ?thesis using nin cnt by (intro exI [of _ "map fst rs"]) simp
qed

definition resume_sample_env :: "string list restore_env" where
  "resume_sample_env = restore_sample_env\<lparr>re_system_parts := (\<lambda>_ _ _. Inr [''all_2_2_0''])\<rparr>"

definition resume_sample_item :: restore_item where
  "resume_sample_item = the (build_restore_item resume_sample_env restore_sample_cfg (restore_sample_opts\<lparr>ro_resume := True\<rparr>)
     (restore_sample_manifest ''MergeTree'')
     (attached_before resume_sample_env (restore_sample_opts\<lparr>ro_resume := True\<rparr>) [''d.t''] None []) [] ''d.t'')"

theorem resume_trusts_live_names_witness:
  "\<exists>res log ps. attach_sample_part ''all_2_2_0'' \<in> set (ap_parts (it_params resume_sample_item))
     \<and> fst (attach_parts_inner rev (logged attach_sample_env) (it_params resume_sample_item) ''MergeTree'' True (([], []), None)) = Inr res
     \<and> snd (fst (snd (attach_parts_inner rev (logged attach_sample_env) (it_params resume_sample_item) ''MergeTree'' True (([], []), None)))) = log
     \<and> map fst log = map (attach_sql (it_params resume_sample_item)) ps \<and> attach_sample_part ''all_2_2_0'' \<notin> set ps
     \<and> ar_attached res + ar_skipped res < length (ap_parts (it_params resume_sample_item))"
proof -
  let ?o = "restore_sample_opts\<lparr>ro_resume := True\<rparr>"
  let ?run = "attach_parts_inner rev (logged attach_sample_env) (it_params resume_sample_item) ''MergeTree'' True (([], []), None)"
  have item: "build_restore_item resume_sample_env restore_sample_cfg ?o (restore_sample_manifest ''MergeTree'')
     (attached_before resume_sample_env ?o [''d.t''] None []) [] ''d.t'' = Some resume_sample_item"
  proof -
    have "build_restore_item resume_sample_env restore_sample_cfg ?o (restore_sample_manifest ''MergeTree'')
       (attached_before resume_sample_env ?o [''d.t''] None []) [] ''d.t'' \<noteq> None"
      by (simp add: build_restore_item_def restore_sample_manifest_def view_entry_def wanted_parts_def part_matches_partitions_def
          manifest_table_parts_def restore_sample_opts_def Let_def split: prod.split)
    then show ?thesis unfolding resume_sample_item_def by simp
  qed
  have parts: "ap_parts (it_params resume_sample_item) = map attach_sample_part [''all_1_1_0'', ''all_2_2_0'']" by code_simp
  have eng: "it_engine resume_sample_item = ''MergeTree''" by code_simp
  have "\<not> isl (fst ?run)" by code_simp
  then obtain res s' log resume' where run: "?run = (Inr res, (s', log), resume')" by (metis prod.collapse sum.collapse(2))
  have "\<exists>ps. map fst log = map (attach_sql (it_params resume_sample_item)) ps \<and> attach_sample_part ''all_2_2_0'' \<notin> set ps
       \<and> ar_attached res + ar_skipped res < length (ap_parts (it_params resume_sample_item))"
  proof (rule resume_trusts_live_names [OF _ _ _ _ _ item])
    show "attach_parts_inner (re_schedule resume_sample_env) (logged (re_attach resume_sample_env)) (it_params resume_sample_item)
        (it_engine resume_sample_item) True (([], []), None) = (Inr res, (s', log), resume')"
      using run eng by (simp add: resume_sample_env_def restore_sample_env_def)
    show "destination (ro_remap ?o) ''d.t'' = (''d'', ''t'')" by code_simp
    show "re_system_parts resume_sample_env ''d'' ''t'' [] = Inr [''all_2_2_0'']"
      by (simp add: resume_sample_env_def)
  qed (use parts in \<open>auto simp: attach_sample_part_def resume_sample_env_def restore_sample_env_def\<close>)
  then show ?thesis using run parts by auto
qed

section \<open>ATTACH TABLE mode and remapping\<close>

lemma link_parts_log: "link_parts (logged env) data_path ps (s, l) = (q, s', l') \<Longrightarrow> l' = l"
proof (induction ps arbitrary: s q s' l')
  case (Cons x ps)
  obtain n src where x: "x = (n, src)" by fastforce
  let ?s = "if at_exists (logged env) (path_join data_path n) then s else snd (at_link env src (path_join data_path n) s)"
  obtain q1 s1 l1 where r: "link_parts (logged env) data_path ps (?s, l) = (q1, s1, l1)" by (metis surj_pair)
  then have "l1 = l" by (rule Cons.IH)
  with Cons.prems r x show ?case by (auto split: if_splits option.splits sum.splits prod.splits)
qed simp

lemma logged_execute [simp]:
  "ch_execute (at_ch (logged env)) sql (s, l) =
     (fst (ch_execute (at_ch env) sql s), snd (ch_execute (at_ch env) sql s), l @ [(sql, fst (ch_execute (at_ch env) sql s))])"
  by (simp add: logged_def split: prod.split)

lemma try_attach_log:
  assumes "parse_replicated_params ddl = Some (path, replica)"
    and "fst (ch_execute (at_ch env) (detach_table_sync_sql db table) s) = None"
  shows "prefix [detach_table_sync_sql db table,
                 drop_replica_from_zkpath_sql (resolve_zk_macros replica macros) (resolve_zk_macros path macros)]
           (map fst (snd (snd (try_attach_table_mode (logged env) db table ddl macros plan data_path (s, [])))))"
proof -
  let ?s1 = "snd (ch_execute (at_ch env) (detach_table_sync_sql db table) s)"
  let ?drop = "drop_replica_from_zkpath_sql (resolve_zk_macros replica macros) (resolve_zk_macros path macros)"
  let ?l = "[(detach_table_sync_sql db table, None), (?drop, fst (ch_execute (at_ch env) ?drop ?s1))]"
  obtain q s3 l3 where l: "link_parts (logged env) data_path (cap_sources plan) (snd (ch_execute (at_ch env) ?drop ?s1), ?l) = (q, s3, l3)"
    by (metis surj_pair)
  have l3: "l3 = ?l" by (rule link_parts_log [OF l])
  have "\<exists>more. snd (snd (try_attach_table_mode (logged env) db table ddl macros plan data_path (s, []))) = ?l @ more"
    using assms l [unfolded l3]
    by (cases q) (auto simp: try_attach_table_mode_def drop_replica_from_zkpath_def split: option.split)
  then show ?thesis by auto
qed

text \<open>
  C37. ATTACH TABLE mode drops the replica that the statement of the backup names, whatever table is being
  restored: when a table is restored under another name, that is the replica of the source table, not
  of the table that was created.
\<close>

theorem attach_mode_drops_source_replica:
  assumes "pf_plans pf (it_key it) = Some (plan, n)" and "map_of (bm_tables manifest) (it_key it) = Some tm"
    and "parse_replicated_params (tm_ddl tm) = Some (path, replica)"
    and "fst (ch_execute (at_ch env) (detach_table_sync_sql (ap_db (it_params it)) (ap_table (it_params it))) s) = None"
    and "attach_table_mode (logged env) manifest macros pf [it] (s, []) = (rs, normal, s', log)"
  shows "prefix [detach_table_sync_sql (ap_db (it_params it)) (ap_table (it_params it)),
                 drop_replica_from_zkpath_sql (resolve_zk_macros replica macros) (resolve_zk_macros path macros)] (map fst log)"
proof -
  obtain r s1 l1 where t: "try_attach_table_mode (logged env) (ap_db (it_params it)) (ap_table (it_params it)) (tm_ddl tm) macros plan
      (ap_table_data_path (it_params it)) (s, []) = (r, s1, l1)" by (metis surj_pair)
  have "log = l1" using assms(1,2,5) t by (cases r) auto
  then show ?thesis using try_attach_log [OF assms(3,4), of macros plan "ap_table_data_path (it_params it)"] t by simp
qed

text \<open>
  The table \<^verbatim>\<open>d.t\<close> is restored as \<^verbatim>\<open>d.u\<close>: the table created registers its replica under \<^verbatim>\<open>/new\<close>, the replica
  dropped is the one of the source under \<^verbatim>\<open>/old\<close>.
\<close>

definition remap_sample :: RemapConfig where
  "remap_sample = \<lparr>rc_rename_as = [(''d'', ''t'', ''d'', ''u'')], rc_database_mapping = [], rc_default_replica_path = ''/new/{table}''\<rparr>"

definition remap_sample_pf :: AttachPreflight where
  "remap_sample_pf = plan_attach_completeness attach_sample_env (restore_sample_manifest ''ReplicatedMergeTree'') [''d.t''] ''/b'' ''b'' [] True"

definition remap_sample_item :: restore_item where
  "remap_sample_item = the (build_restore_item restore_sample_env restore_sample_cfg (restore_sample_opts\<lparr>ro_remap := Some remap_sample\<rparr>)
     (restore_sample_manifest ''ReplicatedMergeTree'') (\<lambda>_. {}) [] ''d.t'')"

theorem attach_mode_drops_source_replica_witness:
  "prefix [detach_table_sync_sql ''d'' ''u'', drop_replica_from_zkpath_sql ''r'' ''/old/1'']
     (map fst (snd (snd (snd (attach_table_mode (logged attach_sample_env) (restore_sample_manifest ''ReplicatedMergeTree'')
        [(''shard'', ''1''), (''replica'', ''r'')] remap_sample_pf [remap_sample_item] ([], []))))))
   \<and> statement_replica (zk_opts\<lparr>co_remap := Some remap_sample\<rparr>) ''d.t''
        (the (map_of (bm_tables (restore_sample_manifest ''ReplicatedMergeTree'')) ''d.t'')) = Some (''/new/u'', ''r'')"
proof -
  let ?m = "restore_sample_manifest ''ReplicatedMergeTree''" and ?macros = "[(''shard'', ''1''), (''replica'', ''r'')]"
  obtain rs normal s' log where run: "attach_table_mode (logged attach_sample_env) ?m ?macros remap_sample_pf [remap_sample_item] ([], []) = (rs, normal, s', log)"
    by (metis surj_pair)
  obtain tm where tm: "map_of (bm_tables ?m) ''d.t'' = Some tm" by (simp add: restore_sample_manifest_def)
  have it: "it_key remap_sample_item = ''d.t''" "ap_db (it_params remap_sample_item) = ''d''" "ap_table (it_params remap_sample_item) = ''u''"
    by code_simp+
  have "pf_plans remap_sample_pf ''d.t'' \<noteq> None" by code_simp
  then obtain plan n where pl: "pf_plans remap_sample_pf (it_key remap_sample_item) = Some (plan, n)" unfolding it by auto
  have "parse_replicated_params (tm_ddl (the (map_of (bm_tables ?m) ''d.t''))) = Some (''/old/{shard}'', ''{replica}'')" by code_simp
  then have ps: "parse_replicated_params (tm_ddl tm) = Some (''/old/{shard}'', ''{replica}'')" using tm by simp
  have ok: "fst (ch_execute (at_ch attach_sample_env) (detach_table_sync_sql ''d'' ''u'') []) = None" by code_simp
  have m: "resolve_zk_macros ''/old/{shard}'' ?macros = ''/old/1''" "resolve_zk_macros ''{replica}'' ?macros = ''r''" by code_simp+
  have st: "statement_replica (zk_opts\<lparr>co_remap := Some remap_sample\<rparr>) ''d.t'' (the (map_of (bm_tables ?m) ''d.t'')) = Some (''/new/u'', ''r'')"
    by code_simp
  show ?thesis
    using attach_mode_drops_source_replica [OF pl tm [folded it(1)] ps ok [folded it] run] run st by (simp add: it m)
qed

end
