(* ===== verification/Download.thy ===== *)
theory Download
  imports Upload Collect Resume "HOL-Library.AList"
begin

text \<open>
  Model of \<^verbatim>\<open>src/download/mod.rs\<close> and \<^verbatim>\<open>src/download/stream.rs\<close>: the space check, the resume
  state, the download of every part with the verification of its checksum and the reuse of parts of
  other backups, and the files written at the end.

  The local file system is an association list from paths to files; a directory is what has files under
  it. S3, the tar and compression libraries, serde, statvfs, \<^verbatim>\<open>canonicalize\<close> and the order of
  \<^verbatim>\<open>read_dir\<close> are parameters. A GET may answer differently on each attempt. The temporary archive, the
  rate limit, the waiting between attempts, a cancellation and failures to read a local file are not
  modelled. The tasks run in an
  order the scheduler chooses.
\<close>

section \<open>Definitions\<close>

subsection \<open>Files\<close>

type_synonym fsys = "(string \<times> node) list"

definition under :: "string \<Rightarrow> string \<Rightarrow> bool" where
  "under dir path \<longleftrightarrow> starts_with path (dir @ ''/'')"

definition remove_dir_all :: "string \<Rightarrow> fsys \<Rightarrow> fsys" where
  "remove_dir_all dir fs = filter (\<lambda>(path, _). \<not> under dir path) fs"

definition path_parent :: "string \<Rightarrow> string" where
  "path_parent path = (case rsplitn 2 CHR ''/'' path of [_, parent] \<Rightarrow> parent | _ \<Rightarrow> [])"

text \<open>\<^verbatim>\<open>fs::write\<close> may fail to open the file, or fail after some bytes.\<close>

datatype write_result = Written | NotOpened | Cut nat

record download_env =
  de_uni :: "nat \<Rightarrow> bool"
  de_crc :: "node \<Rightarrow> u64"
  de_canonicalize :: "string list \<Rightarrow> string list option"
  de_exists :: "string \<Rightarrow> bool"
  de_read_dir :: "string \<Rightarrow> string list"
  de_statvfs :: "string \<Rightarrow> (u64 \<times> u64) option"
  de_margin :: "u64 \<Rightarrow> u64"
  de_mkdir_ok :: "string \<Rightarrow> bool"
  de_write :: "string \<Rightarrow> write_result"
  de_link_ok :: "string \<Rightarrow> bool"
  de_remove_ok :: "string \<Rightarrow> bool"
  de_get :: "string \<Rightarrow> nat \<Rightarrow> string + string"
  de_list :: "string \<Rightarrow> string + string list"
  de_unpack :: "string \<Rightarrow> string \<Rightarrow> (string \<times> node) list \<times> string option"
  de_parse_manifest :: "string \<Rightarrow> BackupManifest option"
  de_print_manifest :: "BackupManifest \<Rightarrow> string"
  de_print_table :: "TableManifest \<Rightarrow> string"
  de_print_state :: "DownloadState \<Rightarrow> string"
  de_parse_state :: "string \<Rightarrow> DownloadState option"
  de_schedule :: "DownloadWorkItem list \<Rightarrow> DownloadWorkItem list"

record download_opts =
  do_data_path :: string
  do_prefix :: string
  do_retries :: nat
  do_backup_name :: string
  do_use_resume :: bool
  do_hardlink_exists_files :: bool

datatype download_error =
  ManifestNotFetched string | ManifestUnparsable | InsufficientSpace string | MkdirFailed string | WriteFailed string
| ListFailed string | GetFailed string string | DecompressFailed string string | CrcMismatch string | ChecksumsMissing string

definition write_file :: "download_env \<Rightarrow> string \<Rightarrow> string \<Rightarrow> fsys \<Rightarrow> download_error option \<times> fsys" where
  "write_file env path content fs =
     (case de_write env path of
        Written \<Rightarrow> (None, AList.update path (File content) fs)
      | NotOpened \<Rightarrow> (Some (WriteFailed path), fs)
      | Cut n \<Rightarrow> (Some (WriteFailed path), AList.update path (File (take n content)) fs))"

definition create_and_write :: "download_env \<Rightarrow> string \<Rightarrow> string \<Rightarrow> fsys \<Rightarrow> download_error option \<times> fsys" where
  "create_and_write env path content fs =
     (if \<not> de_mkdir_ok env (path_parent path) then (Some (MkdirFailed (path_parent path)), fs)
      else write_file env path content fs)"

subsection \<open>Paths\<close>

definition sanitize_relative_path :: "string \<Rightarrow> string" where
  "sanitize_relative_path input =
     join_with ''/'' (filter (\<lambda>c. c \<noteq> [] \<and> c \<noteq> ''.'' \<and> c \<noteq> ''..'') (split_on CHR ''/'' input))"

definition download_backup_dir :: "download_opts \<Rightarrow> string" where
  "download_backup_dir opts = path_join (path_join (do_data_path opts) ''backup'') (do_backup_name opts)"

definition resolve_download_target_dir ::
    "download_env \<Rightarrow> string btree_map \<Rightarrow> string \<Rightarrow> string \<Rightarrow> string \<Rightarrow> string" where
  "resolve_download_target_dir env manifest_disks disk_name backup_name backup_dir =
     (case map_of manifest_disks disk_name of
        Some dp \<Rightarrow>
          if de_exists env (trim_end_char CHR ''/'' dp)
          then if \<not> validate_disk_path (de_canonicalize env) dp then backup_dir
               else per_disk_backup_dir (trim_end_char CHR ''/'' dp) backup_name
          else backup_dir
      | None \<Rightarrow> backup_dir)"

definition part_shadow_dir :: "download_env \<Rightarrow> download_opts \<Rightarrow> string btree_map \<Rightarrow> DownloadWorkItem \<Rightarrow> string" where
  "part_shadow_dir env opts disks item =
     path_join (path_join (path_join
       (resolve_download_target_dir env disks (DownloadWorkItem.dw_disk_name item) (do_backup_name opts) (download_backup_dir opts))
       ''shadow'') (encode_component (de_uni env) (dw_db item))) (encode_component (de_uni env) (dw_table item))"

definition part_dir :: "download_env \<Rightarrow> download_opts \<Rightarrow> string btree_map \<Rightarrow> DownloadWorkItem \<Rightarrow> string" where
  "part_dir env opts disks item = path_join (part_shadow_dir env opts disks item) (pi_name (dw_part item))"

subsection \<open>Disk space\<close>

definition check_disk_space :: "download_env \<Rightarrow> string \<Rightarrow> u64 \<Rightarrow> download_error option" where
  "check_disk_space env backup_dir required_bytes =
     (let check_path = (if de_exists env backup_dir then Some backup_dir
                        else if de_exists env (path_parent backup_dir) then Some (path_parent backup_dir) else None)
      in case check_path of
           None \<Rightarrow> None
         | Some path \<Rightarrow>
             (case de_statvfs env path of
                Some (block_size, available_blocks) \<Rightarrow>
                  if de_margin env (sat_mul block_size available_blocks) < required_bytes
                  then Some (InsufficientSpace path) else None
              | None \<Rightarrow> None))"

definition add_size :: "string \<times> u64 \<Rightarrow> (string \<times> u64) list \<Rightarrow> (string \<times> u64) list" where
  "add_size = (\<lambda>(disk, n) acc. AList.update disk ((case map_of acc disk of Some k \<Rightarrow> k | None \<Rightarrow> 0) + n) acc)"

text \<open>The parts on disks that take local space, with their table and disk.\<close>

definition local_disk_parts :: "BackupManifest \<Rightarrow> (string \<times> string \<times> PartInfo list) list" where
  "local_disk_parts m =
     concat (map (\<lambda>(table_key, tm). map (\<lambda>(disk_name, parts). (table_key, disk_name, parts))
       (filter (\<lambda>(disk_name, _). \<not> is_s3_disk (case map_of (bm_disk_types m) disk_name of Some t \<Rightarrow> t | None \<Rightarrow> ''local''))
          (tm_parts tm))) (bm_tables m))"

definition space_by_disk :: "BackupManifest \<Rightarrow> (string \<times> u64) list" where
  "space_by_disk m = fold (\<lambda>(_, disk, parts). add_size (disk, sum_list (map pi_size parts))) (local_disk_parts m) []"

subsection \<open>Parts of other backups\<close>

text \<open>The directories searched: the default one, and that of the disk when it is another one.\<close>

definition search_bases :: "download_env \<Rightarrow> string \<Rightarrow> string btree_map \<Rightarrow> string \<Rightarrow> string list" where
  "search_bases env data_path manifest_disks disk_name =
     (let canonical = (\<lambda>path. case de_canonicalize env (path_components path) of Some c \<Rightarrow> c | None \<Rightarrow> path_components path);
          default_base = path_join data_path ''backup''
      in default_base #
         (case map_of manifest_disks disk_name of
            None \<Rightarrow> []
          | Some disk_path \<Rightarrow>
              (let dp = trim_end_char CHR ''/'' disk_path; per_disk_base = path_join dp ''backup''
               in if validate_disk_path (de_canonicalize env) dp \<and> de_exists env per_disk_base
                     \<and> canonical per_disk_base \<noteq> canonical default_base
                  then [per_disk_base] else [])))"

definition find_existing_part ::
    "download_env \<Rightarrow> string \<Rightarrow> string \<Rightarrow> string \<Rightarrow> string \<Rightarrow> u64 \<Rightarrow> string btree_map \<Rightarrow> string \<Rightarrow> fsys \<Rightarrow> string option" where
  "find_existing_part env data_path current_backup table_key part_name expected_crc manifest_disks disk_name fs =
     (if expected_crc = 0 then None
      else let (db, table) = split_table_key table_key;
          candidates = concat (map (\<lambda>backup_base.
            map (\<lambda>name. path_join (path_join (path_join (path_join (path_join backup_base name) ''shadow'')
                    (encode_component (de_uni env) db)) (encode_component (de_uni env) table)) part_name)
              (filter (\<lambda>name. name \<noteq> current_backup) (de_read_dir env backup_base)))
            (search_bases env data_path manifest_disks disk_name))
      in find (\<lambda>candidate. case map_of fs (path_join candidate ''checksums.txt'') of
                 Some f \<Rightarrow> de_crc env f = expected_crc
               | None \<Rightarrow> False) candidates)"

text \<open>Links every file; a file that is already there is an error.\<close>

fun link_files :: "download_env \<Rightarrow> string \<Rightarrow> string \<Rightarrow> (string \<times> node) list \<Rightarrow> fsys \<Rightarrow> bool \<times> fsys" where
  "link_files env existing target [] fs = (True, fs)"
| "link_files env existing target ((path, n) # rest) fs =
     (if \<not> under existing path then link_files env existing target rest fs
      else let dest = target @ ''/'' @ trim_start_char CHR ''/'' (drop (length existing + 1) path)
      in if \<not> de_link_ok env dest \<or> map_of fs dest \<noteq> None then (False, fs)
         else link_files env existing target rest (AList.update dest n fs))"

definition hardlink_existing_part :: "download_env \<Rightarrow> string \<Rightarrow> string \<Rightarrow> fsys \<Rightarrow> bool \<times> fsys" where
  "hardlink_existing_part env existing target fs = link_files env existing target fs fs"

text \<open>What the reuse of parts saves, per disk.\<close>

definition hardlink_savings :: "download_env \<Rightarrow> download_opts \<Rightarrow> BackupManifest \<Rightarrow> fsys \<Rightarrow> (string \<times> u64) list" where
  "hardlink_savings env opts m fs =
     fold (\<lambda>(table_key, disk_name, parts).
         fold (\<lambda>part. add_size (disk_name, pi_size part))
           (filter (\<lambda>part. pi_checksum_crc64 part \<noteq> 0
              \<and> find_existing_part env (do_data_path opts) (do_backup_name opts) table_key (pi_name part) (pi_checksum_crc64 part)
                  (bm_disks m) disk_name fs \<noteq> None) parts))
       (local_disk_parts m) []"

definition required_space :: "download_env \<Rightarrow> download_opts \<Rightarrow> BackupManifest \<Rightarrow> fsys \<Rightarrow> (string \<times> u64) list" where
  "required_space env opts m fs =
     (if do_hardlink_exists_files opts
      then map (\<lambda>(disk, req). (disk,
             case map_of (hardlink_savings env opts m fs) disk of
               Some saved \<Rightarrow> if saved \<le> req then req - saved else 0
             | None \<Rightarrow> req)) (space_by_disk m)
      else space_by_disk m)"

definition check_dir :: "download_env \<Rightarrow> download_opts \<Rightarrow> BackupManifest \<Rightarrow> string \<Rightarrow> string" where
  "check_dir env opts m disk_name =
     (case map_of (bm_disks m) disk_name of
        Some disk_path \<Rightarrow>
          (let normalized = trim_end_char CHR ''/'' disk_path
           in if validate_disk_path (de_canonicalize env) normalized \<and> de_exists env normalized
              then path_join normalized ''backup'' else path_join (do_data_path opts) ''backup'')
      | None \<Rightarrow> path_join (do_data_path opts) ''backup'')"

text \<open>The directory is created before its file system is asked for space.\<close>

definition space_preflight :: "download_env \<Rightarrow> download_opts \<Rightarrow> BackupManifest \<Rightarrow> fsys \<Rightarrow> download_error option" where
  "space_preflight env opts m fs =
     (case List.map_filter (\<lambda>(disk, required).
             if required = 0 then None
             else (let dir = check_dir env opts m disk;
                       created = env\<lparr>de_exists := \<lambda>path. de_exists env path \<or> path = dir \<and> de_mkdir_ok env dir\<rparr>
                   in check_disk_space created dir required))
             (required_space env opts m fs) of
        [] \<Rightarrow> None
      | e # _ \<Rightarrow> Some e)"

subsection \<open>Object-disk parts\<close>

definition metadata_relative_name :: "string \<Rightarrow> string \<Rightarrow> string \<Rightarrow> string" where
  "metadata_relative_name client_prefix metadata_prefix key =
     (let k = trim_start_char CHR ''/'' (case strip_prefix client_prefix key of Some r \<Rightarrow> r | None \<Rightarrow> key)
      in trim_start_char CHR ''/'' (case strip_prefix metadata_prefix k of Some r \<Rightarrow> r | None \<Rightarrow> key))"

fun fetch_metadata :: "download_env \<Rightarrow> string \<Rightarrow> string \<Rightarrow> string \<Rightarrow> string list \<Rightarrow> fsys \<Rightarrow> (download_error + nat) \<times> fsys" where
  "fetch_metadata env client_prefix metadata_prefix shadow_dir [] fs = (Inr 0, fs)"
| "fetch_metadata env client_prefix metadata_prefix shadow_dir (key # keys) fs =
     (let relative_name = metadata_relative_name client_prefix metadata_prefix key;
          get_key = trim_end_char CHR ''/'' metadata_prefix @ ''/'' @ relative_name
      in if relative_name = [] then fetch_metadata env client_prefix metadata_prefix shadow_dir keys fs
         else case de_get env get_key 0 of
           Inl e \<Rightarrow> (Inl (GetFailed get_key e), fs)
         | Inr data \<Rightarrow>
             (let safe_path = sanitize_relative_path relative_name
              in case (if safe_path = [] then (None, fs) else create_and_write env (path_join shadow_dir safe_path) data fs) of
                   (Some e, fs1) \<Rightarrow> (Inl e, fs1)
                 | (None, fs1) \<Rightarrow>
                     (case fetch_metadata env client_prefix metadata_prefix shadow_dir keys fs1 of
                        (Inr n, fs2) \<Rightarrow> (Inr (length data + n), fs2)
                      | (Inl e, fs2) \<Rightarrow> (Inl e, fs2))))"

definition download_s3_disk_part ::
    "download_env \<Rightarrow> download_opts \<Rightarrow> string btree_map \<Rightarrow> DownloadWorkItem \<Rightarrow> fsys \<Rightarrow> (download_error + nat) \<times> fsys" where
  "download_s3_disk_part env opts disks item fs =
     (let metadata_prefix = pi_backup_key (dw_part item); dir = part_dir env opts disks item
      in case de_list env metadata_prefix of
           Inl e \<Rightarrow> (Inl (ListFailed metadata_prefix), fs)
         | Inr keys \<Rightarrow>
             if \<not> de_mkdir_ok env dir then (Inl (MkdirFailed dir), fs)
             else fetch_metadata env (do_prefix opts) metadata_prefix dir keys fs)"

subsection \<open>Local parts\<close>

definition unpack_into :: "string \<Rightarrow> (string \<times> node) list \<Rightarrow> fsys \<Rightarrow> fsys" where
  "unpack_into dir entries fs = fold (\<lambda>(rel, n). AList.update (path_join dir rel) n) entries fs"

definition decompress_part_file :: "download_env \<Rightarrow> string \<Rightarrow> string \<Rightarrow> string \<Rightarrow> fsys \<Rightarrow> string option \<times> fsys" where
  "decompress_part_file env archive output_dir data_format fs =
     (if data_format \<in> {''lz4'', ''zstd'', ''gzip'', ''none''}
      then (case de_unpack env data_format archive of (entries, e) \<Rightarrow> (e, unpack_into output_dir entries fs))
      else (Some ''Unknown compression format'', fs))"

text \<open>The attempts that are left, the number of the next one and the error of the last one.\<close>

fun download_attempts ::
    "download_env \<Rightarrow> string \<Rightarrow> string \<Rightarrow> PartInfo \<Rightarrow> nat \<Rightarrow> nat \<Rightarrow> download_error \<Rightarrow> fsys \<Rightarrow> (download_error + nat) \<times> fsys" where
  "download_attempts env data_format shadow_dir part 0 attempt last_error fs = (Inl last_error, fs)"
| "download_attempts env data_format shadow_dir part (Suc left) attempt last_error fs =
     (let expected_crc = pi_checksum_crc64 part;
          corrupt_dir = path_join shadow_dir (pi_name part);
          again = (\<lambda>e fs. download_attempts env data_format shadow_dir part left (attempt + 1) e
                     (if de_remove_ok env corrupt_dir then remove_dir_all corrupt_dir fs else fs))
      in case de_get env (pi_backup_key part) attempt of
           Inl e \<Rightarrow> (Inl (GetFailed (pi_backup_key part) e), fs)
         | Inr archive \<Rightarrow>
             (case decompress_part_file env archive shadow_dir data_format fs of
                (Some e, fs1) \<Rightarrow> (Inl (DecompressFailed (pi_name part) e), fs1)
              | (None, fs1) \<Rightarrow>
                  if expected_crc = 0 then (Inr (length archive), fs1)
                  else case map_of fs1 (path_join corrupt_dir ''checksums.txt'') of
                    Some f \<Rightarrow>
                      if de_crc env f = expected_crc then (Inr (length archive), fs1) else again (CrcMismatch (pi_name part)) fs1
                  | None \<Rightarrow> again (ChecksumsMissing (pi_name part)) fs1))"

definition download_local_part ::
    "download_env \<Rightarrow> download_opts \<Rightarrow> BackupManifest \<Rightarrow> DownloadWorkItem \<Rightarrow> fsys \<Rightarrow> (download_error + nat) \<times> fsys" where
  "download_local_part env opts m item fs =
     (let part = dw_part item; shadow_dir = part_shadow_dir env opts (bm_disks m) item;
          max_attempts = (if pi_checksum_crc64 part \<noteq> 0 then do_retries opts + 1 else 1);
          fetch = download_attempts env (bm_data_format m) shadow_dir part max_attempts 0 (CrcMismatch (pi_name part))
      in if \<not> de_mkdir_ok env shadow_dir then (Inl (MkdirFailed shadow_dir), fs)
         else if do_hardlink_exists_files opts
         then (case find_existing_part env (do_data_path opts) (do_backup_name opts) (dw_table_key item) (pi_name part)
                      (pi_checksum_crc64 part) (bm_disks m) (DownloadWorkItem.dw_disk_name item) fs of
                 None \<Rightarrow> fetch fs
               | Some existing \<Rightarrow>
                   (case hardlink_existing_part env existing (part_dir env opts (bm_disks m) item) fs of
                      (True, fs1) \<Rightarrow> (Inr 0, fs1)
                    | (False, fs1) \<Rightarrow> fetch fs1))
         else fetch fs)"

subsection \<open>The resume state\<close>

definition download_state_path :: "download_opts \<Rightarrow> string" where
  "download_state_path opts = path_join (download_backup_dir opts) ''download.state.json''"

definition save_download_state :: "download_env \<Rightarrow> string \<Rightarrow> DownloadState \<Rightarrow> fsys \<Rightarrow> fsys" where
  "save_download_state env path st fs =
     (if de_write env path = Written then AList.update path (File (de_print_state env st)) fs else fs)"

definition load_completed_keys :: "download_env \<Rightarrow> download_opts \<Rightarrow> fsys \<Rightarrow> string set" where
  "load_completed_keys env opts fs =
     (if do_use_resume opts
      then (case map_of fs (download_state_path opts) of
              Some (File json) \<Rightarrow>
                (case de_parse_state env json of
                   Some st \<Rightarrow>
                     if ds_params_hash st \<noteq> compute_params_hash [do_backup_name opts] then {}
                     else if ds_backup_name st \<noteq> do_backup_name opts then {}
                     else ds_completed_keys st
                 | None \<Rightarrow> {})
            | _ \<Rightarrow> {})
      else {})"

definition download_state :: "download_opts \<Rightarrow> BackupManifest \<Rightarrow> string set \<Rightarrow> DownloadState" where
  "download_state opts m completed =
     \<lparr>ds_completed_keys = completed, ds_backup_name = do_backup_name opts,
      ds_params_hash = compute_params_hash [do_backup_name opts], ds_disk_map = bm_disks m\<rparr>"

definition save_disk_map :: "download_env \<Rightarrow> download_opts \<Rightarrow> BackupManifest \<Rightarrow> fsys \<Rightarrow> fsys" where
  "save_disk_map env opts m fs =
     (if bm_disks m \<noteq> [] then save_download_state env (download_state_path opts) (download_state opts m {}) fs else fs)"

definition record_completed ::
    "download_env \<Rightarrow> string \<Rightarrow> string \<Rightarrow> fsys \<times> DownloadState option \<Rightarrow> fsys \<times> DownloadState option" where
  "record_completed env path key = (\<lambda>(fs, resume).
     case resume of
       None \<Rightarrow> (fs, None)
     | Some st \<Rightarrow>
         (let st' = st\<lparr>ds_completed_keys := insert key (ds_completed_keys st)\<rparr>
          in (save_download_state env path st' fs, Some st')))"

subsection \<open>All parts\<close>

definition download_part ::
    "download_env \<Rightarrow> download_opts \<Rightarrow> BackupManifest \<Rightarrow> DownloadWorkItem \<Rightarrow> fsys \<times> DownloadState option
       \<Rightarrow> (download_error + nat) \<times> fsys \<times> DownloadState option" where
  "download_part env opts m item = (\<lambda>(fs, resume).
     case (if dw_is_s3_disk_part item then download_s3_disk_part env opts (bm_disks m) item fs
           else download_local_part env opts m item fs) of
       (Inl e, fs1) \<Rightarrow> (Inl e, fs1, resume)
     | (Inr n, fs1) \<Rightarrow>
         (Inr n, record_completed env (download_state_path opts) (pi_backup_key (dw_part item)) (fs1, resume)))"

text \<open>Tasks one after the other, each with its result.\<close>

fun run_each :: "('i \<Rightarrow> 's \<Rightarrow> 'r \<times> 's) \<Rightarrow> 'i list \<Rightarrow> 's \<Rightarrow> ('i \<times> 'r) list \<times> 's" where
  "run_each task [] st = ([], st)"
| "run_each task (item # rest) st =
     (case task item st of (r, st1) \<Rightarrow> (case run_each task rest st1 of (rs, st2) \<Rightarrow> ((item, r) # rs, st2)))"

text \<open>All tasks run to their end; the first failure in the order of the work list is reported.\<close>

definition download_parts ::
    "download_env \<Rightarrow> download_opts \<Rightarrow> BackupManifest \<Rightarrow> DownloadWorkItem list \<Rightarrow> fsys \<times> DownloadState option
       \<Rightarrow> download_error option \<times> fsys" where
  "download_parts env opts m items st =
     (case run_each (download_part env opts m) (de_schedule env items) st of
        (rs, fs, _) \<Rightarrow>
          (case List.map_filter (\<lambda>(_, r). case r of Inl e \<Rightarrow> Some e | Inr _ \<Rightarrow> None)
                  (concat (map (\<lambda>item. filter (\<lambda>x. fst x = item) rs) items)) of
             [] \<Rightarrow> (None, fs)
           | e # _ \<Rightarrow> (Some e, fs)))"

subsection \<open>The other files\<close>

fun get_with_retries :: "download_env \<Rightarrow> string \<Rightarrow> nat \<Rightarrow> nat \<Rightarrow> string + string" where
  "get_with_retries env key 0 attempt = de_get env key attempt"
| "get_with_retries env key (Suc left) attempt =
     (case de_get env key attempt of Inr data \<Rightarrow> Inr data | Inl _ \<Rightarrow> get_with_retries env key left (attempt + 1))"

definition client_prefix_slash :: "string \<Rightarrow> string" where
  "client_prefix_slash client_prefix =
     (if client_prefix = [] then [] else if ends_with client_prefix ''/'' then client_prefix else client_prefix @ ''/'')"

fun fetch_directory :: "download_env \<Rightarrow> download_opts \<Rightarrow> string \<Rightarrow> string \<Rightarrow> string list \<Rightarrow> fsys \<Rightarrow> download_error option \<times> fsys" where
  "fetch_directory env opts s3_prefix target_dir [] fs = (None, fs)"
| "fetch_directory env opts s3_prefix target_dir (key # keys) fs =
     (let cp = client_prefix_slash (do_prefix opts);
          relative_key = (if cp \<noteq> [] then (case strip_prefix cp key of Some r \<Rightarrow> r | None \<Rightarrow> key) else key)
      in case get_with_retries env relative_key (do_retries opts) 0 of
           Inl e \<Rightarrow> (Some (GetFailed key e), fs)
         | Inr data \<Rightarrow>
             (let rel = (case strip_prefix (cp @ s3_prefix) key of Some r \<Rightarrow> r | None \<Rightarrow> key);
                  safe_rel = sanitize_relative_path rel
              in case (if safe_rel = [] then (Some (WriteFailed target_dir), fs)
                       else create_and_write env (path_join target_dir safe_rel) data fs) of
                   (Some e, fs1) \<Rightarrow> (Some e, fs1)
                 | (None, fs1) \<Rightarrow> fetch_directory env opts s3_prefix target_dir keys fs1))"

definition download_simple_directory :: "download_env \<Rightarrow> download_opts \<Rightarrow> string \<Rightarrow> fsys \<Rightarrow> download_error option \<times> fsys" where
  "download_simple_directory env opts name fs =
     (let s3_prefix = do_backup_name opts @ ''/'' @ name @ ''/''; target_dir = path_join (download_backup_dir opts) name
      in case de_list env s3_prefix of
           Inl e \<Rightarrow> (Some (ListFailed s3_prefix), fs)
         | Inr keys \<Rightarrow>
             if keys = [] then (None, fs)
             else if \<not> de_mkdir_ok env target_dir then (Some (MkdirFailed target_dir), fs)
             else fetch_directory env opts s3_prefix target_dir keys fs)"

definition table_metadata_path :: "download_env \<Rightarrow> string \<Rightarrow> string \<Rightarrow> string" where
  "table_metadata_path env backup_dir table_key =
     (let (db, table) = split_table_key table_key
      in path_join (path_join (path_join backup_dir ''metadata'') (encode_component (de_uni env) db))
           (encode_component (de_uni env) table @ ''.json''))"

fun save_tables :: "download_env \<Rightarrow> string \<Rightarrow> (string \<times> TableManifest) list \<Rightarrow> fsys \<Rightarrow> download_error option \<times> fsys" where
  "save_tables env backup_dir [] fs = (None, fs)"
| "save_tables env backup_dir ((table_key, tm) # rest) fs =
     (let metadata_dir = path_join (path_join backup_dir ''metadata'') (encode_component (de_uni env) (fst (split_table_key table_key)))
      in if \<not> de_mkdir_ok env metadata_dir then (Some (MkdirFailed metadata_dir), fs)
         else case write_file env (table_metadata_path env backup_dir table_key) (de_print_table env tm) fs of
           (Some e, fs1) \<Rightarrow> (Some e, fs1)
         | (None, fs1) \<Rightarrow> save_tables env backup_dir rest fs1)"

definition manifest_path :: "download_opts \<Rightarrow> string" where
  "manifest_path opts = path_join (download_backup_dir opts) ''metadata.json''"

definition bind_io :: "download_error option \<times> fsys \<Rightarrow> (fsys \<Rightarrow> download_error option \<times> fsys) \<Rightarrow> download_error option \<times> fsys" where
  "bind_io r f = (case r of (Some e, fs) \<Rightarrow> (Some e, fs) | (None, fs) \<Rightarrow> f fs)"

text \<open>The directories beside the parts, the metadata of the tables, and the manifest last.\<close>

definition finish_download :: "download_env \<Rightarrow> download_opts \<Rightarrow> BackupManifest \<Rightarrow> fsys \<Rightarrow> download_error option \<times> fsys" where
  "finish_download env opts m fs =
     bind_io (bind_io (bind_io (bind_io
       (if bm_rbac m \<noteq> None then download_simple_directory env opts ''access'' fs else (None, fs))
       (download_simple_directory env opts ''configs''))
       (save_tables env (download_backup_dir opts) (bm_tables m)))
       (create_and_write env (manifest_path opts) (de_print_manifest env m)))
       (\<lambda>fs. (None, if do_use_resume opts \<and> de_remove_ok env (download_state_path opts)
                    then AList.delete (download_state_path opts) fs else fs))"

definition download_manifest :: "download_env \<Rightarrow> download_opts \<Rightarrow> BackupManifest \<Rightarrow> fsys \<Rightarrow> download_error option \<times> fsys" where
  "download_manifest env opts m fs =
     (case space_preflight env opts m fs of
        Some e \<Rightarrow> (Some e, fs)
      | None \<Rightarrow>
          if \<not> de_mkdir_ok env (download_backup_dir opts) then (Some (MkdirFailed (download_backup_dir opts)), fs)
          else
            (let completed = load_completed_keys env opts fs;
                 fs1 = save_disk_map env opts m fs;
                 resume = (if do_use_resume opts then Some (download_state opts m completed) else None)
             in bind_io (download_parts env opts m (plan_download completed m) (fs1, resume)) (finish_download env opts m)))"

definition download :: "download_env \<Rightarrow> download_opts \<Rightarrow> fsys \<Rightarrow> (download_error + string) \<times> fsys" where
  "download env opts fs =
     (case de_get env (do_backup_name opts @ ''/metadata.json'') 0 of
        Inl e \<Rightarrow> (Inl (ManifestNotFetched e), fs)
      | Inr bytes \<Rightarrow>
          (case de_parse_manifest env bytes of
             None \<Rightarrow> (Inl ManifestUnparsable, fs)
           | Some m \<Rightarrow>
               (case download_manifest env opts m fs of
                  (Some e, fs') \<Rightarrow> (Inl e, fs')
                | (None, fs') \<Rightarrow> (Inr (download_backup_dir opts), fs'))))"

section \<open>Independent tasks\<close>

text \<open>
  Tasks that each write only what they own: what every one of them achieves still holds when all have
  run, in whatever order.
\<close>

locale independent_tasks =
  fixes task :: "'i \<Rightarrow> 's \<Rightarrow> 'r \<times> 's"
    and look :: "'s \<Rightarrow> 'p \<Rightarrow> 'v"
    and owns :: "'i \<Rightarrow> 'p \<Rightarrow> bool"
    and valid :: "'i \<Rightarrow> bool"
    and succeeded :: "'r \<Rightarrow> bool"
    and good :: "'i \<Rightarrow> ('p \<Rightarrow> 'v) \<Rightarrow> bool"
  assumes frame: "valid i \<Longrightarrow> task i s = (r, s') \<Longrightarrow> \<not> owns i p \<Longrightarrow> look s' p = look s p"
    and achieves: "valid i \<Longrightarrow> task i s = (r, s') \<Longrightarrow> succeeded r \<Longrightarrow> good i (look s')"
    and good_local: "valid i \<Longrightarrow> good i f \<Longrightarrow> (\<And>p. owns i p \<Longrightarrow> f p = g p) \<Longrightarrow> good i g"
begin

lemma run_each_frame:
  "run_each task items s = (rs, s') \<Longrightarrow> \<forall>i\<in>set items. valid i \<and> \<not> owns i p \<Longrightarrow> look s' p = look s p"
  by (induction items arbitrary: s rs) (auto split: prod.splits dest: frame)

lemma run_each_items: "run_each task items s = (rs, s') \<Longrightarrow> map fst rs = items"
  by (induction items arbitrary: s rs) (auto split: prod.splits)

lemma run_each_good:
  "run_each task items s = (rs, s') \<Longrightarrow> \<forall>i\<in>set items. valid i \<Longrightarrow> distinct items \<Longrightarrow>
   \<forall>i\<in>set items. \<forall>j\<in>set items. i \<noteq> j \<longrightarrow> (\<forall>p. \<not> (owns i p \<and> owns j p)) \<Longrightarrow>
   \<forall>(i, r)\<in>set rs. succeeded r \<Longrightarrow> i \<in> set items \<Longrightarrow> good i (look s')"
proof (induction items arbitrary: s rs)
  case (Cons j items)
  obtain r s1 where t: "task j s = (r, s1)" by (metis surj_pair)
  obtain rs1 where run: "run_each task items s1 = (rs1, s')" and rs: "rs = (j, r) # rs1"
    using Cons.prems(1) t by (auto split: prod.splits)
  show ?case
  proof (cases "i = j")
    case True
    have "good j (look s1)" using achieves[OF _ t] Cons.prems(2,5) rs by auto
    moreover have "look s1 p = look s' p" if "owns j p" for p
      using run_each_frame[OF run, of p] Cons.prems(2-4) that by (metis distinct.simps(2) list.set_intros(1,2))
    ultimately show ?thesis using True good_local Cons.prems(2) by (metis list.set_intros(1))
  next
    case False
    then show ?thesis using Cons.IH[OF run] Cons.prems rs by auto
  qed
qed simp

end

section \<open>What a task writes\<close>

definition part_ok :: "download_env \<Rightarrow> BackupManifest \<Rightarrow> DownloadWorkItem \<Rightarrow> bool" where
  "part_ok env m item \<longleftrightarrow> pi_name (dw_part item) \<noteq> [] \<and> CHR ''/'' \<notin> set (pi_name (dw_part item))
     \<and> (\<forall>attempt archive. de_get env (pi_backup_key (dw_part item)) attempt = Inr archive \<longrightarrow>
          list_all (\<lambda>(rel, _). starts_with rel (pi_name (dw_part item) @ ''/'')) (fst (de_unpack env (bm_data_format m) archive)))"

definition changes_only :: "(string \<Rightarrow> bool) \<Rightarrow> fsys \<Rightarrow> fsys \<Rightarrow> bool" where
  "changes_only owned fs fs' \<longleftrightarrow> (\<forall>p. \<not> owned p \<longrightarrow> map_of fs' p = map_of fs p)"

lemma changes_only_refl [simp]: "changes_only owned fs fs"
  by (simp add: changes_only_def)

lemma changes_only_trans: "changes_only owned fs fs1 \<Longrightarrow> changes_only owned fs1 fs2 \<Longrightarrow> changes_only owned fs fs2"
  by (simp add: changes_only_def)

lemma changes_only_update: "owned p \<Longrightarrow> changes_only owned fs (AList.update p n fs)"
  by (auto simp: changes_only_def update_conv')

lemma map_of_remove_dir_all: "map_of (remove_dir_all dir fs) p = (if under dir p then None else map_of fs p)"
  by (induction fs) (auto simp: remove_dir_all_def)

lemma changes_only_remove: "changes_only (under dir) fs (remove_dir_all dir fs)"
  by (simp add: changes_only_def map_of_remove_dir_all)

lemma write_file_changes: "owned p \<Longrightarrow> write_file env p c fs = (r, fs') \<Longrightarrow> changes_only owned fs fs'"
  by (auto simp: write_file_def changes_only_update split: write_result.splits)

lemma create_and_write_changes: "owned p \<Longrightarrow> create_and_write env p c fs = (r, fs') \<Longrightarrow> changes_only owned fs fs'"
  by (auto simp: create_and_write_def write_file_changes split: if_splits)

lemma path_join_rel: "b \<noteq> [] \<Longrightarrow> \<not> starts_with b ''/'' \<Longrightarrow> path_join a (b @ c) = path_join a b @ c"
  by (cases b) (auto simp: path_join_def)

lemma slash_suffix: "ends_with x ''/'' \<longleftrightarrow> x \<noteq> [] \<and> last x = CHR ''/''"
  by (metis append_butlast_last_id append_is_Nil_conv last_snoc list.distinct(1) suffix_def)

lemma path_join_name:
  assumes "b \<noteq> []" and "CHR ''/'' \<notin> set b"
  shows "path_join a (b @ ''/'' @ c) = path_join a b @ ''/'' @ c"
    and "c \<noteq> [] \<Longrightarrow> \<not> starts_with c ''/'' \<Longrightarrow> path_join (path_join a b) c = path_join a b @ ''/'' @ c"
proof -
  have b: "\<not> starts_with b ''/''" "last b \<noteq> CHR ''/''" using assms last_in_set[OF assms(1)] by (cases b; auto)+
  show "path_join a (b @ ''/'' @ c) = path_join a b @ ''/'' @ c" using path_join_rel[OF assms(1) b(1)] .
  have "path_join a b \<noteq> []" "last (path_join a b) = last b" using assms(1) by (auto simp: path_join_def)
  then have "path_join a b \<noteq> [] \<and> \<not> ends_with (path_join a b) ''/''" using b(2) by (simp add: slash_suffix)
  then show "c \<noteq> [] \<Longrightarrow> \<not> starts_with c ''/'' \<Longrightarrow> path_join (path_join a b) c = path_join a b @ ''/'' @ c"
    by (simp add: path_join_def)
qed

lemma split_on_parts: "x \<in> set (split_on c s) \<Longrightarrow> c \<notin> set x"
  by (induction c s arbitrary: x rule: split_on.induct) (auto split: if_splits list.splits)

lemma sanitize_relative: "\<not> starts_with (sanitize_relative_path input) ''/''"
proof -
  have "\<not> starts_with (join_with ''/'' (filter (\<lambda>c. c \<noteq> [] \<and> c \<noteq> ''.'' \<and> c \<noteq> ''..'') cs)) ''/''"
    if "\<forall>c\<in>set cs. CHR ''/'' \<notin> set c" for cs
  proof (cases "filter (\<lambda>c. c \<noteq> [] \<and> c \<noteq> ''.'' \<and> c \<noteq> ''..'') cs")
    case (Cons c rest)
    then have "c \<in> set (filter (\<lambda>c. c \<noteq> [] \<and> c \<noteq> ''.'' \<and> c \<noteq> ''..'') cs)" by simp
    then have c: "c \<in> set cs" "c \<noteq> []" by simp_all
    obtain x y where xy: "c = x # y" using c(2) by (cases c) auto
    then have "x \<noteq> CHR ''/''" using that c(1) by fastforce
    then show ?thesis unfolding Cons xy by (cases rest) simp_all
  qed simp
  then show ?thesis unfolding sanitize_relative_path_def using split_on_parts by blast
qed

lemma fetch_metadata_changes:
  assumes "pi_name part \<noteq> []" and "CHR ''/'' \<notin> set (pi_name part)"
  shows "fetch_metadata env cp mp (path_join d (pi_name part)) keys fs = (r, fs') \<Longrightarrow>
    changes_only (under (path_join d (pi_name part))) fs fs'"
proof (induction keys arbitrary: fs r)
  case (Cons key keys)
  let ?dir = "path_join d (pi_name part)" and ?rel = "metadata_relative_name cp mp key"
  have u: "under ?dir (path_join ?dir (sanitize_relative_path ?rel))" if "sanitize_relative_path ?rel \<noteq> []"
    using path_join_name(2)[OF assms that sanitize_relative, of d] by (simp add: under_def)
  show ?case
  proof (cases "?rel = []")
    case False
    then show ?thesis
      using Cons create_and_write_changes[where owned = "under ?dir", OF u]
      by (auto simp: Let_def split: sum.splits prod.splits option.splits if_splits) (meson changes_only_trans)+
  qed (use Cons in \<open>simp add: Let_def\<close>)
qed simp

lemma map_of_unpack:
  "map_of (unpack_into dir entries fs) p =
     (case map_of (rev (map (\<lambda>(rel, n). (path_join dir rel, n)) entries)) p of Some n \<Rightarrow> Some n | None \<Rightarrow> map_of fs p)"
  by (induction entries arbitrary: fs)
    (auto simp: unpack_into_def update_conv' map_add_def split: option.splits)

lemma unpack_changes:
  assumes "name \<noteq> []" and "CHR ''/'' \<notin> set name" and "list_all (\<lambda>(rel, _). starts_with rel (name @ ''/'')) entries"
  shows "changes_only (under (path_join dir name)) fs (unpack_into dir entries fs)"
  using assms(3)
proof (induction entries arbitrary: fs)
  case (Cons e entries)
  obtain rel n where e: "e = (rel, n)" by (metis surj_pair)
  then obtain c where "rel = name @ ''/'' @ c" using Cons.prems by (auto simp: prefix_def)
  then have "under (path_join dir name) (path_join dir rel)"
    using path_join_name(1)[OF assms(1,2), of dir c] by (simp add: under_def)
  then have "changes_only (under (path_join dir name)) fs (AList.update (path_join dir rel) n fs)"
    by (rule changes_only_update)
  then show ?case using Cons e by (auto simp: unpack_into_def intro: changes_only_trans)
qed (simp add: unpack_into_def)

lemma download_attempts_changes:
  assumes "pi_name part \<noteq> []" and "CHR ''/'' \<notin> set (pi_name part)"
    and "\<forall>attempt archive. de_get env (pi_backup_key part) attempt = Inr archive \<longrightarrow>
          list_all (\<lambda>(rel, _). starts_with rel (pi_name part @ ''/'')) (fst (de_unpack env fmt archive))"
  shows "download_attempts env fmt dir part left attempt e0 fs = (r, fs') \<Longrightarrow>
     changes_only (under (path_join dir (pi_name part))) fs fs'"
proof (induction left arbitrary: attempt e0 fs)
  case (Suc left)
  let ?only = "changes_only (under (path_join dir (pi_name part)))"
  show ?case
  proof (cases "de_get env (pi_backup_key part) attempt")
    case (Inr archive)
    obtain e fs1 where d: "decompress_part_file env archive dir fmt fs = (e, fs1)" by (metis surj_pair)
    have "list_all (\<lambda>(rel, _). starts_with rel (pi_name part @ ''/'')) (fst (de_unpack env fmt archive))" using assms(3) Inr by blast
    then have "?only fs (unpack_into dir (fst (de_unpack env fmt archive)) fs)" by (rule unpack_changes[OF assms(1,2)])
    then have fs1: "?only fs fs1"
      using d unfolding decompress_part_file_def by (auto simp only: case_prod_beta prod.inject changes_only_refl split: if_splits)
    have "?only fs1 fs2" if "fs2 = (if ok then remove_dir_all (path_join dir (pi_name part)) fs1 else fs1)" for fs2 ok
      using that changes_only_remove by simp
    then have again: "?only fs1 fs'" if "download_attempts env fmt dir part left (attempt + 1) e'
        (if ok then remove_dir_all (path_join dir (pi_name part)) fs1 else fs1) = (r, fs')" for e' ok
      using Suc.IH[OF that] changes_only_trans by blast
    show ?thesis
      using Suc.prems Inr d fs1 again changes_only_trans[OF fs1]
      by (auto simp: Let_def split: option.splits if_splits)
  qed (use Suc.prems in simp)
qed simp

lemma link_files_changes: "link_files env existing target files fs = (ok, fs') \<Longrightarrow> changes_only (under target) fs fs'"
proof (induction files arbitrary: fs)
  case (Cons f files)
  obtain path n where f: "f = (path, n)" by (metis surj_pair)
  let ?dest = "target @ ''/'' @ trim_start_char CHR ''/'' (drop (length existing + 1) path)"
  have "under target ?dest" by (simp add: under_def)
  then have "changes_only (under target) fs (AList.update ?dest n fs)" by (rule changes_only_update)
  then show ?case using Cons f by (auto simp: Let_def split: if_splits intro: changes_only_trans)
qed simp

lemma download_local_partE:
  assumes "download_local_part env opts m item fs = (r, fs')"
  obtains (refused) e where "r = Inl e" and "fs' = fs"
  | (linked) existing where "do_hardlink_exists_files opts"
      and "find_existing_part env (do_data_path opts) (do_backup_name opts) (dw_table_key item) (pi_name (dw_part item))
             (pi_checksum_crc64 (dw_part item)) (bm_disks m) (DownloadWorkItem.dw_disk_name item) fs = Some existing"
      and "link_files env existing (part_dir env opts (bm_disks m) item) fs fs = (True, fs')" and "r = Inr 0"
  | (fetched) fs0 where "changes_only (under (part_dir env opts (bm_disks m) item)) fs fs0"
      and "\<not> do_hardlink_exists_files opts \<Longrightarrow> fs0 = fs"
      and "download_attempts env (bm_data_format m) (part_shadow_dir env opts (bm_disks m) item) (dw_part item)
             (if pi_checksum_crc64 (dw_part item) \<noteq> 0 then do_retries opts + 1 else 1) 0 (CrcMismatch (pi_name (dw_part item))) fs0 = (r, fs')"
proof -
  let ?found = "find_existing_part env (do_data_path opts) (do_backup_name opts) (dw_table_key item) (pi_name (dw_part item))
             (pi_checksum_crc64 (dw_part item)) (bm_disks m) (DownloadWorkItem.dw_disk_name item) fs"
  consider (m) "\<not> de_mkdir_ok env (part_shadow_dir env opts (bm_disks m) item)"
    | (h) existing where "de_mkdir_ok env (part_shadow_dir env opts (bm_disks m) item)" "do_hardlink_exists_files opts" "?found = Some existing"
    | (f) "de_mkdir_ok env (part_shadow_dir env opts (bm_disks m) item)" "\<not> do_hardlink_exists_files opts \<or> ?found = None"
    by (cases ?found) auto
  then show thesis
  proof cases
    case m
    then show ?thesis using assms by (intro refused) (auto simp: download_local_part_def Let_def)
  next
    case h
    obtain ok fs1 where l: "link_files env existing (part_dir env opts (bm_disks m) item) fs fs = (ok, fs1)" by (metis surj_pair)
    show ?thesis
    proof (cases ok)
      case True
      then show ?thesis
        using assms h l unfolding download_local_part_def hardlink_existing_part_def Let_def by (intro linked[of existing]) simp_all
    next
      case False
      then show ?thesis
        using assms h l link_files_changes[OF l] unfolding download_local_part_def hardlink_existing_part_def Let_def
        by (intro fetched[of fs1]) simp_all
    qed
  next
    case f
    then show ?thesis
      using assms unfolding download_local_part_def Let_def by (intro fetched[of fs]) (auto split: if_splits)
  qed
qed

lemma fetch_part_changes:
  assumes "part_ok env m item"
    and run: "(if dw_is_s3_disk_part item then download_s3_disk_part env opts (bm_disks m) item fs
           else download_local_part env opts m item fs) = (r1, fs1)"
  shows "changes_only (under (part_dir env opts (bm_disks m) item)) fs fs1"
proof (cases "dw_is_s3_disk_part item")
  case True
  then show ?thesis
    using run fetch_metadata_changes[of "dw_part item"] assms(1)[unfolded part_ok_def]
    by (auto simp: download_s3_disk_part_def part_dir_def Let_def split: sum.splits if_splits)
next
  case False
  then have "download_local_part env opts m item fs = (r1, fs1)" using run by simp
  then show ?thesis
  proof (cases rule: download_local_partE)
    case (fetched fs0)
    then have "changes_only (under (part_dir env opts (bm_disks m) item)) fs0 fs1"
      using download_attempts_changes[OF _ _ _ fetched(3)] assms(1)[unfolded part_ok_def] by (simp add: part_dir_def)
    then show ?thesis using fetched(1) changes_only_trans by blast
  qed (use link_files_changes in auto)
qed

lemma download_part_changes:
  assumes "part_ok env m item" and "download_part env opts m item (fs, resume) = (r, fs', resume')"
  shows "changes_only (\<lambda>p. under (part_dir env opts (bm_disks m) item) p \<or> p = download_state_path opts) fs fs'"
    and "resume = None \<Longrightarrow> changes_only (under (part_dir env opts (bm_disks m) item)) fs fs' \<and> resume' = None"
proof -
  obtain r1 fs1 where run: "(if dw_is_s3_disk_part item then download_s3_disk_part env opts (bm_disks m) item fs
           else download_local_part env opts m item fs) = (r1, fs1)" by (metis surj_pair)
  note c = fetch_part_changes[OF assms(1) run]
  show "changes_only (\<lambda>p. under (part_dir env opts (bm_disks m) item) p \<or> p = download_state_path opts) fs fs'"
    using assms(2) run c
    by (auto simp: download_part_def record_completed_def save_download_state_def changes_only_def update_conv' Let_def
        split: sum.splits option.splits if_splits)
  show "resume = None \<Longrightarrow> changes_only (under (part_dir env opts (bm_disks m) item)) fs fs' \<and> resume' = None"
    using assms(2) run c by (auto simp: download_part_def record_completed_def split: sum.splits)
qed

section \<open>What a task achieves\<close>

definition metadata_file :: "download_opts \<Rightarrow> string \<Rightarrow> string \<Rightarrow> string \<Rightarrow> string option" where
  "metadata_file opts metadata_prefix dir key =
     (let rel = metadata_relative_name (do_prefix opts) metadata_prefix key
      in if rel = [] \<or> sanitize_relative_path rel = [] then None else Some (path_join dir (sanitize_relative_path rel)))"

definition metadata_get :: "download_env \<Rightarrow> download_opts \<Rightarrow> string \<Rightarrow> string \<Rightarrow> string + string" where
  "metadata_get env opts metadata_prefix key =
     de_get env (trim_end_char CHR ''/'' metadata_prefix @ ''/'' @ metadata_relative_name (do_prefix opts) metadata_prefix key) 0"

text \<open>
  The part is there: on an object disk every listed metadata file with the content that was fetched; on a
  local disk \<^verbatim>\<open>checksums.txt\<close> with the recorded checksum, and, unless parts may be reused, every entry of
  an archive that was fetched.
\<close>

definition delivered ::
    "download_env \<Rightarrow> download_opts \<Rightarrow> BackupManifest \<Rightarrow> DownloadWorkItem \<Rightarrow> (string \<Rightarrow> node option) \<Rightarrow> bool" where
  "delivered env opts m item f \<longleftrightarrow>
     (let part = dw_part item; key = pi_backup_key part; dir = part_dir env opts (bm_disks m) item;
          shadow_dir = part_shadow_dir env opts (bm_disks m) item
      in if dw_is_s3_disk_part item
         then (\<exists>keys. de_list env key = Inr keys \<and> (\<forall>k\<in>set keys. \<forall>path. metadata_file opts key dir k = Some path \<longrightarrow>
                (\<exists>k'\<in>set keys. \<exists>data. metadata_file opts key dir k' = Some path \<and> metadata_get env opts key k' = Inr data
                   \<and> f path = Some (File data))))
         else (pi_checksum_crc64 part \<noteq> 0 \<longrightarrow> (\<exists>n. f (dir @ ''/checksums.txt'') = Some n \<and> de_crc env n = pi_checksum_crc64 part))
            \<and> (\<not> do_hardlink_exists_files opts \<longrightarrow>
                (\<exists>attempt archive entries. de_get env key attempt = Inr archive
                   \<and> de_unpack env (bm_data_format m) archive = (entries, None)
                   \<and> (\<forall>rel n. map_of (rev entries) rel = Some n \<longrightarrow> f (path_join shadow_dir rel) = Some n))))"

lemma fetch_metadata_files:
  "fetch_metadata env (do_prefix opts) key dir keys fs = (Inr n, fs') \<Longrightarrow>
     if \<exists>k\<in>set keys. metadata_file opts key dir k = Some p
     then \<exists>k'\<in>set keys. \<exists>data. metadata_file opts key dir k' = Some p \<and> metadata_get env opts key k' = Inr data \<and> map_of fs' p = Some (File data)
     else map_of fs' p = map_of fs p"
proof (induction keys arbitrary: fs n)
  case (Cons k keys)
  let ?rel = "metadata_relative_name (do_prefix opts) key k"
  show ?case
  proof (cases "?rel = []")
    case False
    then obtain data fs1 n1 where d: "metadata_get env opts key k = Inr data"
      and w: "(if sanitize_relative_path ?rel = [] then (None, fs)
          else create_and_write env (path_join dir (sanitize_relative_path ?rel)) data fs) = (None, fs1)"
      and r: "fetch_metadata env (do_prefix opts) key dir keys fs1 = (Inr n1, fs')"
      using Cons.prems by (auto simp: Let_def metadata_get_def split: sum.splits prod.splits option.splits)
    have fs1: "map_of fs1 p = (if metadata_file opts key dir k = Some p then Some (File data) else map_of fs p)"
      using w False by (auto simp: metadata_file_def create_and_write_def write_file_def update_conv' Let_def
          split: if_splits write_result.splits)
    show ?thesis using Cons.IH[OF r] d fs1 by (cases "\<exists>k\<in>set keys. metadata_file opts key dir k = Some p") auto
  next
    case True
    then have "metadata_file opts key dir k = None" by (simp add: metadata_file_def Let_def)
    moreover have r: "fetch_metadata env (do_prefix opts) key dir keys fs = (Inr n, fs')" using Cons.prems True by simp
    ultimately show ?thesis using Cons.IH[OF r] by (cases "\<exists>k\<in>set keys. metadata_file opts key dir k = Some p") auto
  qed
qed simp

lemma download_attempts_success:
  "download_attempts env fmt dir part left attempt e0 fs = (Inr n, fs') \<Longrightarrow>
     \<exists>attempt archive fs0. de_get env (pi_backup_key part) attempt = Inr archive
       \<and> decompress_part_file env archive dir fmt fs0 = (None, fs')
       \<and> (pi_checksum_crc64 part \<noteq> 0 \<longrightarrow>
            (\<exists>f. map_of fs' (path_join (path_join dir (pi_name part)) ''checksums.txt'') = Some f \<and> de_crc env f = pi_checksum_crc64 part))"
proof (induction left arbitrary: attempt e0 fs)
  case (Suc left)
  then obtain archive fs1 where g: "de_get env (pi_backup_key part) attempt = Inr archive"
    "decompress_part_file env archive dir fmt fs = (None, fs1)"
    by (auto simp: Let_def split: sum.splits prod.splits option.splits)
  show ?case
  proof (cases "pi_checksum_crc64 part = 0 \<or>
      (\<exists>f. map_of fs1 (path_join (path_join dir (pi_name part)) ''checksums.txt'') = Some f \<and> de_crc env f = pi_checksum_crc64 part)")
    case True
    then have "fs' = fs1" using Suc.prems g by (auto simp: Let_def split: if_splits)
    then show ?thesis using True g by blast
  next
    case False
    then obtain e fs2 where "download_attempts env fmt dir part left (attempt + 1) e fs2 = (Inr n, fs')"
      using Suc.prems g by (auto simp: Let_def split: option.splits)
    then show ?thesis by (rule Suc.IH)
  qed
qed simp

lemma link_files_keep: "link_files env existing target files fs = (True, fs') \<Longrightarrow> map_of fs p = Some n \<Longrightarrow> map_of fs' p = Some n"
proof (induction files arbitrary: fs)
  case (Cons f files)
  obtain path k where f: "f = (path, k)" by (metis surj_pair)
  let ?dest = "target @ ''/'' @ trim_start_char CHR ''/'' (drop (length existing + 1) path)"
  show ?case
  proof (cases "under existing path")
    case True
    then have "map_of fs ?dest = None" "link_files env existing target files (AList.update ?dest k fs) = (True, fs')"
      using Cons.prems(1) f by (auto simp: Let_def split: if_splits)
    moreover from this have "map_of (AList.update ?dest k fs) p = Some n" using Cons.prems(2) by (auto simp: update_conv')
    ultimately show ?thesis using Cons.IH by blast
  qed (use Cons f in auto)
qed simp

lemma link_files_linked:
  "link_files env existing target files fs = (True, fs') \<Longrightarrow> (path, n) \<in> set files \<Longrightarrow> under existing path \<Longrightarrow>
     map_of fs' (target @ ''/'' @ trim_start_char CHR ''/'' (drop (length existing + 1) path)) = Some n"
proof (induction files arbitrary: fs)
  case (Cons f files)
  show ?case
  proof (cases "f = (path, n)")
    case True
    then show ?thesis
      using Cons.prems by (auto simp: Let_def update_conv' split: if_splits intro: link_files_keep)
  next
    case False
    then show ?thesis using Cons by (cases f) (auto simp: Let_def split: if_splits)
  qed
qed simp

lemma find_existing_checksums:
  assumes "find_existing_part env data_path current table_key name crc disks disk fs = Some existing"
    and "name \<noteq> []" and "CHR ''/'' \<notin> set name"
  shows "\<exists>f. map_of fs (existing @ ''/checksums.txt'') = Some f \<and> de_crc env f = crc"
proof -
  obtain base n db table f where e: "existing = path_join (path_join (path_join (path_join (path_join base n) ''shadow'')
        (encode_component (de_uni env) db)) (encode_component (de_uni env) table)) name"
    and f: "map_of fs (path_join existing ''checksums.txt'') = Some f" "de_crc env f = crc"
    using assms(1) by (auto simp: find_existing_part_def Let_def split: if_splits prod.splits option.splits dest!: find_SomeD)
  have "path_join existing ''checksums.txt'' = existing @ ''/checksums.txt''"
    unfolding e using path_join_name(2)[OF assms(2,3), of "''checksums.txt''"] by simp
  then show ?thesis using f by metis
qed

definition item_ok :: "download_env \<Rightarrow> download_opts \<Rightarrow> BackupManifest \<Rightarrow> DownloadWorkItem \<Rightarrow> bool" where
  "item_ok env opts m item \<longleftrightarrow> part_ok env m item \<and> \<not> under (part_dir env opts (bm_disks m) item) (download_state_path opts)"

lemma entry_under:
  assumes "part_ok env m item" and "de_get env (pi_backup_key (dw_part item)) attempt = Inr archive"
    and "de_unpack env (bm_data_format m) archive = (entries, e)" and "map_of (rev entries) rel = Some n"
  shows "under (part_dir env opts disks item) (path_join (part_shadow_dir env opts disks item) rel)"
proof -
  have "(rel, n) \<in> set entries" using map_of_SomeD[OF assms(4)] by simp
  then have "starts_with rel (pi_name (dw_part item) @ ''/'')"
    using assms(1-3) by (fastforce simp: part_ok_def list_all_iff)
  then obtain c where "rel = pi_name (dw_part item) @ ''/'' @ c" by (auto simp: prefix_def)
  then show ?thesis
    using path_join_name(1)[of "pi_name (dw_part item)"] assms(1) by (simp add: part_ok_def part_dir_def under_def)
qed

lemma metadata_file_under:
  assumes "part_ok env m item" and "metadata_file opts key (part_dir env opts disks item) k = Some path"
  shows "under (part_dir env opts disks item) path"
  using assms path_join_name(2)[of "pi_name (dw_part item)", OF _ _ _ sanitize_relative]
  by (auto simp: metadata_file_def part_ok_def part_dir_def under_def Let_def split: if_splits)

lemma delivered_local:
  assumes "part_ok env m item" and "delivered env opts m item f"
    and "\<And>p. under (part_dir env opts (bm_disks m) item) p \<Longrightarrow> f p = g p"
  shows "delivered env opts m item g"
proof (cases "dw_is_s3_disk_part item")
  case True
  let ?key = "pi_backup_key (dw_part item)" and ?dir = "part_dir env opts (bm_disks m) item"
  obtain keys where keys: "de_list env ?key = Inr keys"
    "\<And>k path. k \<in> set keys \<Longrightarrow> metadata_file opts ?key ?dir k = Some path \<Longrightarrow>
       \<exists>k'\<in>set keys. \<exists>data. metadata_file opts ?key ?dir k' = Some path \<and> metadata_get env opts ?key k' = Inr data \<and> f path = Some (File data)"
    using assms(2) True unfolding delivered_def Let_def by auto
  have "f path = g path" if "metadata_file opts ?key ?dir k = Some path" for k path
    using metadata_file_under[OF assms(1) that] assms(3) by blast
  then show ?thesis using keys True unfolding delivered_def Let_def by (simp add: keys(1))
next
  case False
  have "under (part_dir env opts (bm_disks m) item) (part_dir env opts (bm_disks m) item @ ''/checksums.txt'')"
    by (simp add: under_def)
  note c = assms(3)[OF this]
  have "\<exists>attempt archive entries. de_get env (pi_backup_key (dw_part item)) attempt = Inr archive
      \<and> de_unpack env (bm_data_format m) archive = (entries, None)
      \<and> (\<forall>rel n. map_of (rev entries) rel = Some n \<longrightarrow> g (path_join (part_shadow_dir env opts (bm_disks m) item) rel) = Some n)"
    if nl: "\<not> do_hardlink_exists_files opts"
  proof -
    obtain attempt archive entries where e: "de_get env (pi_backup_key (dw_part item)) attempt = Inr archive"
        "de_unpack env (bm_data_format m) archive = (entries, None)"
        "\<And>rel n. map_of (rev entries) rel = Some n \<Longrightarrow> f (path_join (part_shadow_dir env opts (bm_disks m) item) rel) = Some n"
      using assms(2) False nl unfolding delivered_def Let_def by auto
    have "g (path_join (part_shadow_dir env opts (bm_disks m) item) rel) = Some n" if "map_of (rev entries) rel = Some n" for rel n
      using e(3)[OF that] assms(3)[OF entry_under[OF assms(1) e(1,2) that]] by simp
    then show ?thesis using e(1,2) by blast
  qed
  then show ?thesis using assms(2) False c unfolding delivered_def Let_def by simp
qed

lemma map_of_rev_image:
  assumes "\<forall>x\<in>set xs. \<forall>y\<in>set xs. h (fst x) = h (fst y) \<longrightarrow> fst x = fst y" and "map_of (rev xs) k = Some v"
  shows "map_of (rev (map (\<lambda>(k, v). (h k, v)) xs)) (h k) = Some v"
  using assms
proof (induction xs rule: rev_induct)
  case (snoc x xs)
  obtain a b where x: "x = (a, b)" by (metis surj_pair)
  show ?case
  proof (cases "a = k")
    case False
    then have "map_of (rev xs) k = Some v" using snoc.prems(2) x by simp
    moreover from this have "(k, v) \<in> set xs" using map_of_SomeD by fastforce
    then have "h a \<noteq> h k" using snoc.prems(1) x False by force
    ultimately show ?thesis using snoc x by auto
  qed (use snoc x in auto)
qed simp

lemma decompressed_entries:
  assumes "part_ok env m item" and "de_get env (pi_backup_key (dw_part item)) attempt = Inr archive"
    and "decompress_part_file env archive (part_shadow_dir env opts disks item) (bm_data_format m) fs0 = (None, fs')"
  obtains entries where "de_unpack env (bm_data_format m) archive = (entries, None)"
    and "\<And>rel n. map_of (rev entries) rel = Some n \<Longrightarrow> map_of fs' (path_join (part_shadow_dir env opts disks item) rel) = Some n"
proof -
  let ?d = "part_shadow_dir env opts disks item" and ?name = "pi_name (dw_part item)"
  obtain entries where e: "de_unpack env (bm_data_format m) archive = (entries, None)" and fs': "fs' = unpack_into ?d entries fs0"
    using assms(3) unfolding decompress_part_file_def by (auto simp only: prod.inject split: if_splits prod.splits)
  have n: "?name \<noteq> []" "CHR ''/'' \<notin> set ?name" using assms(1) by (simp_all add: part_ok_def)
  have "\<exists>c. rel = ?name @ ''/'' @ c" if "(rel, k) \<in> set entries" for rel k
    using assms(1,2) e that by (fastforce simp: part_ok_def list_all_iff prefix_def)
  then have "path_join ?d rel = path_join ?d ?name @ drop (length ?name) rel \<and> rel = ?name @ drop (length ?name) rel"
    if "(rel, k) \<in> set entries" for rel k
    using path_join_name(1)[OF n] that by fastforce
  then have "\<forall>x\<in>set entries. \<forall>y\<in>set entries. path_join ?d (fst x) = path_join ?d (fst y) \<longrightarrow> fst x = fst y"
    by (metis prod.collapse same_append_eq)
  from map_of_rev_image[OF this] show thesis
    by (intro that[OF e]) (simp add: fs' map_of_unpack)
qed

lemma local_part_delivered:
  assumes ok: "part_ok env m item" and local: "\<not> dw_is_s3_disk_part item"
    and run: "download_local_part env opts m item fs = (Inr n, fs')"
  shows "delivered env opts m item (map_of fs')"
proof -
  let ?part = "dw_part item" and ?dir = "part_dir env opts (bm_disks m) item"
  have name: "pi_name ?part \<noteq> []" "CHR ''/'' \<notin> set (pi_name ?part)" using ok by (simp_all add: part_ok_def)
  show ?thesis
    using run
  proof (cases rule: download_local_partE)
    case (linked existing)
    obtain f where f: "map_of fs (existing @ ''/checksums.txt'') = Some f" "de_crc env f = pi_checksum_crc64 ?part"
      using find_existing_checksums[OF linked(2) name] by blast
    have "under existing (existing @ ''/checksums.txt'')" by (simp add: under_def)
    from link_files_linked[OF linked(3) map_of_SomeD[OF f(1)] this]
    have "map_of fs' (?dir @ ''/checksums.txt'') = Some f" by (simp add: trim_start_char_def)
    then show ?thesis using linked(1) f(2) local by (simp add: delivered_def)
  next
    case (fetched fs0)
    obtain attempt archive fs1 where a: "de_get env (pi_backup_key ?part) attempt = Inr archive"
        "decompress_part_file env archive (part_shadow_dir env opts (bm_disks m) item) (bm_data_format m) fs1 = (None, fs')"
      and c: "pi_checksum_crc64 ?part \<noteq> 0 \<Longrightarrow> \<exists>f. map_of fs' (path_join ?dir ''checksums.txt'') = Some f \<and> de_crc env f = pi_checksum_crc64 ?part"
      using download_attempts_success[OF fetched(3)] unfolding part_dir_def by blast
    have cs: "path_join ?dir ''checksums.txt'' = ?dir @ ''/checksums.txt''"
      using path_join_name(2)[OF name, of "''checksums.txt''"] by (simp add: part_dir_def)
    obtain entries where e: "de_unpack env (bm_data_format m) archive = (entries, None)"
        "\<And>rel k. map_of (rev entries) rel = Some k \<Longrightarrow> map_of fs' (path_join (part_shadow_dir env opts (bm_disks m) item) rel) = Some k"
      using decompressed_entries[OF ok a] by blast
    have "\<exists>attempt archive entries. de_get env (pi_backup_key ?part) attempt = Inr archive
        \<and> de_unpack env (bm_data_format m) archive = (entries, None)
        \<and> (\<forall>rel k. map_of (rev entries) rel = Some k \<longrightarrow> map_of fs' (path_join (part_shadow_dir env opts (bm_disks m) item) rel) = Some k)"
      using a(1) e by blast
    then show ?thesis using c local unfolding cs delivered_def by simp
  qed simp
qed

lemma s3_part_delivered:
  assumes "dw_is_s3_disk_part item" and "download_s3_disk_part env opts (bm_disks m) item fs = (Inr n, fs')"
  shows "delivered env opts m item (map_of fs')"
proof -
  let ?key = "pi_backup_key (dw_part item)" and ?dir = "part_dir env opts (bm_disks m) item"
  obtain keys where "de_list env ?key = Inr keys" "fetch_metadata env (do_prefix opts) ?key ?dir keys fs = (Inr n, fs')"
    using assms(2) by (auto simp: download_s3_disk_part_def Let_def split: sum.splits if_splits)
  moreover from fetch_metadata_files[OF this(2)]
  have "\<forall>k\<in>set keys. \<forall>path. metadata_file opts ?key ?dir k = Some path \<longrightarrow>
      (\<exists>k'\<in>set keys. \<exists>data. metadata_file opts ?key ?dir k' = Some path \<and> metadata_get env opts ?key k' = Inr data
         \<and> map_of fs' path = Some (File data))" by metis
  ultimately show ?thesis using assms(1) unfolding delivered_def Let_def by auto
qed

text \<open>The view of the files that leaves out the state file, which all tasks share.\<close>

definition files_but :: "string \<Rightarrow> fsys \<times> DownloadState option \<Rightarrow> string \<Rightarrow> node option" where
  "files_but state_path st p = (if p = state_path then None else map_of (fst st) p)"

lemma download_part_delivered:
  assumes "item_ok env opts m item" and "download_part env opts m item st = (r, st')" and "\<not> isl r"
  shows "delivered env opts m item (files_but (download_state_path opts) st')"
proof -
  obtain fs resume where st: "st = (fs, resume)" by (metis surj_pair)
  obtain n fs1 where run: "(if dw_is_s3_disk_part item then download_s3_disk_part env opts (bm_disks m) item fs
           else download_local_part env opts m item fs) = (Inr n, fs1)"
      and st': "st' = record_completed env (download_state_path opts) (pi_backup_key (dw_part item)) (fs1, resume)"
    using assms(2,3) st by (auto simp: download_part_def split: sum.splits prod.splits)
  have ok: "part_ok env m item" using assms(1) by (simp add: item_ok_def)
  have "delivered env opts m item (map_of fs1)"
    using run s3_part_delivered local_part_delivered[OF ok] by (auto split: if_splits)
  moreover have "map_of fs1 p = files_but (download_state_path opts) st' p" if "under (part_dir env opts (bm_disks m) item) p" for p
    using assms(1) that
    by (auto simp: item_ok_def files_but_def st' record_completed_def save_download_state_def update_conv' Let_def split: option.splits)
  ultimately show ?thesis using delivered_local[OF ok] by blast
qed

interpretation dl: independent_tasks "download_part env opts m" "files_but (download_state_path opts)"
  "\<lambda>item. under (part_dir env opts (bm_disks m) item)" "item_ok env opts m" "\<lambda>r. \<not> isl r" "delivered env opts m"
  for env opts m
proof
  show "files_but (download_state_path opts) s' p = files_but (download_state_path opts) s p"
    if "item_ok env opts m i" "download_part env opts m i s = (r, s')" "\<not> under (part_dir env opts (bm_disks m) i) p" for i s r s' p
    using download_part_changes(1)[of env m i opts "fst s" "snd s" r "fst s'" "snd s'"] that
    by (auto simp: item_ok_def files_but_def changes_only_def)
  show "delivered env opts m i (files_but (download_state_path opts) s')"
    if "item_ok env opts m i" "download_part env opts m i s = (r, s')" "\<not> isl r" for i s r s'
    using download_part_delivered that by blast
  show "delivered env opts m i g"
    if "item_ok env opts m i" "delivered env opts m i f" "\<And>p. under (part_dir env opts (bm_disks m) i) p \<Longrightarrow> f p = g p" for i f g
    using delivered_local that by (auto simp: item_ok_def)
qed

section \<open>The whole download\<close>

definition separate :: "string \<Rightarrow> string \<Rightarrow> bool" where
  "separate d e \<longleftrightarrow> \<not> prefix (d @ ''/'') (e @ ''/'') \<and> \<not> prefix (e @ ''/'') (d @ ''/'')"

lemma separate_under: "separate d e \<Longrightarrow> under d p \<Longrightarrow> \<not> under e p"
  unfolding separate_def under_def using prefix_same_cases by blast

text \<open>The files beside the parts that a download writes.\<close>

definition beside_parts :: "download_env \<Rightarrow> download_opts \<Rightarrow> BackupManifest \<Rightarrow> string \<Rightarrow> bool" where
  "beside_parts env opts m p \<longleftrightarrow> under (path_join (download_backup_dir opts) ''access'') p
     \<or> under (path_join (download_backup_dir opts) ''configs'') p
     \<or> p \<in> table_metadata_path env (download_backup_dir opts) ` fst ` set (bm_tables m)"

lemma fetch_directory_changes:
  "fetch_directory env opts pre (path_join d name) keys fs = (r, fs') \<Longrightarrow> name \<noteq> [] \<Longrightarrow> CHR ''/'' \<notin> set name \<Longrightarrow>
     changes_only (under (path_join d name)) fs fs'"
proof (induction keys arbitrary: fs)
  case (Cons key keys)
  have u: "under (path_join d name) (path_join (path_join d name) (sanitize_relative_path rel))" if "sanitize_relative_path rel \<noteq> []" for rel
    using path_join_name(2)[OF Cons.prems(2,3) that sanitize_relative, of d] by (simp add: under_def)
  show ?case
    using Cons create_and_write_changes[where owned = "under (path_join d name)", OF u]
    by (auto simp: Let_def split: sum.splits prod.splits option.splits if_splits) (meson changes_only_trans)+
qed simp

lemma simple_directory_changes:
  "download_simple_directory env opts name fs = (r, fs') \<Longrightarrow> name \<noteq> [] \<Longrightarrow> CHR ''/'' \<notin> set name \<Longrightarrow>
     changes_only (under (path_join (download_backup_dir opts) name)) fs fs'"
  using fetch_directory_changes
  by (auto simp: download_simple_directory_def Let_def split: sum.splits if_splits)

lemma save_tables_changes:
  "save_tables env d tables fs = (r, fs') \<Longrightarrow> changes_only (\<lambda>p. p \<in> table_metadata_path env d ` fst ` set tables) fs fs'"
proof (induction tables arbitrary: fs)
  case (Cons t tables)
  obtain k tm where t: "t = (k, tm)" by (metis surj_pair)
  let ?own = "\<lambda>p. p \<in> table_metadata_path env d ` fst ` set (t # tables)"
  have own: "?own (table_metadata_path env d k)" using t by simp
  have IH: "changes_only ?own fs1 fs'" if "save_tables env d tables fs1 = (r, fs')" for fs1
    using Cons.IH[OF that] by (simp add: changes_only_def)
  obtain e fs1 where w: "write_file env (table_metadata_path env d k) (de_print_table env tm) fs = (e, fs1)" by (metis surj_pair)
  show ?case
    using Cons.prems t w write_file_changes[of ?own, OF own w] IH
    by (auto simp: Let_def split: if_splits option.splits intro: changes_only_trans)
qed simp

lemma changes_only_mono: "changes_only a fs fs' \<Longrightarrow> (\<And>p. a p \<Longrightarrow> b p) \<Longrightarrow> changes_only b fs fs'"
  by (auto simp: changes_only_def)

lemma bind_io_cases:
  assumes "bind_io r f = (e, fs')"
  obtains (stop) e' where "r = (Some e', fs')" "e = Some e'" | (go) fs1 where "r = (None, fs1)" "f fs1 = (e, fs')"
  using assms by (auto simp: bind_io_def split: prod.splits option.splits)

lemma bind_io_changes:
  assumes "\<And>e fs'. r = (e, fs') \<Longrightarrow> changes_only a fs fs'" and "\<And>fs1 e fs'. f fs1 = (e, fs') \<Longrightarrow> changes_only a fs1 fs'"
    and "bind_io r f = (e, fs')"
  shows "changes_only a fs fs'"
  using assms(3)
proof (cases rule: bind_io_cases)
  case (go fs1)
  then show ?thesis using changes_only_trans[OF assms(1)[OF go(1)] assms(2)[OF go(2)]] by simp
qed (use assms(1) in simp)

definition before_manifest :: "download_env \<Rightarrow> download_opts \<Rightarrow> BackupManifest \<Rightarrow> fsys \<Rightarrow> download_error option \<times> fsys" where
  "before_manifest env opts m fs = bind_io (bind_io
       (if bm_rbac m \<noteq> None then download_simple_directory env opts ''access'' fs else (None, fs))
       (download_simple_directory env opts ''configs''))
       (save_tables env (download_backup_dir opts) (bm_tables m))"

lemma before_manifest_changes:
  assumes "before_manifest env opts m fs = (e, fs')"
  shows "changes_only (beside_parts env opts m) fs fs'"
proof -
  have dir: "changes_only (beside_parts env opts m) fs fs'"
    if "download_simple_directory env opts name fs = (e, fs')" "name = ''access'' \<or> name = ''configs''" for name fs e fs'
  proof -
    have "changes_only (under (path_join (download_backup_dir opts) name)) fs fs'"
      using that(2) by (intro simple_directory_changes[OF that(1)]) auto
    then show ?thesis using that(2) by (auto simp: changes_only_def beside_parts_def)
  qed
  have tables: "changes_only (beside_parts env opts m) fs fs'"
    if "save_tables env (download_backup_dir opts) (bm_tables m) fs = (e, fs')" for fs e fs'
    using save_tables_changes[OF that] by (rule changes_only_mono) (simp add: beside_parts_def)
  have first: "changes_only (beside_parts env opts m) fs fs'"
    if "(if bm_rbac m \<noteq> None then download_simple_directory env opts ''access'' fs else (None, fs)) = (e, fs')" for fs e fs'
    using that dir[of "''access''"] by (auto split: if_splits)
  note two = bind_io_changes[OF first dir[of "''configs''", OF _ disjI2[OF refl]]]
  show ?thesis by (rule bind_io_changes[OF two tables assms[unfolded before_manifest_def]])
qed

text \<open>
  What keeps the parts of a download apart: every part is well formed, the directories of different parts
  and the files beside them do not overlap, and the scheduler runs every task once.
\<close>

definition download_apart :: "download_env \<Rightarrow> download_opts \<Rightarrow> BackupManifest \<Rightarrow> DownloadWorkItem list \<Rightarrow> bool" where
  "download_apart env opts m items \<longleftrightarrow>
     distinct items \<and> mset (de_schedule env items) = mset items \<and> \<not> beside_parts env opts m (manifest_path opts)
     \<and> (\<forall>i\<in>set items. item_ok env opts m i \<and> \<not> under (part_dir env opts (bm_disks m) i) (manifest_path opts)
          \<and> (\<forall>p. under (part_dir env opts (bm_disks m) i) p \<longrightarrow> \<not> beside_parts env opts m p))
     \<and> (\<forall>i\<in>set items. \<forall>j\<in>set items. i \<noteq> j \<longrightarrow> separate (part_dir env opts (bm_disks m) i) (part_dir env opts (bm_disks m) j))"

lemma download_apart_schedule:
  assumes "download_apart env opts m items"
  shows "set (de_schedule env items) = set items" and "distinct (de_schedule env items)"
proof -
  have p: "mset (de_schedule env items) = mset items" and d: "distinct items" using assms by (simp_all add: download_apart_def)
  show "set (de_schedule env items) = set items" by (rule mset_eq_setD[OF p])
  show "distinct (de_schedule env items)" using mset_eq_imp_distinct_iff[OF p] d by simp
qed

lemma map_filter_empty: "List.map_filter f xs = [] \<longleftrightarrow> (\<forall>x\<in>set xs. f x = None)"
  by (induction xs) (auto simp: List.map_filter_simps split: option.splits)

lemma download_parts_run:
  assumes apart: "download_apart env opts m items" and run: "download_parts env opts m items st = (e, fs')"
  shows "\<exists>rs resume. run_each (download_part env opts m) (de_schedule env items) st = (rs, fs', resume)
    \<and> (e = None \<longrightarrow> (\<forall>(i, r)\<in>set rs. \<not> isl r))"
proof -
  obtain rs fs1 resume where r: "run_each (download_part env opts m) (de_schedule env items) st = (rs, fs1, resume)"
    by (metis surj_pair)
  have fs': "fs' = fs1" using run r by (auto simp: download_parts_def split: list.splits)
  note set = download_apart_schedule(1)[OF apart]
  have "\<not> isl q" if "e = None" and x: "(i, q) \<in> set rs" for i q
  proof -
    have "fst ` set rs = set items" using dl.run_each_items[OF r] set by (metis list.set_map)
    then have "i \<in> set items" using x by force
    then have "(i, q) \<in> set (concat (map (\<lambda>item. filter (\<lambda>x. fst x = item) rs) items))" using x by auto
    moreover have "List.map_filter (\<lambda>(_, r). case r of Inl e \<Rightarrow> Some e | Inr _ \<Rightarrow> None)
        (concat (map (\<lambda>item. filter (\<lambda>x. fst x = item) rs) items)) = []"
      using run r that(1) by (auto simp: download_parts_def split: list.splits)
    ultimately have "(case q of Inl e \<Rightarrow> Some e | Inr _ \<Rightarrow> None) = None" unfolding map_filter_empty by fast
    then show ?thesis by (cases q) auto
  qed
  then show ?thesis using r fs' by (intro exI[of _ rs] exI[of _ resume]) auto
qed

lemma state_path_manifest: "manifest_path opts \<noteq> download_state_path opts"
proof -
  have "path_join d ''metadata.json'' \<noteq> path_join d ''download.state.json''" for d
    using path_join_rel[of "''metadata''" d "''.json''"] path_join_rel[of "''download.state''" d "''.json''"]
    by (auto simp: path_join_def)
  then show ?thesis by (simp add: manifest_path_def download_state_path_def)
qed

lemma download_parts_delivered:
  assumes apart: "download_apart env opts m items" and run: "download_parts env opts m items (fs, resume) = (None, fs')"
    and i: "i \<in> set items"
  shows "delivered env opts m i (\<lambda>p. if p = download_state_path opts then None else map_of fs' p)"
proof -
  obtain rs resume' where r: "run_each (download_part env opts m) (de_schedule env items) (fs, resume) = (rs, fs', resume')"
    and ok: "\<forall>(i, r)\<in>set rs. \<not> isl r" using download_parts_run[OF apart run] by auto
  note s = download_apart_schedule[OF apart]
  have "delivered env opts m i (files_but (download_state_path opts) (fs', resume'))"
  proof (rule dl.run_each_good[OF r _ s(2) _ ok])
    show "\<forall>i\<in>set (de_schedule env items). item_ok env opts m i" using apart s(1) by (simp add: download_apart_def)
    show "\<forall>i\<in>set (de_schedule env items). \<forall>j\<in>set (de_schedule env items). i \<noteq> j \<longrightarrow>
        (\<forall>p. \<not> (under (part_dir env opts (bm_disks m) i) p \<and> under (part_dir env opts (bm_disks m) j) p))"
    proof (intro ballI impI allI notI)
      fix i j p
      assume ij: "i \<in> set (de_schedule env items)" "j \<in> set (de_schedule env items)" "i \<noteq> j"
        and u: "under (part_dir env opts (bm_disks m) i) p \<and> under (part_dir env opts (bm_disks m) j) p"
      have "separate (part_dir env opts (bm_disks m) i) (part_dir env opts (bm_disks m) j)"
        using apart ij unfolding s(1) download_apart_def by blast
      then show False using separate_under u by blast
    qed
  qed (use i s(1) in simp)
  then show ?thesis unfolding files_but_def [abs_def] fst_conv .
qed

lemma download_parts_changes:
  assumes apart: "download_apart env opts m items" and run: "download_parts env opts m items (fs, resume) = (e, fs')"
    and "p \<noteq> download_state_path opts" and "\<forall>i\<in>set items. \<not> under (part_dir env opts (bm_disks m) i) p"
  shows "map_of fs' p = map_of fs p"
proof -
  obtain rs resume' where r: "run_each (download_part env opts m) (de_schedule env items) (fs, resume) = (rs, fs', resume')"
    using download_parts_run[OF apart run] by blast
  note s = download_apart_schedule(1)[OF apart]
  show ?thesis
    using dl.run_each_frame[OF r, of p] apart assms(3,4) s by (simp add: files_but_def download_apart_def)
qed

lemma finish_download_eq:
  "finish_download env opts m fs =
     bind_io (bind_io (before_manifest env opts m fs) (create_and_write env (manifest_path opts) (de_print_manifest env m)))
       (\<lambda>fs. (None, if do_use_resume opts \<and> de_remove_ok env (download_state_path opts)
                    then AList.delete (download_state_path opts) fs else fs))"
  by (simp add: finish_download_def before_manifest_def)

lemma finish_download_None:
  assumes "finish_download env opts m fs = (None, fs')"
  shows "map_of fs' (manifest_path opts) = Some (File (de_print_manifest env m))"
    and "changes_only (\<lambda>p. beside_parts env opts m p \<or> p = manifest_path opts \<or> p = download_state_path opts) fs fs'"
proof -
  obtain fs1 fs2 where b: "before_manifest env opts m fs = (None, fs1)"
    and w: "create_and_write env (manifest_path opts) (de_print_manifest env m) fs1 = (None, fs2)"
    and d: "fs' = (if do_use_resume opts \<and> de_remove_ok env (download_state_path opts) then AList.delete (download_state_path opts) fs2 else fs2)"
    using assms unfolding finish_download_eq by (auto elim!: bind_io_cases)
  have fs2: "fs2 = AList.update (manifest_path opts) (File (de_print_manifest env m)) fs1"
    using w by (auto simp: create_and_write_def write_file_def split: if_splits write_result.splits)
  show "map_of fs' (manifest_path opts) = Some (File (de_print_manifest env m))"
    using d fs2 state_path_manifest by (auto simp: update_conv' delete_conv')
  show "changes_only (\<lambda>p. beside_parts env opts m p \<or> p = manifest_path opts \<or> p = download_state_path opts) fs fs'"
    using d fs2 before_manifest_changes[OF b] by (auto simp: changes_only_def update_conv' delete_conv')
qed

text \<open>The steps of a download that finds its manifest.\<close>

lemma download_manifestE:
  assumes "download_manifest env opts m fs = (e, fs')"
  obtains (refused) "e \<noteq> None" and "fs' = fs"
  | (run) fs1 resume e1 fs2 where "fs1 = save_disk_map env opts m fs"
      and "download_parts env opts m (plan_download (load_completed_keys env opts fs) m) (fs1, resume) = (e1, fs2)"
      and "case e1 of Some e' \<Rightarrow> e = Some e' \<and> fs' = fs2 | None \<Rightarrow> finish_download env opts m fs2 = (e, fs')"
  using assms
  by (auto simp: download_manifest_def Let_def split: option.splits if_splits elim!: bind_io_cases) fastforce+

section \<open>Properties\<close>

lemma download_OkE:
  assumes "download env opts fs = (Inr dir, fs')"
    and "de_get env (do_backup_name opts @ ''/metadata.json'') 0 = Inr bytes" and "de_parse_manifest env bytes = Some m"
  obtains resume fs2 where "dir = download_backup_dir opts"
    and "download_parts env opts m (plan_download (load_completed_keys env opts fs) m) (save_disk_map env opts m fs, resume) = (None, fs2)"
    and "finish_download env opts m fs2 = (None, fs')"
proof -
  have run: "download_manifest env opts m fs = (None, fs')" and dir: "dir = download_backup_dir opts"
    using assms by (auto simp: download_def split: prod.splits option.splits)
  from run show thesis
    by (cases rule: download_manifestE) (use that dir in \<open>auto split: option.splits\<close>)
qed

lemma download_verified:
  assumes "download env opts fs = (Inr dir, fs')"
    and "de_get env (do_backup_name opts @ ''/metadata.json'') 0 = Inr bytes" and "de_parse_manifest env bytes = Some m"
    and apart: "download_apart env opts m (plan_download (load_completed_keys env opts fs) m)"
  shows "(\<forall>item\<in>set (plan_download (load_completed_keys env opts fs) m). delivered env opts m item (map_of fs'))
    \<and> map_of fs' (manifest_path opts) = Some (File (de_print_manifest env m))"
proof -
  obtain resume fs2 where p: "download_parts env opts m (plan_download (load_completed_keys env opts fs) m) (save_disk_map env opts m fs, resume) = (None, fs2)"
    and fin: "finish_download env opts m fs2 = (None, fs')" using assms(1-3) by (rule download_OkE)
  have "delivered env opts m i (map_of fs')" if i: "i \<in> set (plan_download (load_completed_keys env opts fs) m)" for i
  proof -
    have ok: "item_ok env opts m i" "\<not> under (part_dir env opts (bm_disks m) i) (manifest_path opts)"
      "\<And>p. under (part_dir env opts (bm_disks m) i) p \<Longrightarrow> \<not> beside_parts env opts m p"
      using apart i unfolding download_apart_def by blast+
    show ?thesis
    proof (rule delivered_local[OF _ download_parts_delivered[OF apart p i]])
      show "part_ok env m i" using ok(1) by (simp add: item_ok_def)
      show "(if q = download_state_path opts then None else map_of fs2 q) = map_of fs' q"
        if q: "under (part_dir env opts (bm_disks m) i) q" for q
      proof -
        have "q \<noteq> download_state_path opts" "q \<noteq> manifest_path opts" "\<not> beside_parts env opts m q"
          using q ok by (auto simp: item_ok_def)
        then show ?thesis using finish_download_None(2)[OF fin] by (simp add: changes_only_def)
      qed
    qed
  qed
  then show ?thesis using finish_download_None(1)[OF fin] by blast
qed

text \<open>
  C9. A download that reports success delivered every part it was to fetch. On a local disk the part has the
  checksum of the manifest and every entry of a fetched archive is there, on an object disk every metadata
  file is there with the fetched content, whatever the order of the tasks and however many attempts failed;
  and the manifest is in place.
\<close>

theorem download_delivers:
  assumes "download env opts fs = (Inr dir, fs')"
    and "de_get env (do_backup_name opts @ ''/metadata.json'') 0 = Inr bytes" and "de_parse_manifest env bytes = Some m"
    and apart: "download_apart env opts m (plan_download (load_completed_keys env opts fs) m)"
  shows "(\<forall>item\<in>set (plan_download (load_completed_keys env opts fs) m). delivered env opts m item (map_of fs'))
    \<and> map_of fs' (manifest_path opts) = Some (File (de_print_manifest env m))"
  using assms by (rule download_verified)

lemma save_disk_map_manifest: "map_of (save_disk_map env opts m fs) (manifest_path opts) = map_of fs (manifest_path opts)"
  using state_path_manifest by (auto simp: save_disk_map_def save_download_state_def update_conv')

lemma finish_download_Some:
  assumes "finish_download env opts m fs = (Some e, fs')" and "\<not> beside_parts env opts m (manifest_path opts)"
  shows "map_of fs' (manifest_path opts) = map_of fs (manifest_path opts)
    \<or> (\<exists>k. de_write env (manifest_path opts) = Cut k \<and> map_of fs' (manifest_path opts) = Some (File (take k (de_print_manifest env m))))"
proof -
  have "bind_io (before_manifest env opts m fs) (create_and_write env (manifest_path opts) (de_print_manifest env m)) = (Some e, fs')"
    using assms(1) unfolding finish_download_eq by (auto elim!: bind_io_cases)
  then show ?thesis
  proof (cases rule: bind_io_cases)
    case (go fs1)
    then show ?thesis using before_manifest_changes[OF go(1)] assms(2)
      by (auto simp: create_and_write_def write_file_def changes_only_def update_conv' split: if_splits write_result.splits)
  qed (use before_manifest_changes assms(2) in \<open>auto simp: changes_only_def\<close>)
qed

text \<open>
  C21. A download that fails leaves no manifest behind: the manifest file is as it was, unless writing that file
  itself was cut off, so an unfinished download is never taken for a complete backup.
\<close>

theorem failed_download_without_manifest:
  assumes "download env opts fs = (Inl e, fs')"
    and "\<And>bytes m. de_get env (do_backup_name opts @ ''/metadata.json'') 0 = Inr bytes \<Longrightarrow> de_parse_manifest env bytes = Some m \<Longrightarrow>
           download_apart env opts m (plan_download (load_completed_keys env opts fs) m)"
  shows "map_of fs' (manifest_path opts) = map_of fs (manifest_path opts)
    \<or> (\<exists>k m. de_write env (manifest_path opts) = Cut k \<and> map_of fs' (manifest_path opts) = Some (File (take k (de_print_manifest env m))))"
proof (cases "fs' = fs")
  case False
  then obtain bytes m where m: "de_get env (do_backup_name opts @ ''/metadata.json'') 0 = Inr bytes" "de_parse_manifest env bytes = Some m"
    and run: "download_manifest env opts m fs = (Some e, fs')"
    using assms(1) by (auto simp: download_def split: sum.splits option.splits prod.splits)
  note apart = assms(2)[OF m]
  from run show ?thesis
  proof (cases rule: download_manifestE)
    case (run fs1 resume e1 fs2)
    have "\<forall>i\<in>set (plan_download (load_completed_keys env opts fs) m). \<not> under (part_dir env opts (bm_disks m) i) (manifest_path opts)"
      and nb: "\<not> beside_parts env opts m (manifest_path opts)"
      using apart unfolding download_apart_def by blast+
    from download_parts_changes[OF apart run(2) state_path_manifest this(1)]
    have fs2: "map_of fs2 (manifest_path opts) = map_of fs (manifest_path opts)" using run(1) save_disk_map_manifest by simp
    show ?thesis
    proof (cases e1)
      case None
      then have fin: "finish_download env opts m fs2 = (Some e, fs')" using run(3) by simp
      from finish_download_Some[OF fin nb] show ?thesis using fs2 by fastforce
    qed (use run(3) fs2 in simp)
  qed (use False in simp)
qed simp

section \<open>Examples\<close>

text \<open>A backup of one part whose first archive is corrupt.\<close>

definition dl_part :: PartInfo where
  "dl_part = (PartInfo_new ''all_1_1_0'' 10 7)\<lparr>pi_backup_key := ''b/data/db/t/all_1_1_0.tar.lz4''\<rparr>"

definition dl_manifest :: BackupManifest where
  "dl_manifest = (manifest_with_part ''b'' dl_part)\<lparr>bm_data_format := ''lz4'', bm_disks := []\<rparr>"

definition dl_env :: download_env where
  "dl_env = \<lparr>de_uni = (\<lambda>_. False), de_crc = (\<lambda>n. if n = File ''sums'' then 7 else 1), de_canonicalize = (\<lambda>_. None),
     de_exists = (\<lambda>_. False), de_read_dir = (\<lambda>_. []), de_statvfs = (\<lambda>_. None), de_margin = (\<lambda>n. n), de_mkdir_ok = (\<lambda>_. True),
     de_write = (\<lambda>_. Written), de_link_ok = (\<lambda>_. True), de_remove_ok = (\<lambda>_. True),
     de_get = (\<lambda>key attempt. if key = ''b/metadata.json'' then Inr ''M'' else if key = ''b/data/db/t/all_1_1_0.tar.lz4''
                 then Inr (if attempt = 0 then ''corrupt'' else ''good'') else Inl ''404''),
     de_list = (\<lambda>_. Inr []),
     de_unpack = (\<lambda>fmt archive. if fmt = ''lz4''
                    then ([(''all_1_1_0/checksums.txt'', File (if archive = ''good'' then ''sums'' else [])), (''all_1_1_0/data.bin'', Bin 9)], None)
                    else ([], Some ''bad magic'')),
     de_parse_manifest = (\<lambda>s. if s = ''M'' then Some dl_manifest else None), de_print_manifest = (\<lambda>_. ''M''),
     de_print_table = (\<lambda>_. ''T''), de_print_state = (\<lambda>_. ''S''), de_parse_state = (\<lambda>_. None), de_schedule = rev\<rparr>"

definition dl_opts :: download_opts where
  "dl_opts = \<lparr>do_data_path = ''/ch'', do_prefix = [], do_retries = 3, do_backup_name = ''b'', do_use_resume = False,
     do_hardlink_exists_files = False\<rparr>"

lemma dl_items:
  "load_completed_keys dl_env dl_opts [] = {}"
  "map dw_part (plan_download {} dl_manifest) = [dl_part]"
  "map (part_dir dl_env dl_opts (bm_disks dl_manifest)) (plan_download {} dl_manifest) = [''/ch/backup/b/shadow/db/t/all_1_1_0'']"
  "map dw_is_s3_disk_part (plan_download {} dl_manifest) = [False]"
  by code_simp+

lemma dl_one:
  obtains i where "plan_download {} dl_manifest = [i]" and "dw_part i = dl_part" and "\<not> dw_is_s3_disk_part i"
    and "part_dir dl_env dl_opts (bm_disks dl_manifest) i = ''/ch/backup/b/shadow/db/t/all_1_1_0''"
  using dl_items(2-4) by (auto simp: Cons_eq_map_conv map_eq_Cons_conv)

lemma dl_paths:
  "download_state_path dl_opts = ''/ch/backup/b/download.state.json''" "manifest_path dl_opts = ''/ch/backup/b/metadata.json''"
  "path_join (download_backup_dir dl_opts) ''access'' = ''/ch/backup/b/access''"
  "path_join (download_backup_dir dl_opts) ''configs'' = ''/ch/backup/b/configs''"
  "map (table_metadata_path dl_env (download_backup_dir dl_opts) \<circ> fst) (bm_tables dl_manifest) = [''/ch/backup/b/metadata/db/t.json'']"
  by code_simp+

lemma dl_beside:
  "beside_parts dl_env dl_opts dl_manifest p \<longleftrightarrow>
     under ''/ch/backup/b/access'' p \<or> under ''/ch/backup/b/configs'' p \<or> p = ''/ch/backup/b/metadata/db/t.json''"
proof -
  have "table_metadata_path dl_env (download_backup_dir dl_opts) ` fst ` set (bm_tables dl_manifest) = {''/ch/backup/b/metadata/db/t.json''}"
    using dl_paths(5) [THEN arg_cong [where f = set]] by (simp add: image_comp)
  then show ?thesis unfolding beside_parts_def dl_paths by simp
qed

lemma dl_apart: "download_apart dl_env dl_opts dl_manifest (plan_download {} dl_manifest)"
proof -
  obtain i where i: "plan_download {} dl_manifest = [i]" "dw_part i = dl_part"
    "part_dir dl_env dl_opts (bm_disks dl_manifest) i = ''/ch/backup/b/shadow/db/t/all_1_1_0''" by (rule dl_one)
  have "part_ok dl_env dl_manifest i"
    by (auto simp: part_ok_def i dl_part_def PartInfo_new_def dl_env_def dl_manifest_def split: if_splits)
  moreover have "de_schedule dl_env [i] = [i]" by (simp add: dl_env_def)
  moreover have "\<not> beside_parts dl_env dl_opts dl_manifest p" if "under ''/ch/backup/b/shadow/db/t/all_1_1_0'' p" for p
    using that by (auto simp: dl_beside under_def prefix_def)
  ultimately show ?thesis
    unfolding download_apart_def i(1) by (simp add: item_ok_def i dl_paths dl_beside under_def)
qed

definition dl_run :: "(download_error + string) \<times> fsys" where
  "dl_run = download dl_env dl_opts []"

lemma dl_run_ok: "dl_run = (Inr ''/ch/backup/b'', snd dl_run)"
proof -
  have "fst dl_run = Inr ''/ch/backup/b''" by code_simp
  then show ?thesis by (metis prod.collapse)
qed

theorem download_delivers_witness:
  "\<exists>item. plan_download {} dl_manifest = [item] \<and> delivered dl_env dl_opts dl_manifest item (map_of (snd dl_run))
     \<and> map_of (snd dl_run) ''/ch/backup/b/metadata.json'' = Some (File ''M'')"
proof -
  obtain i where i: "plan_download {} dl_manifest = [i]" by (rule dl_one)
  have "de_get dl_env (do_backup_name dl_opts @ ''/metadata.json'') 0 = Inr ''M''" "de_parse_manifest dl_env ''M'' = Some dl_manifest"
    by (simp_all add: dl_env_def dl_opts_def)
  note d = download_delivers[OF dl_run_ok[unfolded dl_run_def] this, unfolded dl_items(1), OF dl_apart]
  have "de_print_manifest dl_env dl_manifest = ''M''" by (simp add: dl_env_def)
  then show ?thesis using d i dl_paths(2) by (simp add: dl_run_def)
qed

definition dl_broken_env :: download_env where
  "dl_broken_env = dl_env\<lparr>de_write := (\<lambda>p. if p = ''/ch/backup/b/metadata/db/t.json'' then NotOpened else Written)\<rparr>"

theorem failed_download_without_manifest_witness:
  "fst (download dl_broken_env dl_opts []) = Inl (WriteFailed ''/ch/backup/b/metadata/db/t.json'')
   \<and> map_of (snd (download dl_broken_env dl_opts [])) ''/ch/backup/b/metadata.json'' = None"
proof -
  have f: "fst (download dl_broken_env dl_opts []) = Inl (WriteFailed ''/ch/backup/b/metadata/db/t.json'')" by code_simp
  then have run: "download dl_broken_env dl_opts [] = (Inl (WriteFailed ''/ch/backup/b/metadata/db/t.json''), snd (download dl_broken_env dl_opts []))"
    by (metis prod.collapse)
  have same: "load_completed_keys dl_broken_env dl_opts [] = {}" by code_simp
  have fields: "de_exists dl_broken_env = de_exists dl_env" "de_canonicalize dl_broken_env = de_canonicalize dl_env"
    "de_uni dl_broken_env = de_uni dl_env" by (simp_all add: dl_broken_env_def)
  have dirs: "part_dir dl_broken_env = part_dir dl_env" "table_metadata_path dl_broken_env = table_metadata_path dl_env"
    unfolding part_dir_def [abs_def] part_shadow_dir_def resolve_download_target_dir_def table_metadata_path_def [abs_def] fields
    by (rule refl)+
  have "download_apart dl_broken_env dl_opts dl_manifest = download_apart dl_env dl_opts dl_manifest"
    by (simp add: fun_eq_iff download_apart_def item_ok_def part_ok_def beside_parts_def dirs) (simp add: dl_broken_env_def)
  then have "download_apart dl_broken_env dl_opts dl_manifest (plan_download (load_completed_keys dl_broken_env dl_opts []) dl_manifest)"
    using dl_apart same by simp
  then have "\<And>bytes m. de_get dl_broken_env (do_backup_name dl_opts @ ''/metadata.json'') 0 = Inr bytes \<Longrightarrow>
      de_parse_manifest dl_broken_env bytes = Some m \<Longrightarrow> download_apart dl_broken_env dl_opts m (plan_download (load_completed_keys dl_broken_env dl_opts []) m)"
    by (auto simp: dl_broken_env_def dl_env_def split: if_splits)
  note d = failed_download_without_manifest[OF run this]
  have "de_write dl_broken_env (manifest_path dl_opts) = Written" by (simp add: dl_broken_env_def dl_paths)
  then show ?thesis using d f dl_paths(2) by simp
qed

section \<open>Where the code does something else than it says\<close>

lemma run_each_in: "run_each task items s = (rs, s') \<Longrightarrow> i \<in> set items \<Longrightarrow> \<exists>s0. (i, fst (task i s0)) \<in> set rs"
proof (induction items arbitrary: s rs)
  case (Cons j items)
  obtain r s1 where "task j s = (r, s1)" by (metis surj_pair)
  with Cons show ?case by (cases "i = j") (auto split: prod.splits intro: exI[of _ s])
qed simp

lemma failing_part_fails_download:
  assumes "i \<in> set items" and "mset (de_schedule env items) = mset items"
    and "\<And>st. isl (fst (download_part env opts m i st))"
  shows "fst (download_parts env opts m items st) \<noteq> None"
proof
  assume none: "fst (download_parts env opts m items st) = None"
  obtain rs fs1 resume where r: "run_each (download_part env opts m) (de_schedule env items) st = (rs, fs1, resume)"
    by (metis surj_pair)
  have "i \<in> set (de_schedule env items)" using assms(1) mset_eq_setD[OF assms(2)] by simp
  then obtain q where q: "(i, q) \<in> set rs" "isl q" using run_each_in[OF r] assms(3) by blast
  have "List.map_filter (\<lambda>(_, r). case r of Inl e \<Rightarrow> Some e | Inr _ \<Rightarrow> None)
      (concat (map (\<lambda>item. filter (\<lambda>x. fst x = item) rs) items)) = []"
    using none r by (auto simp: download_parts_def split: list.splits)
  moreover have "(i, q) \<in> set (concat (map (\<lambda>item. filter (\<lambda>x. fst x = item) rs) items))" using q(1) assms(1) by auto
  ultimately have "(case q of Inl e \<Rightarrow> Some e | Inr _ \<Rightarrow> None) = None" unfolding map_filter_empty by fast
  then show False using q(2) by (cases q) auto
qed

lemma undecodable_part:
  assumes "\<not> dw_is_s3_disk_part i" and "\<not> do_hardlink_exists_files opts"
    and "de_get env (pi_backup_key (dw_part i)) 0 = Inr archive"
    and "snd (de_unpack env (bm_data_format m) archive) \<noteq> None"
  shows "isl (fst (download_part env opts m i st))"
proof -
  obtain fs resume r fs' where st: "st = (fs, resume)" and run: "download_local_part env opts m i fs = (r, fs')" by (metis surj_pair)
  have "isl r"
    using run
  proof (cases rule: download_local_partE)
    case (fetched fs0)
    let ?d = "decompress_part_file env archive (part_shadow_dir env opts (bm_disks m) i) (bm_data_format m) fs0"
    have "fst ?d \<noteq> None" using assms(4) unfolding decompress_part_file_def by (simp add: case_prod_beta)
    then obtain e fs1 where d: "?d = (Some e, fs1)" by (cases ?d) auto
    have "(if pi_checksum_crc64 (dw_part i) \<noteq> 0 then do_retries opts + 1 else 1) = Suc (if pi_checksum_crc64 (dw_part i) \<noteq> 0 then do_retries opts else 0)"
      by simp
    then show ?thesis using fetched(3) assms(3) d by auto
  qed (use assms(2) in auto)
  then show ?thesis using run st assms(1) by (cases r) (auto simp: download_part_def)
qed

text \<open>
  C40. A backup that carries parts of a base with another compression format cannot be downloaded. The published
  manifest records the format of the last upload only, and the download unpacks the carried archives, which
  the base stored in its own format, with it: when that fails, the whole download fails.
\<close>

theorem carried_format_mismatch:
  assumes "manifest_ok cur" and "names_distinct cur"
    and up: "upload_inner uenv put copy (Some base) completed cur = Inr m'"
    and c: "(k, d, c) \<in> set (live_parts cur)" "base_part base k d (pi_name c) = Some q" "pi_checksum_crc64 c = pi_checksum_crc64 q"
    and q: "pi_backup_key q \<noteq> []" "pi_s3_objects q = None"
    and get: "de_get env (pi_backup_key q) 0 = Inr archive" "snd (de_unpack env (ue_data_format uenv) archive) \<noteq> None"
    and "\<not> do_use_resume opts" and "\<not> do_hardlink_exists_files opts" and perm: "\<forall>items. mset (de_schedule env items) = mset items"
  shows "bm_data_format m' = ue_data_format uenv \<and> fst (download_manifest env opts m' fs) \<noteq> None"
proof -
  let ?p = "carry_part base k d c"
  have p: "?p = c\<lparr>pi_source := ''carried:'' @ bm_name base, pi_backup_key := pi_backup_key q, pi_s3_objects := pi_s3_objects q\<rparr>"
    using c(2,3) by (simp add: carry_part_def)
  obtain plan rs where plan: "plan_upload uenv completed (after_diff (Some base) cur) = Inr plan"
    and rs: "run_uploads uenv put copy plan = Inr rs" and m': "live_parts m' = live_parts (apply_results rs (after_diff (Some base) cur))"
    using up by (rule upload_innerE)
  have fmt: "bm_data_format m' = ue_data_format uenv"
    using up by (auto simp: upload_inner_def finish_manifest_def Let_def split: sum.splits)
  have "(k, d, ?p) \<in> set (live_parts (after_diff (Some base) cur))" using c(1) by (force simp: after_diff_def live_parts_diff)
  moreover have "plan_part uenv completed (after_diff (Some base) cur) (k, d, ?p) = Inr CarriedSkip"
    by (simp add: plan_part_skip(1) p)
  ultimately have live: "(k, d, ?p) \<in> set (live_parts m')" unfolding m' in_uploaded[OF assms(1,2) plan rs] by simp
  have "(k, d, ?p) \<in> set (map (\<lambda>i. (dw_table_key i, DownloadWorkItem.dw_disk_name i, dw_part i)) (plan_download {} m'))"
    unfolding plan_download_parts using live q(1) by (simp add: p)
  then obtain i where i: "i \<in> set (plan_download {} m')" "dw_part i = ?p" by auto
  have s3: "\<not> dw_is_s3_disk_part i"
    using i q(2) by (auto simp: plan_download_def p split: if_splits)
  have none: "load_completed_keys env opts fs = {}" using assms(11) by (simp add: load_completed_keys_def)
  have fails: "fst (download_parts env opts m' (plan_download {} m') st) \<noteq> None" for st
    using undecodable_part[OF s3 assms(12), of env archive m'] get i(2) fmt
    by (intro failing_part_fails_download[OF i(1)]) (use perm in \<open>auto simp: p\<close>)
  have "download_manifest env opts m' fs \<noteq> (None, fs')" for fs'
  proof
    assume "download_manifest env opts m' fs = (None, fs')"
    then show False
    proof (cases rule: download_manifestE)
      case (run fs1 resume e1 fs2)
      then show False using fails[of "(fs1, resume)"] none by (cases e1) auto
    qed simp
  qed
  then show ?thesis using fmt by (metis prod.collapse)
qed

theorem carried_format_mismatch_witness:
  "\<exists>m'. upload_inner (sample_env\<lparr>ue_backup_name := ''c'', ue_data_format := ''zstd''\<rparr>) (\<lambda>_. Inr 5) (\<lambda>_. Inr ()) (Some (sample_published {})) {}
        (manifest_with_part ''c'' (PartInfo_new ''all_1_1_0'' 10 7)) = Inr m'
      \<and> fst (download_manifest dl_env dl_opts m' []) \<noteq> None"
proof -
  let ?c = "PartInfo_new ''all_1_1_0'' 10 7" and ?cur = "manifest_with_part ''c'' (PartInfo_new ''all_1_1_0'' 10 7)"
  let ?q = "(PartInfo_new ''all_1_1_0'' 10 7)\<lparr>pi_backup_key := ''b/data/db/t/all_1_1_0.tar.lz4'', pi_backup_size := 5\<rparr>"
  let ?up = "upload_inner (sample_env\<lparr>ue_backup_name := ''c'', ue_data_format := ''zstd''\<rparr>) (\<lambda>_. Inr 5) (\<lambda>_. Inr ()) (Some (sample_published {})) {} ?cur"
  have "\<not> isl ?up" by code_simp
  then obtain m' where up: "?up = Inr m'" by (cases ?up) auto
  have live: "live_parts ?cur = [(''db.t'', ''default'', ?c)]" by code_simp
  have "manifest_ok ?cur" by code_simp
  moreover have "names_distinct ?cur" "(''db.t'', ''default'', ?c) \<in> set (live_parts ?cur)" using live by (simp_all add: names_distinct_def)
  moreover have "base_part (sample_published {}) ''db.t'' ''default'' (pi_name ?c) = Some ?q" by code_simp
  moreover have "pi_checksum_crc64 ?c = pi_checksum_crc64 ?q" "pi_backup_key ?q \<noteq> []" "pi_s3_objects ?q = None"
    by (simp_all add: PartInfo_new_def)
  moreover have "de_get dl_env (pi_backup_key ?q) 0 = Inr ''corrupt''" "snd (de_unpack dl_env ''zstd'' ''corrupt'') \<noteq> None"
    by (simp_all add: dl_env_def PartInfo_new_def)
  moreover have "\<not> do_use_resume dl_opts" "\<not> do_hardlink_exists_files dl_opts" "\<forall>items. mset (de_schedule dl_env items) = mset items"
    by (simp_all add: dl_opts_def dl_env_def)
  ultimately have "fst (download_manifest dl_env dl_opts m' []) \<noteq> None"
    using carried_format_mismatch[OF _ _ up, where k = "''db.t''" and d = "''default''" and c = ?c and q = ?q and env = dl_env and archive = "''corrupt''" and opts = dl_opts and fs = "[]"]
    by simp
  then show ?thesis using up by blast
qed

lemma run_each_no_resume:
  "run_each (download_part env opts m) items (fs, None) = (rs, fs', resume') \<Longrightarrow>
   \<forall>i\<in>set items. item_ok env opts m i \<Longrightarrow> map_of fs' (download_state_path opts) = map_of fs (download_state_path opts)"
proof (induction items arbitrary: fs rs)
  case (Cons i items)
  obtain r fs1 resume1 where p: "download_part env opts m i (fs, None) = (r, fs1, resume1)" by (metis surj_pair)
  have ok: "part_ok env m i" "\<not> under (part_dir env opts (bm_disks m) i) (download_state_path opts)"
    using Cons.prems(2) by (simp_all add: item_ok_def)
  from download_part_changes(2)[OF ok(1) p refl]
  have "resume1 = None" "map_of fs1 (download_state_path opts) = map_of fs (download_state_path opts)"
    using ok(2) by (simp_all add: changes_only_def)
  then show ?case using Cons.IH[of fs1] Cons.prems p by (auto split: prod.splits)
qed simp

text \<open>
  A download without resume leaves its state file behind when it succeeds: the file that was written to
  record the disks is removed only by resumed downloads.
\<close>

lemma download_state_left:
  assumes run: "download env opts fs = (Inr dir, fs')"
    and m: "de_get env (do_backup_name opts @ ''/metadata.json'') 0 = Inr bytes" "de_parse_manifest env bytes = Some m"
    and apart: "download_apart env opts m (plan_download {} m)" and nb: "\<not> beside_parts env opts m (download_state_path opts)"
    and no_resume: "\<not> do_use_resume opts" and disks: "bm_disks m \<noteq> []" and w: "de_write env (download_state_path opts) = Written"
  shows "map_of fs' (download_state_path opts) = Some (File (de_print_state env (download_state opts m {})))"
proof -
  have none: "load_completed_keys env opts fs = {}" using no_resume by (simp add: load_completed_keys_def)
  have man: "download_manifest env opts m fs = (None, fs')"
    using run m by (auto simp: download_def split: prod.splits option.splits)
  then obtain fs2 where p: "download_parts env opts m (plan_download {} m) (save_disk_map env opts m fs, None) = (None, fs2)"
    and fin: "finish_download env opts m fs2 = (None, fs')"
    using no_resume none by (auto simp: download_manifest_def Let_def split: option.splits if_splits elim!: bind_io_cases)
  obtain rs resume' where r: "run_each (download_part env opts m) (de_schedule env (plan_download {} m)) (save_disk_map env opts m fs, None) = (rs, fs2, resume')"
    using download_parts_run[OF apart p] by blast
  have "\<forall>i\<in>set (de_schedule env (plan_download {} m)). item_ok env opts m i"
    using apart unfolding download_apart_schedule(1)[OF apart] by (simp add: download_apart_def)
  from run_each_no_resume[OF r this]
  have "map_of fs2 (download_state_path opts) = Some (File (de_print_state env (download_state opts m {})))"
    using disks w by (simp add: save_disk_map_def save_download_state_def update_conv')
  moreover have "map_of fs' (download_state_path opts) = map_of fs2 (download_state_path opts)"
  proof -
    obtain fs1 where b: "before_manifest env opts m fs2 = (None, fs1)"
      and c: "create_and_write env (manifest_path opts) (de_print_manifest env m) fs1 = (None, fs')"
      using fin no_resume unfolding finish_download_eq by (auto elim!: bind_io_cases)
    show ?thesis
      using before_manifest_changes[OF b] create_and_write_changes[of "\<lambda>p. p = manifest_path opts", OF refl c] nb state_path_manifest[of opts, symmetric]
      by (simp add: changes_only_def)
  qed
  ultimately show ?thesis by simp
qed

text \<open>
  A resumed download first forgets what was downloaded: the state it writes to record the disks has no
  completed keys, so a crash before the next part is complete loses all progress recorded so far.
\<close>

theorem resume_forgets_progress:
  assumes "bm_disks m \<noteq> []" and "de_write env (download_state_path opts) = Written"
    and "\<And>st. de_parse_state env (de_print_state env st) = Some st"
  shows "load_completed_keys env opts (save_disk_map env opts m fs) = {}"
  using assms by (simp add: load_completed_keys_def save_disk_map_def save_download_state_def update_conv' download_state_def)

text \<open>Names from the object store are sanitised to relative paths without dot components.\<close>

theorem sanitize_relative_path_safe:
  "\<not> starts_with (sanitize_relative_path input) ''/''
   \<and> path_components (sanitize_relative_path input) = filter (\<lambda>c. c \<noteq> ''..'') (path_components input)
   \<and> sanitize_relative_path (sanitize_relative_path input) = sanitize_relative_path input"
proof -
  let ?ok = "\<lambda>c. c \<noteq> [] \<and> c \<noteq> ''.'' \<and> c \<noteq> ''..''"
  have split: "split_on CHR ''/'' (join_with ''/'' cs) = (if cs = [] then [[]] else cs)" if "\<forall>c\<in>set cs. CHR ''/'' \<notin> set c" for cs
    using that
  proof (induction "''/''" cs rule: join_with.induct)
    case (3 x y ys)
    then show ?case using split_on_append_sep[of "CHR ''/''" x] by simp
  qed (simp_all add: split_on_no_sep)
  let ?cs = "filter ?ok (split_on CHR ''/'' input)"
  have ns: "\<forall>c\<in>set ?cs. CHR ''/'' \<notin> set c" using split_on_parts by fastforce
  have comps: "split_on CHR ''/'' (sanitize_relative_path input) = (if ?cs = [] then [[]] else ?cs)"
    unfolding sanitize_relative_path_def by (rule split[OF ns])
  have "path_components (sanitize_relative_path input) = ?cs"
    unfolding path_components_def comps by (cases "?cs = []") (simp_all add: filter_id_conv del: filter_filter)
  moreover have "?cs = filter (\<lambda>c. c \<noteq> ''..'') (path_components input)"
    by (auto simp: path_components_def intro: filter_cong)
  moreover have "sanitize_relative_path (sanitize_relative_path input) = sanitize_relative_path input"
    unfolding sanitize_relative_path_def[of "sanitize_relative_path input"] comps
    by (simp add: sanitize_relative_path_def)
  ultimately show ?thesis using sanitize_relative by metis
qed

text \<open>
  The name of a part is not: a manifest whose part name is an absolute path makes the download write
  outside the backup directory.
\<close>

theorem part_name_not_sanitized:
  assumes "starts_with (pi_name (dw_part item)) ''/''"
  shows "part_dir env opts disks item = pi_name (dw_part item)"
  using assms by (simp add: part_dir_def path_join_def)

end
