(* ===== verification/Auto_Resume.thy ===== *)
theory Auto_Resume
  imports Download Watch
begin

text \<open>
  Model of what \<^verbatim>\<open>src/server/state.rs\<close> does with state files when the server starts: which operations
  \<^verbatim>\<open>scan_resumable_state_files\<close> finds and which commands \<^verbatim>\<open>auto_resume\<close> spawns for them. Whether a
  spawned command gets its permit and its lock is the business of \<open>Server\<close> and \<open>Lock\<close>. The file system's
  answers and the reading of the parameter file are parameters.
\<close>

section \<open>Definitions\<close>

record ResumableOp =
  rop_backup_name :: string
  rop_op_type :: string

definition state_file_types :: "(string \<times> string) list" where
  "state_file_types =
     [(''upload.state.json'', ''upload''), (''download.state.json'', ''download''), (''restore.state.json'', ''restore'')]"

definition scan_entry :: "(string \<Rightarrow> bool) \<Rightarrow> (string \<Rightarrow> bool) \<Rightarrow> string \<Rightarrow> string \<Rightarrow> ResumableOp list" where
  "scan_entry is_dir exists backup_root backup_name =
     (let path = path_join backup_root backup_name
      in if \<not> is_dir path then []
         else if isl (validate_backup_name backup_name) then []
         else map (\<lambda>(_, op_type). \<lparr>rop_backup_name = backup_name, rop_op_type = op_type\<rparr>)
                (filter (\<lambda>(state_file, _). exists (path_join path state_file)) state_file_types))"

definition scan_resumable_state_files ::
    "(string \<Rightarrow> string list) \<Rightarrow> (string \<Rightarrow> bool) \<Rightarrow> (string \<Rightarrow> bool) \<Rightarrow> string \<Rightarrow> ResumableOp list" where
  "scan_resumable_state_files read_dir is_dir exists data_path =
     (let backup_root = path_join data_path ''backup''
      in concat (map (scan_entry is_dir exists backup_root) (read_dir backup_root)))"

text \<open>
  A spawned command with the arguments that differ: for an upload \<^verbatim>\<open>delete_local\<close> and the base of
  \<^verbatim>\<open>--diff-from-remote\<close>, for a download \<^verbatim>\<open>hardlink_exists_files\<close>, for a restore its parameters. All of
  them run with \<^verbatim>\<open>resume\<close>.
\<close>

datatype resumed_command =
  ResumeUpload string bool "string option"
| ResumeDownload string bool
| ResumeRestore string RestoreParams

definition resume_command :: "(string \<Rightarrow> RestoreParams option) \<Rightarrow> string \<Rightarrow> ResumableOp \<Rightarrow> resumed_command option" where
  "resume_command read_params data_path op =
     (let name = rop_backup_name op
      in if rop_op_type op = ''upload'' then Some (ResumeUpload name False None)
         else if rop_op_type op = ''download'' then Some (ResumeDownload name False)
         else if rop_op_type op = ''restore''
         then map_option (\<lambda>p. ResumeRestore name (p\<lparr>rp_rm := False\<rparr>))
                (read_params (restore_params_path (path_join (path_join data_path ''backup'') name)))
         else None)"

definition auto_resume ::
    "bool \<Rightarrow> (string \<Rightarrow> string list) \<Rightarrow> (string \<Rightarrow> bool) \<Rightarrow> (string \<Rightarrow> bool) \<Rightarrow> (string \<Rightarrow> RestoreParams option) \<Rightarrow> string
       \<Rightarrow> resumed_command list" where
  "auto_resume complete_resumable_after_restart read_dir is_dir exists read_params data_path =
     (if \<not> complete_resumable_after_restart then []
      else List.map_filter (resume_command read_params data_path) (scan_resumable_state_files read_dir is_dir exists data_path))"

section \<open>Properties\<close>

lemma in_map_filter_iff: "y \<in> set (List.map_filter f xs) \<longleftrightarrow> (\<exists>x\<in>set xs. f x = Some y)"
  by (induction xs) (auto simp: List.map_filter_simps split: option.splits)

lemma three:
  "(\<exists>n t. (t \<in> {u, d, r} \<and> P n t) \<and> F n t = c) \<longleftrightarrow> (\<exists>n. P n u \<and> F n u = c \<or> P n d \<and> F n d = c \<or> P n r \<and> F n r = c)"
  by blast

lemma pair_image: "(\<exists>f. (f, t) \<in> (\<lambda>t. (g t, t)) ` T \<and> Q f) \<longleftrightarrow> t \<in> T \<and> Q (g t)"
  by blast

lemma in_scan:
  "\<lparr>rop_backup_name = n, rop_op_type = t\<rparr> \<in> set (scan_resumable_state_files read_dir is_dir exists data_path) \<longleftrightarrow>
     n \<in> set (read_dir (path_join data_path ''backup'')) \<and> is_dir (path_join (path_join data_path ''backup'') n)
     \<and> validate_backup_name n = Inr () \<and> t \<in> {''upload'', ''download'', ''restore''}
     \<and> exists (path_join (path_join (path_join data_path ''backup'') n) (t @ ''.state.json''))"
proof -
  let ?root = "path_join data_path ''backup''"
  have v: "isl (validate_backup_name n) \<longleftrightarrow> validate_backup_name n \<noteq> Inr ()" by (cases "validate_backup_name n") auto
  have e: "\<lparr>rop_backup_name = n, rop_op_type = t\<rparr> \<in> set (scan_entry is_dir exists ?root n') \<longleftrightarrow>
      n' = n \<and> is_dir (path_join ?root n) \<and> validate_backup_name n = Inr ()
      \<and> (\<exists>f. (f, t) \<in> set state_file_types \<and> exists (path_join (path_join ?root n) f))" for n'
    unfolding scan_entry_def Let_def using v by (cases "n' = n") (auto simp: image_iff)
  have "set state_file_types = (\<lambda>t. (t @ ''.state.json'', t)) ` {''upload'', ''download'', ''restore''}"
    by (simp add: state_file_types_def)
  then have "(\<exists>f. (f, t) \<in> set state_file_types \<and> exists (path_join (path_join ?root n) f)) \<longleftrightarrow>
      t \<in> {''upload'', ''download'', ''restore''} \<and> exists (path_join (path_join ?root n) (t @ ''.state.json''))"
    by (simp only: pair_image)
  moreover have "\<lparr>rop_backup_name = n, rop_op_type = t\<rparr> \<in> set (scan_resumable_state_files read_dir is_dir exists data_path) \<longleftrightarrow>
      n \<in> set (read_dir ?root) \<and> is_dir (path_join ?root n) \<and> validate_backup_name n = Inr ()
      \<and> (\<exists>f. (f, t) \<in> set state_file_types \<and> exists (path_join (path_join ?root n) f))"
    unfolding scan_resumable_state_files_def Let_def by (simp add: e)
  ultimately show ?thesis by argo
qed


text \<open>
  C39. A finished download is downloaded again: after a successful download without resume, the next start of a
  server finds the state file it left and starts the download anew.
\<close>

theorem finished_download_resumed:
  assumes run: "download env opts fs = (Inr dir, fs')"
    and m: "de_get env (do_backup_name opts @ ''/metadata.json'') 0 = Inr bytes" "de_parse_manifest env bytes = Some m"
    and apart: "download_apart env opts m (plan_download {} m)" and nb: "\<not> beside_parts env opts m (download_state_path opts)"
    and "\<not> do_use_resume opts" and "bm_disks m \<noteq> []" and "de_write env (download_state_path opts) = Written"
    and name: "validate_backup_name (do_backup_name opts) = Inr ()"
    and root: "do_backup_name opts \<in> set (read_dir (path_join (do_data_path opts) ''backup''))"
    and dirs: "\<And>d p. p \<in> fst ` set fs' \<Longrightarrow> under d p \<Longrightarrow> is_dir d"
  shows "ResumeDownload (do_backup_name opts) False
    \<in> set (auto_resume True read_dir is_dir (\<lambda>p. p \<in> fst ` set fs') read_params (do_data_path opts))"
proof -
  have "map_of fs' (download_state_path opts) = Some (File (de_print_state env (download_state opts m {})))"
    by (rule download_state_left) (use assms in auto)
  then have ex: "download_state_path opts \<in> fst ` set fs'" by (force dest: map_of_SomeD)
  have n: "do_backup_name opts \<noteq> []" "CHR ''/'' \<notin> set (do_backup_name opts)" using name validate_backup_name_iff by auto
  have "download_state_path opts = download_backup_dir opts @ ''/download.state.json''"
    using path_join_name(2)[OF n, of "''download.state.json''"] by (simp add: download_state_path_def download_backup_dir_def)
  then have "is_dir (download_backup_dir opts)" using dirs[OF ex] by (simp add: under_def)
  then have "\<lparr>rop_backup_name = do_backup_name opts, rop_op_type = ''download''\<rparr>
      \<in> set (scan_resumable_state_files read_dir is_dir (\<lambda>p. p \<in> fst ` set fs') (do_data_path opts))"
    unfolding in_scan using root name ex by (simp add: download_backup_dir_def download_state_path_def)
  then show ?thesis
    unfolding auto_resume_def by (auto simp: in_map_filter_iff resume_command_def Let_def intro!: bexI)
qed

definition disk_manifest :: BackupManifest where
  "disk_manifest = dl_manifest\<lparr>bm_disks := [(''default'', ''/ch'')]\<rparr>"

definition disk_env :: download_env where
  "disk_env = dl_env\<lparr>de_parse_manifest := (\<lambda>_. Some disk_manifest)\<rparr>"

definition disk_files :: "fsys \<Rightarrow> download_error option \<times> fsys" where
  "disk_files fs = bind_io (download_parts disk_env dl_opts disk_manifest (plan_download {} disk_manifest) (fs, None))
     (finish_download disk_env dl_opts disk_manifest)"

lemma disk_run:
  "download disk_env dl_opts [] = (Inr (download_backup_dir dl_opts), snd (disk_files [(download_state_path dl_opts, File ''S'')]))"
proof -
  have "fst (disk_files [(download_state_path dl_opts, File ''S'')]) = None" by code_simp
  then obtain fs' where d: "disk_files [(download_state_path dl_opts, File ''S'')] = (None, fs')"
    by (metis prod.collapse)
  have "space_preflight disk_env dl_opts disk_manifest [] = None" "load_completed_keys disk_env dl_opts [] = {}" by code_simp+
  moreover have "save_disk_map disk_env dl_opts disk_manifest [] = [(download_state_path dl_opts, File ''S'')]"
    by (simp add: save_disk_map_def save_download_state_def disk_manifest_def disk_env_def dl_env_def)
  moreover have "de_mkdir_ok disk_env d" "do_use_resume dl_opts = False" for d by (simp_all add: disk_env_def dl_env_def dl_opts_def)
  ultimately have "download_manifest disk_env dl_opts disk_manifest [] = disk_files [(download_state_path dl_opts, File ''S'')]"
    by (simp add: download_manifest_def disk_files_def)
  moreover have "de_get disk_env (do_backup_name dl_opts @ ''/metadata.json'') 0 = Inr ''M''" "de_parse_manifest disk_env ''M'' = Some disk_manifest"
    by (simp_all add: disk_env_def dl_env_def dl_opts_def)
  ultimately show ?thesis unfolding d by (simp add: download_def)
qed

lemma disk_apart:
  "download_apart disk_env dl_opts disk_manifest (plan_download {} disk_manifest)"
  "\<not> beside_parts disk_env dl_opts disk_manifest (download_state_path dl_opts)"
proof -
  have dir: "map (part_dir disk_env dl_opts (bm_disks disk_manifest)) (plan_download {} disk_manifest) = [''/ch/backup/b/shadow/db/t/all_1_1_0'']"
    "map dw_part (plan_download {} disk_manifest) = [dl_part]" by code_simp+
  then obtain i where i: "plan_download {} disk_manifest = [i]" "dw_part i = dl_part"
    "part_dir disk_env dl_opts (bm_disks disk_manifest) i = ''/ch/backup/b/shadow/db/t/all_1_1_0''"
    by (auto simp: Cons_eq_map_conv map_eq_Cons_conv)
  have "table_metadata_path disk_env = table_metadata_path dl_env" "bm_tables disk_manifest = bm_tables dl_manifest"
    by (simp_all add: fun_eq_iff table_metadata_path_def disk_env_def disk_manifest_def)
  then have b: "beside_parts disk_env dl_opts disk_manifest p = beside_parts dl_env dl_opts dl_manifest p" for p
    by (simp add: beside_parts_def)
  have "part_ok disk_env disk_manifest i"
    by (auto simp: part_ok_def i dl_part_def PartInfo_new_def disk_env_def dl_env_def disk_manifest_def dl_manifest_def split: if_splits)
  moreover have "de_schedule disk_env [i] = [i]" by (simp add: disk_env_def dl_env_def)
  moreover have "\<not> beside_parts dl_env dl_opts dl_manifest p" if "under ''/ch/backup/b/shadow/db/t/all_1_1_0'' p" for p
    using that by (auto simp: dl_beside under_def prefix_def)
  ultimately show "download_apart disk_env dl_opts disk_manifest (plan_download {} disk_manifest)"
    unfolding download_apart_def i(1) b by (simp add: item_ok_def i dl_paths dl_beside under_def)
  show "\<not> beside_parts disk_env dl_opts disk_manifest (download_state_path dl_opts)"
    unfolding b dl_beside dl_paths by (simp add: under_def)
qed

theorem finished_download_resumed_witness:
  "ResumeDownload ''b'' False \<in> set (auto_resume True (\<lambda>_. [''b'']) (\<lambda>_. True)
     (\<lambda>p. p \<in> fst ` set (snd (disk_files [(download_state_path dl_opts, File ''S'')]))) (\<lambda>_. None) ''/ch'')"
proof -
  have "de_get disk_env (do_backup_name dl_opts @ ''/metadata.json'') 0 = Inr ''M''" "de_parse_manifest disk_env ''M'' = Some disk_manifest"
    "\<not> do_use_resume dl_opts" "bm_disks disk_manifest \<noteq> []" "de_write disk_env (download_state_path dl_opts) = Written"
    by (simp_all add: disk_env_def dl_env_def dl_opts_def disk_manifest_def)
  moreover have "validate_backup_name (do_backup_name dl_opts) = Inr ()" by code_simp
  moreover have o: "do_backup_name dl_opts = ''b''" "do_data_path dl_opts = ''/ch''" by (simp_all add: dl_opts_def)
  ultimately show ?thesis
    using finished_download_resumed[OF disk_run _ _ disk_apart, of "''M''" "\<lambda>_. [''b'']" "\<lambda>_. True" "\<lambda>_. None"] by simp
qed

end
