(* ===== verification/Spec2Isabelle.thy ===== *)
theory Spec2Isabelle
  imports Path_Encoding Table_Filter Diff Part_Sort Listing Retention Object_Disk S3_Client Upload Lock Topo Server Freeze Deferred
    Collect Create Watch Remap Schema Resume Attach Restore Download Auto_Resume
begin

text \<open>
  chbackup (\<^verbatim>\<open>src/src\<close>, Rust) backs up ClickHouse to S3: it freezes tables, collects
  their parts into a local backup with a manifest, uploads parts and manifest, restores them, and
  retires old backups. A backup may be incremental: parts that the base already holds are carried,
  that is, the new manifest names the key of the base. Commands come from the command line, from an
  HTTP server and from a watch loop, and are kept apart by lock files and by the operation table of
  the server.

  \<^bold>\<open>Theories, in the order of the program.\<close>

  \<^item> \<open>Prelude\<close>: byte strings and the standard-library functions the code uses on them, decimal
    numbers, saturating words, error traversal, stable sorting, and the interfaces shared by the
    components: \<open>codec\<close> (encode/decode pairs), \<open>total_preorder\<close> (comparisons for stable sorts) and
    \<open>inv_system\<close> (a step relation with an invariant).
  \<^item> \<open>Path_Encoding\<close> (\<^verbatim>\<open>path_encoding.rs\<close>), \<open>Table_Filter\<close> (\<^verbatim>\<open>table_filter.rs\<close>), \<open>Manifest\<close>
    (the data of \<^verbatim>\<open>manifest.rs\<close>): names and data.
  \<^item> \<open>Diff\<close> (\<^verbatim>\<open>backup/diff.rs\<close>), \<open>Part_Sort\<close> (\<^verbatim>\<open>restore/sort.rs\<close>), \<open>Topo\<close>
    (\<^verbatim>\<open>restore/topo.rs\<close>): which parts are carried, and the orders in which parts are attached and
    tables created and dropped.
  \<^item> \<open>Object_Disk\<close> (\<^verbatim>\<open>object_disk.rs\<close>, part of \<^verbatim>\<open>restore/attach.rs\<close>), \<open>S3_Client\<close>
    (\<^verbatim>\<open>storage/s3.rs\<close>), \<open>Upload\<close> (\<^verbatim>\<open>upload/mod.rs\<close> and the work list of
    \<^verbatim>\<open>download/mod.rs\<close>): the metadata of S3 disks, copies with deadlines and retries, and the
    way from the local manifest to the published one.
  \<^item> \<open>Listing\<close> and \<open>Retention\<close> (\<^verbatim>\<open>list.rs\<close>): remote listing and its cache, shortcuts, retention,
    deletion and the removal of broken backups.
  \<^item> \<open>Lock\<close> (\<^verbatim>\<open>lock.rs\<close>), \<open>Server\<close> (\<^verbatim>\<open>server/actions.rs\<close>, \<^verbatim>\<open>server/state.rs\<close>),
    \<open>Freeze\<close> (names and SQL of \<^verbatim>\<open>clickhouse/client.rs\<close>, shadow cleanup of \<^verbatim>\<open>list.rs\<close>), \<open>Watch\<close>
    (\<^verbatim>\<open>watch/mod.rs\<close>): what runs when, and what it may remove.
  \<^item> \<open>Collect\<close> (\<^verbatim>\<open>backup/collect.rs\<close>), \<open>Create\<close> (\<^verbatim>\<open>backup/mod.rs\<close>), \<open>Deferred\<close>
    (\<^verbatim>\<open>backup/deferred.rs\<close>, \<^verbatim>\<open>backup/freeze.rs\<close>): freezing the tables, walking the shadow
    directories on all disks and staging the parts, and the records that keep the freezes of object disks
    until their upload has ended.
  \<^item> \<open>Remap\<close> (\<^verbatim>\<open>restore/remap.rs\<close>), \<open>Schema\<close> (\<^verbatim>\<open>restore/schema.rs\<close>), \<open>Attach\<close>
    (\<^verbatim>\<open>restore/attach.rs\<close>), \<open>Resume\<close> (\<^verbatim>\<open>resume.rs\<close>), \<open>Restore\<close> (\<^verbatim>\<open>restore/mod.rs\<close>):
    the rewriting of statements, dropping and creating, attaching of parts, state files, and the phases of
    a restore from the manifest to its verdict.
  \<^item> \<open>Download\<close> (\<^verbatim>\<open>download/mod.rs\<close>, \<^verbatim>\<open>download/stream.rs\<close>), \<open>Auto_Resume\<close>
    (\<^verbatim>\<open>server/state.rs\<close>): the download over a file system, with its space check, the verification of
    every part and the state file, and what the server resumes when it starts.

  \<^bold>\<open>How code becomes definitions.\<close> Structs are records with a prefix per record, enums are
  datatypes, \<^verbatim>\<open>BTreeMap\<close>s are key-ordered association lists and \<^verbatim>\<open>HashMap\<close>s that are only read
  by key are maps or association lists. \<^verbatim>\<open>u64\<close> and \<^verbatim>\<open>u32\<close> are words where their width matters;
  counters and ids that only go up are natural numbers. Errors are the left summand of a sum, and a
  panic is one of them where the code can reach it. What is not under \<^verbatim>\<open>src\<close> (S3, ClickHouse,
  the file system, the glob crate, the Unicode tables, the clock) is a parameter, and what is relied
  upon is a premise. Concurrency is explicit: \<open>Lock\<close> and \<open>Server\<close> are transition systems over the
  atomic steps of the code, and \<open>Lock\<close> also shows single acquisitions under interference.

  \<^bold>\<open>What is shown.\<close> Retention and the removal of broken backups never delete a key that a surviving
  or valid manifest refers to, fail closed, and delete a manifest only after its data; however long
  a chain of incremental uploads, the data of a carried part is safe while a manifest of the chain
  survives (this theory). Uploads publish every part with its key. The two lock tiers and the
  operations of the server exclude each other in every reachable state. The dependency sort and the
  lock acquisition terminate. Encodings (paths, freeze names, object-disk metadata, part names, SQL
  identifiers) read back. Copies tile their object and respect the time and size limits. The watch
  loop decides by age and starts a new chain after an error.

  Creation: a collection holds every part of the walked disks exactly once, leaves out of the staging area
  exactly what the diff will carry, and no freeze is left on the server that is neither recorded nor
  refused; a recorded freeze is not lost by any interleaving of processes, and its hold ends. Restore: a
  success means that no table was refused, passed over or failed and no part was skipped; every part is
  accounted for by the replies of the server; deduplicating engines get their parts in block order; views
  and other objects are created whatever their order; a replicated table is created only after the check
  of its path; state files are replaced atomically under crashes. Download: a success delivered every part
  with its checksum, whatever the order of the tasks, and a failure leaves no manifest; a part that was
  uploaded and downloaded has all its files in the directory that the restore resolves (this theory).

  \<^bold>\<open>Where the code does something else than it says.\<close> Some properties state defects: parts lost by a
  resumed upload, data orphaned by a partial deletion, the race of a stale-lock takeover, a queued
  operation refused because of another queued one, a lock held during the sleep of the watch loop,
  the collision of legacy freeze prefixes, a setting overwritten by the rewriting of a replication path,
  functions that ignore the configured cluster, a replica check misled by a column name, the source
  replica dropped by ATTACH TABLE mode under a remap, parts a resumed restore takes for attached, the name
  that reaping does not check, carried archives that are read in the wrong format, finished downloads that
  the server starts again. They hold of the definitions as they are.

  \<^bold>\<open>Bounds and fuel.\<close> No definition uses fuel of its own choosing: retry and acquisition loops are
  bounded by the constants of the code (the ten rounds of dropping and creating among them), Kahn's loop is a partial function shown to return, and the
  other recursions are structural or have a measure.

  \<^bold>\<open>Not modelled.\<close> Pure input and output (HTTP, S3 transport, compression, logging, progress, metrics),
  serde, the command line and most of configuration loading. Of the download the temporary archive, the rate
  limit and cancellation are left out; of the restore, access rights, configuration files and the copying of S3 objects are parameters, and
  cancellation is left out; of creation, mutation and replica waits.
\<close>

section \<open>Incremental chains and retention\<close>

text \<open>
  \<open>carried_along m0 k d p m q\<close>: the part \<open>p\<close> of table \<open>k\<close> and disk \<open>d\<close> in the published
  manifest \<open>m0\<close> is still current in \<open>m\<close>, as \<open>q\<close>, after a chain of incremental uploads each taking
  the previous published manifest as its base.
\<close>

inductive carried_along ::
    "BackupManifest \<Rightarrow> string \<Rightarrow> string \<Rightarrow> PartInfo \<Rightarrow> BackupManifest \<Rightarrow> PartInfo \<Rightarrow> bool" for m0 k d p where
  first: "(k, d, p) \<in> set (live_parts m0) \<Longrightarrow> carried_along m0 k d p m0 p"
| incremental: "carried_along m0 k d p m q \<Longrightarrow>
    manifest_ok cur \<Longrightarrow> names_distinct cur \<Longrightarrow>
    upload_inner env put_part copy_objects (Some m) completed cur = Inr m' \<Longrightarrow>
    (k, d, c) \<in> set (live_parts cur) \<Longrightarrow> base_part m k d (pi_name c) = Some q \<Longrightarrow>
    pi_checksum_crc64 c = pi_checksum_crc64 q \<Longrightarrow>
    carried_along m0 k d p m' (carry_part m k d c)"

text \<open>However long the chain, the last manifest still names the keys of the first.\<close>

lemma carried_along_keys:
  "carried_along m0 k d p m q \<Longrightarrow> (k, d, q) \<in> set (live_parts m) \<and> part_keys q = part_keys p"
proof (induction rule: carried_along.induct)
  case (incremental m q cur env put_part copy_objects completed m' c)
  let ?q = "carry_part m k d c"
  have "(k, d, ?q) \<in> set (live_parts (after_diff (Some m) cur))"
    using incremental.hyps(5) by (force simp: after_diff_def live_parts_diff)
  moreover have q: "?q = c\<lparr>pi_source := ''carried:'' @ bm_name m, pi_backup_key := pi_backup_key q,
      pi_s3_objects := pi_s3_objects q\<rparr>"
    using incremental.hyps(6,7) by (simp add: carry_part_def)
  then have "plan_part env completed (after_diff (Some m) cur) (k, d, ?q) = Inr CarriedSkip"
    by (simp add: plan_part_skip(1))
  moreover obtain plan rs where "plan_upload env completed (after_diff (Some m) cur) = Inr plan"
    and "run_uploads env put_part copy_objects plan = Inr rs"
    and "live_parts m' = live_parts (apply_results rs (after_diff (Some m) cur))"
    using incremental.hyps(4) by (rule upload_innerE)
  ultimately have "(k, d, ?q) \<in> set (live_parts m')"
    using in_uploaded[OF incremental.hyps(2,3)] by simp
  moreover have "part_keys ?q = part_keys p"
    using incremental.IH q by (simp add: part_keys_def)
  ultimately show ?case by simp
qed simp

lemma live_part_keys_collected:
  "(k, d, q) \<in> set (live_parts m) \<Longrightarrow> part_keys q \<subseteq> collect_key_prefixes_from_manifest m"
  using live_parts_manifest by (fastforce simp: collect_eq_part_keys)

text \<open>C2. Incremental chains survive retention: when a part was carried through any number of
  incremental backups and the last of them survives a retention pass, every stored key the first
  backup's manifest names for that part, exactly or through a directory entry, is still stored
  afterwards, even when the first backup and all intermediate ones are deleted in that pass.\<close>

theorem incremental_chain_safe:
  assumes "carried_along m0 k d p m q"
    and "deletes_only keys del" and "n \<in> set (rp_surviving plan)" and "fm w n = Inr m"
    and "part_needs p key" and "key \<in> keys w"
    and "list_all (\<lambda>c. key \<noteq> c @ ''/metadata.json'') (rp_to_delete plan)"
  shows "key \<in> keys (snd (retention_remote_inner plan fm lp del w))"
proof -
  have "part_keys p \<subseteq> collect_key_prefixes_from_manifest m"
    using carried_along_keys[OF assms(1)] live_part_keys_collected by metis
  with assms(5)[unfolded part_needs_protected] have "is_key_protected key (collect_key_prefixes_from_manifest m)"
    by (rule s3_guard.protects_mono)
  then show ?thesis
    by (intro survivor_keys_kept[where fm = fm and w = w and n = n, OF assms(2-4)]) (use assms(6,7) in simp_all)
qed

definition sample_incremental :: BackupManifest where
  "sample_incremental = finish_manifest ''lz4'' (manifest_with_part ''c''
     ((PartInfo_new ''all_1_1_0'' 10 7)\<lparr>pi_source := ''carried:b'', pi_backup_key := ''b/data/db/t/all_1_1_0.tar.lz4''\<rparr>))"

theorem incremental_chain_safe_witness:
  "''b/data/db/t/all_1_1_0.tar.lz4'' \<in> set (snd (retention_remote_inner
     \<lparr>rp_to_delete = [''b''], rp_surviving = [''c'']\<rparr> (\<lambda>_ _. Inr sample_incremental) mem_list mem_delete
     [''b/data/db/t/all_1_1_0.tar.lz4'', ''b/metadata.json'', ''c/metadata.json'']))"
proof -
  let ?p = "(PartInfo_new ''all_1_1_0'' 10 7)\<lparr>pi_backup_key := ''b/data/db/t/all_1_1_0.tar.lz4'', pi_backup_size := 5\<rparr>"
  let ?c = "PartInfo_new ''all_1_1_0'' 10 7" and ?cur = "manifest_with_part ''c'' (PartInfo_new ''all_1_1_0'' 10 7)"
  have "(''db.t'', ''default'', ?p) \<in> set (live_parts (sample_published {}))" by code_simp
  then have 1: "carried_along (sample_published {}) ''db.t'' ''default'' ?p (sample_published {}) ?p"
    by (rule carried_along.first)
  have "live_parts ?cur = [(''db.t'', ''default'', ?c)]" by code_simp
  then have "names_distinct ?cur" and "(''db.t'', ''default'', ?c) \<in> set (live_parts ?cur)" by (simp_all add: names_distinct_def)
  moreover have "manifest_ok ?cur" by code_simp
  moreover have "upload_inner (sample_env\<lparr>ue_backup_name := ''c''\<rparr>) (\<lambda>_. Inr 5) (\<lambda>_. Inr ()) (Some (sample_published {})) {} ?cur
      = Inr sample_incremental" by code_simp
  moreover have "base_part (sample_published {}) ''db.t'' ''default'' (pi_name ?c) = Some ?p" by code_simp
  moreover have "pi_checksum_crc64 ?c = pi_checksum_crc64 ?p" by code_simp
  ultimately have chain: "carried_along (sample_published {}) ''db.t'' ''default'' ?p sample_incremental
      (carry_part (sample_published {}) ''db.t'' ''default'' ?c)"
    using carried_along.incremental[OF 1] by blast
  show ?thesis
    by (rule incremental_chain_safe[OF chain mem_store(1), where n = "''c''"])
      (auto simp: part_needs_def part_keys_def)
qed

section \<open>From staged parts to restored parts\<close>

text \<open>The directory of a downloaded part is the one a restore resolves.\<close>

lemma path_join_prefix: "s \<noteq> [] \<Longrightarrow> \<not> starts_with y ''/'' \<Longrightarrow> path_join (c @ s) y = c @ path_join s y"
  by (auto simp: path_join_def slash_suffix)

lemma path_join_shadow:
  assumes "CHR ''/'' \<notin> set db" and "CHR ''/'' \<notin> set table" and "part \<noteq> []" and "CHR ''/'' \<notin> set part"
  shows "path_join t (shadow_suffix db table part) = path_join (path_join (path_join (path_join t ''shadow'') db) table) part"
proof -
  have rel: "\<not> starts_with x ''/''" if "CHR ''/'' \<notin> set x" for x using that by (cases x) auto
  define c where "c = (if t = [] then [] else if ends_with t ''/'' then t else t @ ''/'')"
  have c: "path_join t ''shadow'' = c @ ''shadow''" "path_join t (''shadow'' @ r) = c @ ''shadow'' @ r" for r
    by (simp_all add: path_join_def c_def)
  have sh: "path_join ''shadow'' db = ''shadow'' @ ''/'' @ db" "path_join ''shadow'' db \<noteq> []"
    using rel[OF assms(1)] by (simp_all add: path_join_def slash_suffix)
  have 2: "path_join (path_join ''shadow'' db) table \<noteq> []" using sh(2) by (auto simp: path_join_def)
  have pre: "\<exists>r. path_join (''shadow'' @ x) y = ''shadow'' @ r" if "CHR ''/'' \<notin> set y" for x y
    using rel[OF that] by (cases "ends_with (''shadow'' @ x) ''/''") (simp_all add: path_join_def)
  obtain r where r: "shadow_suffix db table part = ''shadow'' @ r"
    using pre[OF assms(2), of "''/'' @ db"] pre[OF assms(4)] unfolding shadow_suffix_def sh(1) by metis
  have "path_join (path_join (path_join (c @ ''shadow'') db) table) part = c @ shadow_suffix db table part"
    using path_join_prefix[of "''shadow''" db c] path_join_prefix[OF sh(2) rel[OF assms(2)], of c]
      path_join_prefix[OF 2 rel[OF assms(4)], of c] rel[OF assms(1)] by (simp add: shadow_suffix_def)
  moreover have "path_join t (shadow_suffix db table part) = c @ shadow_suffix db table part" unfolding r by (rule c(2))
  ultimately show ?thesis unfolding c(1) by simp
qed

lemma upload_disks: "upload_inner env put copy diff completed m = Inr m' \<Longrightarrow> bm_disks m' = bm_disks m"
proof -
  have "bm_disks (fold merge_group gs m) = bm_disks m" for gs m
    by (induction gs arbitrary: m) (simp_all add: merge_group_def case_prod_beta)
  moreover have "bm_disks (after_diff diff m) = bm_disks m"
    by (cases diff) (simp_all add: after_diff_def diff_parts_def Let_def case_prod_beta)
  ultimately show "upload_inner env put copy diff completed m = Inr m' \<Longrightarrow> bm_disks m' = bm_disks m"
    by (auto simp: upload_inner_def finish_manifest_def apply_results_def Let_def split: sum.splits)
qed

lemma upload_format: "upload_inner env put copy diff completed m = Inr m' \<Longrightarrow> bm_data_format m' = ue_data_format env"
  by (auto simp: upload_inner_def finish_manifest_def Let_def split: sum.splits)

text \<open>A part on a local disk is published under its own key, and a download queues it.\<close>

lemma local_part_queued:
  assumes "manifest_ok m" and "names_distinct m" and up: "upload_inner env put copy None {} m = Inr m'"
    and p: "(k, d, p) \<in> set (live_parts m)" "\<not> starts_with (pi_source p) ''carried:''" "\<not> (disk_is_s3 m d \<and> pi_s3_objects p \<noteq> None)"
  obtains i where "i \<in> set (plan_download {} m')" and "dw_db i = fst (split_table_key k)" and "dw_table i = snd (split_table_key k)"
    and "DownloadWorkItem.dw_disk_name i = d" and "pi_name (dw_part i) = pi_name p"
    and "pi_backup_key (dw_part i) = s3_key_for_part (ue_uni env) (ue_backup_name env) (fst (split_table_key k)) (snd (split_table_key k))
           (pi_name p) (ue_data_format env)"
    and "\<not> dw_is_s3_disk_part i"
proof -
  let ?key = "s3_key_for_part (ue_uni env) (ue_backup_name env) (fst (split_table_key k)) (snd (split_table_key k)) (pi_name p) (ue_data_format env)"
  obtain plan rs where plan: "plan_upload env {} m = Inr plan" and rs: "run_uploads env put copy plan = Inr rs"
    and m': "live_parts m' = live_parts (apply_results rs m)"
    using upload_innerE[OF up] by (metis after_diff_def option.case(1))
  obtain w where w: "plan_part env {} m (k, d, p) = Inr (LocalItem w)" "uw_s3_key w = ?key"
    using plan_upload_items(3)[OF plan p(1)] p(2,3) by (auto simp: plan_part_def Let_def split: prod.splits option.splits if_splits)
  note item = plan_part_item(1)[OF w(1)]
  have wl: "w \<in> set (up_local plan)" unfolding plan_upload_items(1)[OF plan] using p(1) w(1) by blast
  obtain rs1 where rs1: "traverse (\<lambda>item. case put item of Inl e \<Rightarrow> Inl (TaskFailed e) | Inr n \<Rightarrow> Inr (local_result item n)) (up_local plan) = Inr rs1"
    and sub: "set rs1 \<subseteq> set rs" using rs by (auto simp: run_uploads_def split: sum.splits)
  have "\<exists>y\<in>set rs1. (case put w of Inl e \<Rightarrow> Inl (TaskFailed e) | Inr n \<Rightarrow> Inr (local_result w n)) = Inr y"
    by (rule traverse_set(2)[OF rs1 wl])
  then obtain n where "local_result w n \<in> set rs1" by (auto split: sum.splits)
  then have q: "(k, d, p\<lparr>pi_backup_key := ?key, pi_source := ''uploaded'', pi_backup_size := n\<rparr>) \<in> set rs"
    using sub item w(2) by (auto simp: local_result_def)
  let ?q = "p\<lparr>pi_backup_key := ?key, pi_source := ''uploaded'', pi_backup_size := n\<rparr>"
  have "(k, d, ?q) \<in> set (live_parts m')"
    using in_uploaded[OF assms(1,2), of env "{}" None plan put copy rs k d ?q] plan rs m' q by (simp add: after_diff_def)
  moreover have "?key \<noteq> []" by (simp add: s3_key_for_part_def)
  ultimately have "(k, d, ?q) \<in> set (map (\<lambda>i. (dw_table_key i, DownloadWorkItem.dw_disk_name i, dw_part i)) (plan_download {} m'))"
    unfolding plan_download_parts by simp
  then obtain i where i: "i \<in> set (plan_download {} m')" "dw_table_key i = k" "DownloadWorkItem.dw_disk_name i = d" "dw_part i = ?q" by auto
  have "bm_disk_types m' = bm_disk_types m"
  proof -
    have "bm_disk_types (fold merge_group gs m) = bm_disk_types m" for gs m
      by (induction gs arbitrary: m) (simp_all add: merge_group_def case_prod_beta)
    then show ?thesis using up by (auto simp: upload_inner_def after_diff_def finish_manifest_def apply_results_def Let_def split: sum.splits)
  qed
  then have "\<not> dw_is_s3_disk_part i" using i p(3) by (auto simp: plan_download_def disk_is_s3_def split: if_splits)
  moreover have "dw_db i = fst (split_table_key k)" "dw_table i = snd (split_table_key k)"
    using i(1,2) by (auto simp: plan_download_def split: if_splits)
  ultimately show thesis using i by (intro that[of i]) simp_all
qed

text \<open>
  Where a restore looks for a downloaded part: the directory of its disk when the download used it, and
  the backup directory when the disk is not on this host.
\<close>

lemma downloaded_part_resolved:
  assumes "CHR ''/'' \<notin> set (encode_component (de_uni env) (dw_db i))" "CHR ''/'' \<notin> set (encode_component (de_uni env) (dw_table i))"
    and "pi_name (dw_part i) \<noteq> []" "CHR ''/'' \<notin> set (pi_name (dw_part i))"
    and "exists (part_dir env opts disks i)"
    and "resolve_download_target_dir env disks (DownloadWorkItem.dw_disk_name i) (do_backup_name opts) (download_backup_dir opts)
           = download_backup_dir opts \<Longrightarrow> map_of disks (DownloadWorkItem.dw_disk_name i) = Some dp \<Longrightarrow>
         \<not> exists (path_join (per_disk_backup_dir (trim_end_char CHR ''/'' dp) (do_backup_name opts))
             (shadow_suffix (encode_component (de_uni env) (dw_db i)) (encode_component (de_uni env) (dw_table i)) (pi_name (dw_part i))))
         \<or> per_disk_backup_dir (trim_end_char CHR ''/'' dp) (do_backup_name opts) = download_backup_dir opts"
    and dp: "map_of disks (DownloadWorkItem.dw_disk_name i) = Some dp \<or> map_of disks (DownloadWorkItem.dw_disk_name i) = None"
  shows "resolve_shadow_part_path exists (download_backup_dir opts) disks (do_backup_name opts) (DownloadWorkItem.dw_disk_name i)
     (encode_component (de_uni env) (dw_db i)) (encode_component (de_uni env) (dw_table i)) pdb ptable (pi_name (dw_part i))
     = Some (part_dir env opts disks i)"
proof -
  let ?t = "resolve_download_target_dir env disks (DownloadWorkItem.dw_disk_name i) (do_backup_name opts) (download_backup_dir opts)"
  have dir: "part_dir env opts disks i = path_join ?t
      (shadow_suffix (encode_component (de_uni env) (dw_db i)) (encode_component (de_uni env) (dw_table i)) (pi_name (dw_part i)))"
    using path_join_shadow[OF assms(1-4)] by (simp add: part_dir_def part_shadow_dir_def)
  show ?thesis
  proof (cases "map_of disks (DownloadWorkItem.dw_disk_name i)")
    case None
    then have "?t = download_backup_dir opts" by (simp add: resolve_download_target_dir_def)
    then show ?thesis using None assms(5) dir by (simp add: resolve_shadow_part_path_def Let_def)
  next
    case (Some d)
    then have d: "d = dp" using dp by simp
    show ?thesis
    proof (cases "?t = per_disk_backup_dir (trim_end_char CHR ''/'' dp) (do_backup_name opts)")
      case True
      then show ?thesis using Some d assms(5) dir by (simp add: resolve_shadow_part_path_def Let_def)
    next
      case False
      then have t: "?t = download_backup_dir opts" using Some d by (auto simp: resolve_download_target_dir_def split: if_splits)
      then show ?thesis using False Some d assms(5,6) dir by (auto simp: resolve_shadow_part_path_def Let_def)
    qed
  qed
qed

text \<open>
  C4. What was backed up is what a restore finds. When an upload is published, each archive is stored as it was
  packed, and a later download of that backup succeeds, then for every part of the local manifest on a local
  disk the directory that the restore resolves holds every file that was packed, with its content.
\<close>

theorem backup_roundtrip:
  assumes "manifest_ok m" and "names_distinct m" and up: "upload_inner uenv put copy None {} m = Inr m'"
    and p: "(k, d, p) \<in> set (live_parts m)" "\<not> starts_with (pi_source p) ''carried:''" "\<not> (disk_is_s3 m d \<and> pi_s3_objects p \<noteq> None)"
    and stored: "\<And>attempt. de_get env (s3_key_for_part (ue_uni uenv) (ue_backup_name uenv) (fst (split_table_key k)) (snd (split_table_key k))
         (pi_name p) (ue_data_format uenv)) attempt = Inr archive"
    and packed: "de_unpack env (ue_data_format uenv) archive = (map (\<lambda>(rel, n). (pi_name p @ ''/'' @ rel, n)) files, None)"
      "distinct (map fst files)" "files \<noteq> []"
    and down: "download env opts fs = (Inr dir, fs')"
      "de_get env (do_backup_name opts @ ''/metadata.json'') 0 = Inr bytes" "de_parse_manifest env bytes = Some m'"
      "download_apart env opts m' (plan_download {} m')" "\<not> do_use_resume opts" "\<not> do_hardlink_exists_files opts"
    and names: "CHR ''/'' \<notin> set (encode_component (de_uni env) (fst (split_table_key k)))"
      "CHR ''/'' \<notin> set (encode_component (de_uni env) (snd (split_table_key k)))"
    and disk: "map_of (bm_disks m) d = Some dp" "de_exists env (trim_end_char CHR ''/'' dp)" "validate_disk_path (de_canonicalize env) dp"
  shows "\<exists>src. resolve_shadow_part_path (\<lambda>q. list_ex (\<lambda>(path, _). under q path) fs') (download_backup_dir opts) (bm_disks m) (do_backup_name opts) d
       (encode_component (de_uni env) (fst (split_table_key k))) (encode_component (de_uni env) (snd (split_table_key k)))
       (fst (split_table_key k)) (snd (split_table_key k)) (pi_name p) = Some src
     \<and> (\<forall>(rel, n)\<in>set files. map_of fs' (src @ ''/'' @ rel) = Some n)"
proof -
  obtain i where i: "i \<in> set (plan_download {} m')" "dw_db i = fst (split_table_key k)" "dw_table i = snd (split_table_key k)"
    "DownloadWorkItem.dw_disk_name i = d" "pi_name (dw_part i) = pi_name p"
    "pi_backup_key (dw_part i) = s3_key_for_part (ue_uni uenv) (ue_backup_name uenv) (fst (split_table_key k)) (snd (split_table_key k))
           (pi_name p) (ue_data_format uenv)" "\<not> dw_is_s3_disk_part i"
    using assms(1,2) up p by (rule local_part_queued)
  have disks: "bm_disks m' = bm_disks m" and fmt: "bm_data_format m' = ue_data_format uenv"
    using upload_disks[OF up] upload_format[OF up] by simp_all
  let ?dir = "part_dir env opts (bm_disks m) i" and ?shadow = "part_shadow_dir env opts (bm_disks m) i"
  have ok: "pi_name p \<noteq> []" "CHR ''/'' \<notin> set (pi_name p)"
    using down(4) i(1,5) by (auto simp: download_apart_def item_ok_def part_ok_def)
  have "load_completed_keys env opts fs = {}" using down(5) by (simp add: load_completed_keys_def)
  then have "delivered env opts m' i (map_of fs')" using download_verified[OF down(1-3)] down(4) i(1) by simp
  then have "map_of (rev (map (\<lambda>(rel, n). (pi_name p @ ''/'' @ rel, n)) files)) rel = Some n \<Longrightarrow> map_of fs' (path_join ?shadow rel) = Some n" for rel n
    using i(5-7) down(6) packed(1) stored unfolding delivered_def disks fmt by (auto simp: Let_def)
  moreover have "map_of (rev (map (\<lambda>(rel, n). (pi_name p @ ''/'' @ rel, n)) files)) (pi_name p @ ''/'' @ rel) = Some n" if "(rel, n) \<in> set files" for rel n
  proof -
    have "map_of (rev files) rel = Some n" using that packed(2) by (intro map_of_is_SomeI) (simp_all add: rev_map [symmetric])
    then show ?thesis by (intro map_of_rev_image[of files "\<lambda>rel. pi_name p @ ''/'' @ rel"]) simp_all
  qed
  moreover have "path_join ?shadow (pi_name p @ ''/'' @ rel) = ?dir @ ''/'' @ rel" for rel
    using path_join_name(1)[OF ok] i(5) by (simp add: part_dir_def)
  ultimately have files: "map_of fs' (?dir @ ''/'' @ rel) = Some n" if "(rel, n) \<in> set files" for rel n
    using that by metis
  obtain rel n where "(rel, n) \<in> set files" using packed(3) by (cases files) auto
  from map_of_SomeD[OF files[OF this]] have ex: "list_ex (\<lambda>(path, _). under ?dir path) fs'"
    unfolding list_ex_iff by (rule bexI[rotated]) (simp add: under_def)
  have "resolve_download_target_dir env (bm_disks m) d (do_backup_name opts) (download_backup_dir opts)
      = per_disk_backup_dir (trim_end_char CHR ''/'' dp) (do_backup_name opts)"
    using disk by (simp add: resolve_download_target_dir_def)
  then have "resolve_shadow_part_path (\<lambda>q. list_ex (\<lambda>(path, _). under q path) fs') (download_backup_dir opts) (bm_disks m) (do_backup_name opts)
      (DownloadWorkItem.dw_disk_name i) (encode_component (de_uni env) (dw_db i)) (encode_component (de_uni env) (dw_table i))
      (fst (split_table_key k)) (snd (split_table_key k)) (pi_name (dw_part i)) = Some ?dir"
    by (intro downloaded_part_resolved[where dp = dp]) (use names i ok ex disk in simp_all)
  then show ?thesis using files i by auto
qed

text \<open>A backup of one part that is uploaded and downloaded again.\<close>

definition trip_manifest :: BackupManifest where
  "trip_manifest = sample_manifest\<lparr>bm_disks := [(''default'', ''/ch'')]\<rparr>"

definition trip_published :: BackupManifest where
  "trip_published = (case upload_inner sample_env (\<lambda>_. Inr 5) (\<lambda>_. Inr ()) None {} trip_manifest of Inr m \<Rightarrow> m | Inl _ \<Rightarrow> trip_manifest)"

definition trip_env :: download_env where
  "trip_env = dl_env\<lparr>de_exists := (\<lambda>p. p = ''/ch''), de_parse_manifest := (\<lambda>_. Some trip_published),
     de_get := (\<lambda>key _. if key = ''b/metadata.json'' then Inr ''M'' else Inr ''good'')\<rparr>"

definition trip_files :: "download_error option \<times> fsys" where
  "trip_files = bind_io (download_parts trip_env dl_opts trip_published (plan_download {} trip_published)
       ([(download_state_path dl_opts, File ''S'')], None)) (finish_download trip_env dl_opts trip_published)"

lemma trip_run: "download trip_env dl_opts [] = (Inr (download_backup_dir dl_opts), snd trip_files)"
proof -
  have "fst trip_files = None" by code_simp
  then obtain fs' where d: "trip_files = (None, fs')" by (metis prod.collapse)
  have "bm_disks trip_published = [(''default'', ''/ch'')]" by code_simp
  then have "save_disk_map trip_env dl_opts trip_published [] = [(download_state_path dl_opts, File ''S'')]"
    by (simp add: save_disk_map_def save_download_state_def trip_env_def dl_env_def)
  moreover have "space_preflight trip_env dl_opts trip_published [] = None" "load_completed_keys trip_env dl_opts [] = {}" by code_simp+
  moreover have "de_mkdir_ok trip_env d" "do_use_resume dl_opts = False" for d by (simp_all add: trip_env_def dl_env_def dl_opts_def)
  ultimately have "download_manifest trip_env dl_opts trip_published [] = trip_files" by (simp add: download_manifest_def trip_files_def)
  moreover have "de_get trip_env (do_backup_name dl_opts @ ''/metadata.json'') 0 = Inr ''M''" "de_parse_manifest trip_env ''M'' = Some trip_published"
    by (simp_all add: trip_env_def dl_opts_def)
  ultimately show ?thesis unfolding d by (simp add: download_def)
qed

lemma trip_apart: "download_apart trip_env dl_opts trip_published (plan_download {} trip_published)"
proof -
  have "map (part_dir trip_env dl_opts (bm_disks trip_published)) (plan_download {} trip_published) = [''/ch/backup/b/shadow/db/t/all_1_1_0'']"
    "map (pi_name \<circ> dw_part) (plan_download {} trip_published) = [''all_1_1_0'']" by code_simp+
  then obtain i where i: "plan_download {} trip_published = [i]" "pi_name (dw_part i) = ''all_1_1_0''"
    "part_dir trip_env dl_opts (bm_disks trip_published) i = ''/ch/backup/b/shadow/db/t/all_1_1_0''"
    by (auto simp: Cons_eq_map_conv map_eq_Cons_conv)
  have "map (table_metadata_path trip_env (download_backup_dir dl_opts) \<circ> fst) (bm_tables trip_published) = [''/ch/backup/b/metadata/db/t.json'']"
    by code_simp
  from this [THEN arg_cong [where f = set]]
  have b: "beside_parts trip_env dl_opts trip_published p \<longleftrightarrow>
      under ''/ch/backup/b/access'' p \<or> under ''/ch/backup/b/configs'' p \<or> p = ''/ch/backup/b/metadata/db/t.json''" for p
    unfolding beside_parts_def dl_paths by (simp add: image_comp)
  have f: "bm_data_format trip_published = ''lz4''" by code_simp
  have "part_ok trip_env trip_published i"
    by (auto simp: part_ok_def i f trip_env_def dl_env_def split: if_splits)
  moreover have "de_schedule trip_env [i] = [i]" by (simp add: trip_env_def dl_env_def)
  moreover have "\<not> beside_parts trip_env dl_opts trip_published p" if "under ''/ch/backup/b/shadow/db/t/all_1_1_0'' p" for p
    using that by (auto simp: b under_def prefix_def)
  ultimately show ?thesis unfolding download_apart_def i(1) by (simp add: item_ok_def i dl_paths b under_def)
qed

theorem backup_roundtrip_witness:
  "\<exists>src. resolve_shadow_part_path (\<lambda>q. list_ex (\<lambda>(path, _). under q path) (snd trip_files)) (download_backup_dir dl_opts) [(''default'', ''/ch'')]
       ''b'' ''default'' ''db'' ''t'' ''db'' ''t'' ''all_1_1_0'' = Some src
     \<and> map_of (snd trip_files) (src @ ''/checksums.txt'') = Some (File ''sums'') \<and> map_of (snd trip_files) (src @ ''/data.bin'') = Some (Bin 9)"
proof -
  let ?p = "PartInfo_new ''all_1_1_0'' 10 7" and ?files = "[(''checksums.txt'', File ''sums''), (''data.bin'', Bin 9)]"
  have "\<not> isl (upload_inner sample_env (\<lambda>_. Inr 5) (\<lambda>_. Inr ()) None {} trip_manifest)" by code_simp
  then have up: "upload_inner sample_env (\<lambda>_. Inr 5) (\<lambda>_. Inr ()) None {} trip_manifest = Inr trip_published"
    by (cases "upload_inner sample_env (\<lambda>_. Inr 5) (\<lambda>_. Inr ()) None {} trip_manifest") (auto simp: trip_published_def)
  have live: "live_parts trip_manifest = [(''db.t'', ''default'', ?p)]" by code_simp
  have 1: "manifest_ok trip_manifest" "split_table_key ''db.t'' = (''db'', ''t'')" "\<not> starts_with (pi_source ?p) ''carried:''"
    "disk_is_s3 trip_manifest ''default'' = False" "encode_component (de_uni trip_env) ''db'' = ''db''" "encode_component (de_uni trip_env) ''t'' = ''t''"
    "validate_disk_path (de_canonicalize trip_env) ''/ch''" "trim_end_char CHR ''/'' ''/ch'' = ''/ch''"
    "s3_key_for_part (ue_uni sample_env) (ue_backup_name sample_env) ''db'' ''t'' ''all_1_1_0'' (ue_data_format sample_env) = ''b/data/db/t/all_1_1_0.tar.lz4''"
    by code_simp+
  have 2: "names_distinct trip_manifest" "(''db.t'', ''default'', ?p) \<in> set (live_parts trip_manifest)"
    by (simp_all add: names_distinct_def live)
  have 4: "pi_name ?p = ''all_1_1_0''" "bm_disks trip_manifest = [(''default'', ''/ch'')]"
    by (simp_all add: PartInfo_new_def trip_manifest_def)
  have 3: "de_get trip_env ''b/data/db/t/all_1_1_0.tar.lz4'' attempt = Inr ''good''" "de_exists trip_env ''/ch''"
    "de_unpack trip_env (ue_data_format sample_env) ''good'' = (map (\<lambda>(rel, n). (''all_1_1_0'' @ ''/'' @ rel, n)) ?files, None)"
    "de_get trip_env ''b/metadata.json'' 0 = Inr ''M''" "de_parse_manifest trip_env ''M'' = Some trip_published"
    "\<not> do_use_resume dl_opts" "\<not> do_hardlink_exists_files dl_opts" "do_backup_name dl_opts = ''b''" for attempt
    by (simp_all add: trip_env_def dl_env_def sample_env_def dl_opts_def)
  show ?thesis
    using backup_roundtrip[OF 1(1) 2(1) up 2(2) 1(3), of trip_env "''good''" ?files dl_opts "[]" "download_backup_dir dl_opts" "snd trip_files" "''M''" "''/ch''"]
      trip_run trip_apart by (simp add: 1 2 3 4)
qed

end
